(* ===== verification/Prelude.thy ===== *)
theory Prelude
  imports Main "HOL-Library.Word" "HOL-Library.Multiset" "HOL-Library.Product_Lexorder"
begin

text \<open>
  Shared vocabulary of the development.  It holds the names of Rust's results and machine
  integers, the standard-library operations the crates use on them (the \<open>?\<close> operator,
  \<open>collect\<close>, \<open>checked_sub\<close>, \<open>saturating_add\<close>, \<open>chunks\<close>, \<open>enumerate\<close>), the list and
  multiset facts the component proofs share, and a locale for machines whose steps keep
  an invariant.
\<close>

section \<open>Collections of facts\<close>

named_theorems stmt_defs \<open>definitions of the SQL statements\<close>
named_theorems wf_rules \<open>preservation of the database invariant\<close>
named_theorems ext_rules \<open>facts about third-party code that a hypothesis states\<close>

section \<open>Results\<close>

text \<open>
  Rust's \<open>Result<A, E>\<close> is \<open>'e + 'a\<close>, with the error on the left.  \<open>bind_result\<close> is the
  \<open>?\<close> operator, \<open>map_err\<close> is \<open>Result::map_err\<close>, and \<open>collect_results\<close> is
  \<open>Iterator::collect\<close> into a \<open>Result<Vec<_>, _>\<close>, which stops at the first error.
\<close>

abbreviation Ok :: "'a \<Rightarrow> 'e + 'a" where "Ok \<equiv> Inr"
abbreviation Err :: "'e \<Rightarrow> 'e + 'a" where "Err \<equiv> Inl"

fun bind_result :: "'e + 'a \<Rightarrow> ('a \<Rightarrow> 'e + 'b) \<Rightarrow> 'e + 'b" where
  "bind_result (Inl e) f = Inl e"
| "bind_result (Inr x) f = f x"

fun map_err :: "('e \<Rightarrow> 'f) \<Rightarrow> 'e + 'a \<Rightarrow> 'f + 'a" where
  "map_err g (Inl e) = Inl (g e)"
| "map_err g (Inr x) = Inr x"

fun collect_results :: "('e + 'a) list \<Rightarrow> 'e + 'a list" where
  "collect_results [] = Inr []"
| "collect_results (Inl e # rs) = Inl e"
| "collect_results (Inr x # rs) =
     (case collect_results rs of Inl e \<Rightarrow> Inl e | Inr xs \<Rightarrow> Inr (x # xs))"

lemma bind_result_Ok_iff:
  "bind_result r f = Inr y \<longleftrightarrow> (\<exists>x. r = Inr x \<and> f x = Inr y)"
  by (cases r) auto

lemma map_err_Ok_iff [simp]: "map_err g r = Inr x \<longleftrightarrow> r = Inr x"
  by (cases r) auto

lemma collect_results_map_Ok [simp]: "collect_results (map (\<lambda>x. Inr (f x)) xs) = Inr (map f xs)"
  by (induction xs) auto

lemma collect_results_Ok_iff: "collect_results rs = Inr xs \<longleftrightarrow> rs = map Inr xs"
proof (induction rs arbitrary: xs)
  case (Cons r rs)
  then show ?case by (cases r) (auto split: sum.splits)
qed auto

lemma collect_results_map_cong:
  "(\<And>x. x \<in> set xs \<Longrightarrow> f x = Inr (g x)) \<Longrightarrow> collect_results (map f xs) = Inr (map g xs)"
  by (simp add: collect_results_Ok_iff)

lemma collect_results_Err:
  "x \<in> set xs \<Longrightarrow> f x = Inl e \<Longrightarrow> \<exists>e'. collect_results (map f xs) = Inl e'"
proof (induction xs)
  case (Cons y ys)
  then show ?case by (cases "f y") (auto split: sum.splits)
qed simp

section \<open>Machine integers\<close>

text \<open>
  \<open>i64\<close>, \<open>u64\<close>, \<open>u32\<close> and \<open>u8\<close> are words of their width.  A word is read as signed with
  \<open>sint\<close> and as unsigned with \<open>uint\<close> or \<open>unat\<close>.
\<close>

type_synonym u8 = "8 word"
type_synonym u32 = "32 word"
type_synonym u64 = "64 word"
type_synonym i64 = "64 word"

definition i64_max :: i64 where "i64_max = 0x7FFFFFFFFFFFFFFF"
definition i64_min :: i64 where "i64_min = 0x8000000000000000"

lemma sint_i64_max [simp]: "sint i64_max = 2 ^ 63 - 1"
  by (simp add: i64_max_def)

lemma sint_i64_min [simp]: "sint i64_min = - (2 ^ 63)"
  by (simp add: i64_min_def)

lemma sint_i64_bounds: "- (2 ^ 63) \<le> sint (w :: i64)" "sint (w :: i64) < 2 ^ 63"
  using sint_range_size [of w] by (auto simp: word_size)

lemma sint_i64_le: "sint (w :: i64) \<le> 2 ^ 63 - 1"
  using sint_i64_bounds(2) [of w] by linarith

lemma sint_i64_eq_max: "sint (w :: i64) = 2 ^ 63 - 1 \<longleftrightarrow> w = i64_max"
  by (metis sint_i64_max signed_word_eqI)

lemma sint_i64_eq_min: "sint (w :: i64) = - (2 ^ 63) \<longleftrightarrow> w = i64_min"
  by (metis sint_i64_min signed_word_eqI)

lemma sint_i64_of_int:
  "- (2 ^ 63) \<le> i \<Longrightarrow> i < 2 ^ 63 \<Longrightarrow> sint (word_of_int i :: i64) = i"
  by (simp add: sint_sbintrunc' signed_take_bit_int_eq_self)

lemma sint_i64_inc: "w \<noteq> i64_max \<Longrightarrow> sint (w + 1 :: i64) = sint w + 1"
proof -
  assume "w \<noteq> i64_max"
  then have "sint w + 1 < 2 ^ 63"
    using sint_i64_le [of w] sint_i64_eq_max [of w] by linarith
  moreover have "w + 1 = word_of_int (sint w + 1)"
    by simp
  ultimately show ?thesis
    using sint_i64_bounds(1) [of w] sint_i64_of_int [of "sint w + 1"] by simp
qed

lemma sint_i64_dec: "w \<noteq> i64_min \<Longrightarrow> sint (w - 1 :: i64) = sint w - 1"
proof -
  assume "w \<noteq> i64_min"
  then have "- (2 ^ 63) \<le> sint w - 1"
    using sint_i64_bounds(1) [of w] sint_i64_eq_min [of w] by linarith
  moreover have "w - 1 = word_of_int (sint w - 1)"
    by simp
  ultimately show ?thesis
    using sint_i64_bounds(2) [of w] sint_i64_of_int [of "sint w - 1"] by simp
qed

lemma sint_i64_inject: "sint (v :: i64) = sint w \<longleftrightarrow> v = w"
  by (metis signed_word_eqI)

text \<open>A word with the sign bit clear is the same number read either way.\<close>

lemma sint_i64_uint: "sint (w :: i64) = (if uint w < 2 ^ 63 then uint w else uint w - 2 ^ 64)"
proof -
  have u: "0 \<le> uint w" "uint w < 2 ^ 64"
    using unsigned_greater_eq [of w, where 'a = int] unsigned_less [of w, where 'a = int] by simp_all
  have s: "sint w = (uint w + 2 ^ 63) mod 2 ^ 64 - 2 ^ 63"
    by (simp add: sint_uint signed_take_bit_eq_take_bit_shift take_bit_eq_mod)
  show ?thesis
  proof (cases "uint w < 2 ^ 63")
    case True
    then have "(uint w + 2 ^ 63) mod 2 ^ 64 = uint w + 2 ^ 63"
      using u by (intro mod_pos_pos_trivial) simp_all
    with True s show ?thesis by simp
  next
    case False
    then have "(uint w + 2 ^ 63) mod 2 ^ 64 = (uint w - 2 ^ 63) mod 2 ^ 64"
      using mod_add_self2 [of "uint w - 2 ^ 63" "2 ^ 64"] by (simp add: add.commute)
    also have "\<dots> = uint w - 2 ^ 63"
      using u False by (intro mod_pos_pos_trivial) simp_all
    finally show ?thesis using False s by simp
  qed
qed

lemma unat_less_i64_max: "unat (w :: i64) < 2 ^ 63 \<longleftrightarrow> uint w < 2 ^ 63"
  using of_nat_less_iff [where 'a = int, of "unat w" "2 ^ 63"] by simp

text \<open>A \<open>u64\<close> that an \<open>i64\<close> can hold.\<close>

definition fits_i64 :: "u64 \<Rightarrow> bool" where [simp]:
  "fits_i64 n \<longleftrightarrow> unat n < 2 ^ 63"

lemma fits_i64_code [code]: "fits_i64 n \<longleftrightarrow> uint n < 9223372036854775808"
  unfolding fits_i64_def unat_less_i64_max by simp

lemma sint_i64_nonneg: "0 \<le> sint (w :: i64) \<longleftrightarrow> unat w < 2 ^ 63"
  using unsigned_less [of w, where 'a = int]
  unfolding sint_i64_uint unat_less_i64_max by simp

lemma sint_i64_unat: "0 \<le> sint (w :: i64) \<Longrightarrow> sint w = int (unat w)"
  using sint_i64_uint [of w] unfolding sint_i64_nonneg unat_less_i64_max by simp

lemma sint_ucast_u32: "sint (ucast (n :: u32) :: i64) = uint n"
proof -
  have b: "uint n < 2 ^ 32" "0 \<le> uint n"
    using unsigned_less [of n, where 'a = int] by simp_all
  then have "uint (ucast n :: i64) = uint n"
    by (simp add: unsigned_ucast_eq take_bit_int_eq_self)
  with b show ?thesis by (simp add: sint_i64_uint)
qed

lemma ucast_u32_u64 [simp]: "(ucast (ucast (n :: u32) :: 64 word) :: u32) = n"
  by (rule bit_word_eqI) (simp add: bit_ucast_iff)

definition i64_saturating_add1 :: "i64 \<Rightarrow> i64" where
  "i64_saturating_add1 w = (if w = i64_max then i64_max else w + 1)"

definition i64_checked_sub1 :: "i64 \<Rightarrow> i64 option" where
  "i64_checked_sub1 w = (if w = i64_min then None else Some (w - 1))"

definition u64_checked_sub1 :: "u64 \<Rightarrow> u64 option" where
  "u64_checked_sub1 w = (if w = 0 then None else Some (w - 1))"

definition u64_checked_add :: "u64 \<Rightarrow> u64 \<Rightarrow> u64 option" where
  "u64_checked_add a b = (if unat a + unat b < 2 ^ 64 then Some (a + b) else None)"

lemma u64_checked_add_Some:
  "u64_checked_add a b = Some c \<longleftrightarrow> unat c = unat a + unat b \<and> unat a + unat b < 2 ^ 64"
proof -
  have "unat (a + b) = unat a + unat b" if "unat a + unat b < 2 ^ 64"
    using that by (simp add: unat_word_ariths)
  then show ?thesis
    by (auto simp: u64_checked_add_def word_unat_eq_iff)
qed

lemma u64_checked_add_code [code]:
  "u64_checked_add a b = (if uint a + uint b < 2 ^ 64 then Some (a + b) else None)"
  using of_nat_less_iff [where 'a = int, of "unat a + unat b" "2 ^ 64"]
  by (simp add: u64_checked_add_def)

lemma u64_checked_add_None: "u64_checked_add a b = None \<longleftrightarrow> 2 ^ 64 \<le> unat a + unat b"
  by (auto simp: u64_checked_add_def)

lemma u64_checked_sub1_Some:
  "u64_checked_sub1 w = Some v \<Longrightarrow> unat v = unat w - 1 \<and> 0 < unat w"
  by (auto simp: u64_checked_sub1_def unat_minus_one unat_gt_0 split: if_splits)

section \<open>Lists\<close>

definition enumerate0 :: "'a list \<Rightarrow> (nat \<times> 'a) list" where
  "enumerate0 xs = zip [0..<length xs] xs"

lemma enumerate0_Nil [simp]: "enumerate0 [] = []"
  by (simp add: enumerate0_def)

lemma enumerate0_snoc: "enumerate0 (xs @ [x]) = enumerate0 xs @ [(length xs, x)]"
  by (simp add: enumerate0_def)

lemma map_snd_enumerate0 [simp]: "map snd (enumerate0 xs) = xs"
  by (simp add: enumerate0_def)

lemma map_fst_enumerate0 [simp]: "map fst (enumerate0 xs) = [0..<length xs]"
  by (simp add: enumerate0_def)

lemma length_enumerate0 [simp]: "length (enumerate0 xs) = length xs"
  by (simp add: enumerate0_def)

lemma in_set_enumerate0: "(i, x) \<in> set (enumerate0 xs) \<longleftrightarrow> i < length xs \<and> xs ! i = x"
  unfolding enumerate0_def in_set_zip by force

text \<open>\<open>slice::chunks\<close> and \<open>slice::chunks_exact\<close>.\<close>

function chunks :: "nat \<Rightarrow> 'a list \<Rightarrow> 'a list list" where
  "chunks n xs = (if n = 0 \<or> xs = [] then [] else take n xs # chunks n (drop n xs))"
  by pat_completeness auto
termination
  by (relation "measure (\<lambda>(n, xs). length xs)") auto

function chunks_exact :: "nat \<Rightarrow> 'a list \<Rightarrow> 'a list list" where
  "chunks_exact n xs =
     (if n = 0 \<or> length xs < n then [] else take n xs # chunks_exact n (drop n xs))"
  by pat_completeness auto
termination
  by (relation "measure (\<lambda>(n, xs). length xs)") auto

declare chunks.simps [simp del] chunks_exact.simps [simp del]

lemma chunks_Nil [simp]: "chunks n [] = []"
  by (subst chunks.simps) simp

lemma chunks_exact_Nil [simp]: "chunks_exact n [] = []"
  by (subst chunks_exact.simps) auto

lemma concat_chunks: "0 < n \<Longrightarrow> concat (chunks n xs) = xs"
proof (induction n xs rule: chunks.induct)
  case (1 n xs)
  then show ?case
    by (cases "xs = []") (auto simp: chunks.simps [of n xs])
qed

lemma chunks_length: "c \<in> set (chunks n xs) \<Longrightarrow> 0 < length c \<and> length c \<le> n"
proof (induction n xs rule: chunks.induct)
  case (1 n xs)
  then show ?case
    by (cases "n = 0 \<or> xs = []") (auto simp: chunks.simps [of n xs])
qed

lemma chunks_exact_append:
  "length c = n \<Longrightarrow> 0 < n \<Longrightarrow> chunks_exact n (c @ xs) = c # chunks_exact n xs"
  by (subst chunks_exact.simps) auto

lemma chunks_exact_concat:
  "0 < n \<Longrightarrow> (\<And>c. c \<in> set cs \<Longrightarrow> length c = n) \<Longrightarrow> chunks_exact n (concat cs) = cs"
  by (induction cs) (auto simp: chunks_exact_append)

lemma chunks_exact_length: "c \<in> set (chunks_exact n xs) \<Longrightarrow> length c = n"
proof (induction n xs rule: chunks_exact.induct)
  case (1 n xs)
  then show ?case
    by (cases "n = 0 \<or> length xs < n") (auto simp: chunks_exact.simps [of n xs])
qed

lemma length_chunks_exact: "0 < n \<Longrightarrow> length (chunks_exact n xs) = length xs div n"
proof (induction n xs rule: chunks_exact.induct)
  case (1 n xs)
  then show ?case
    by (cases "length xs < n") (auto simp: chunks_exact.simps [of n xs] le_div_geq)
qed

text \<open>The \<open>LIMIT 1\<close> of a statement, and the first row of a result.\<close>

fun first_row :: "'a list \<Rightarrow> 'a option" where
  "first_row [] = None"
| "first_row (x # xs) = Some x"

lemma first_row_None [simp]: "first_row xs = None \<longleftrightarrow> xs = []"
  by (cases xs) auto

lemma first_row_SomeD: "first_row xs = Some x \<Longrightarrow> x \<in> set xs"
  by (cases xs) auto

lemma first_row_single: "set xs = {x} \<Longrightarrow> first_row xs = Some x"
  by (cases xs) auto

text \<open>A key that only one element of a list has selects that element.\<close>

lemma filter_unique:
  "distinct (map k xs) \<Longrightarrow> x \<in> set xs \<Longrightarrow> filter (\<lambda>y. k y = k x) xs = [x]"
proof (induction xs)
  case (Cons y ys)
  show ?case
  proof (cases "x = y")
    case True
    with Cons.prems(1) have "filter (\<lambda>z. k z = k x) ys = []"
      by (auto simp: filter_empty_conv image_iff)
    with True show ?thesis by simp
  next
    case False
    with Cons have "x \<in> set ys" and "k y \<noteq> k x" by auto
    with Cons show ?thesis by simp
  qed
qed simp

lemma distinct_map_inject:
  "distinct (map k xs) \<Longrightarrow> x \<in> set xs \<Longrightarrow> y \<in> set xs \<Longrightarrow> k x = k y \<Longrightarrow> x = y"
  by (auto simp: distinct_map dest: inj_onD)

lemma concat_map_filter:
  "concat (map (\<lambda>x. if P x then f x else []) xs) = concat (map f (filter P xs))"
  by (induction xs) auto

lemma concat_map_unique:
  "distinct (map k xs) \<Longrightarrow> x \<in> set xs \<Longrightarrow>
   concat (map (\<lambda>y. if k y = k x then f y else []) xs) = f x"
  by (simp add: concat_map_filter filter_unique)

lemma first_row_filter_unique:
  "distinct (map k xs) \<Longrightarrow> x \<in> set xs \<Longrightarrow> first_row (filter (\<lambda>y. k y = k x) xs) = Some x"
  by (simp add: filter_unique)

text \<open>Sorting by a key that separates the rows does not depend on the scan order.\<close>

lemma sort_key_perm:
  "mset xs = mset ys \<Longrightarrow> inj_on k (set xs) \<Longrightarrow> sort_key k xs = sort_key k ys"
proof (rule properties_for_sort_key [symmetric])
  assume m: "mset xs = mset ys" and inj: "inj_on k (set xs)"
  show "mset (sort_key k xs) = mset ys"
    using m by simp
  show "sorted (map k (sort_key k xs))"
    by simp
  fix a
  assume "a \<in> set (sort_key k xs)"
  then have a: "a \<in> set xs" by simp
  have one: "filter (\<lambda>x. k a = k x) zs = replicate (size (filter_mset ((=) a) (mset zs))) a"
    if "set zs = set xs" for zs
  proof -
    have "filter (\<lambda>x. k a = k x) zs = filter ((=) a) zs"
      using inj a that by (intro filter_cong) (auto dest: inj_onD)
    also have "\<dots> = replicate (length (filter ((=) a) zs)) a"
      using replicate_length_filter [of a zs] by simp
    also have "length (filter ((=) a) zs) = size (filter_mset ((=) a) (mset zs))"
      by (metis mset_filter size_mset)
    finally show ?thesis .
  qed
  have "set ys = set xs" using m by (metis set_mset_mset)
  with m one [of "sort_key k xs"] one [of ys]
  show "filter (\<lambda>x. k a = k x) (sort_key k xs) = filter (\<lambda>x. k a = k x) ys"
    by simp
qed

section \<open>Machines that keep an invariant\<close>

text \<open>
  A machine is a set of start states and a step relation.  \<open>inv_machine\<close> is the contract
  between a component that names an invariant and the runs of that component: the starts
  satisfy it and each step keeps it, so every reachable state satisfies it.
\<close>

inductive reachable :: "('s \<Rightarrow> bool) \<Rightarrow> ('s \<Rightarrow> 's \<Rightarrow> bool) \<Rightarrow> 's \<Rightarrow> bool"
  for start step where
  reach_start: "start s \<Longrightarrow> reachable start step s"
| reach_step: "reachable start step s \<Longrightarrow> step s t \<Longrightarrow> reachable start step t"

locale inv_machine =
  fixes start :: "'s \<Rightarrow> bool" and step :: "'s \<Rightarrow> 's \<Rightarrow> bool" and inv :: "'s \<Rightarrow> bool"
  assumes inv_start: "start s \<Longrightarrow> inv s"
    and inv_step: "inv s \<Longrightarrow> step s t \<Longrightarrow> inv t"
begin

lemma reachable_inv: "reachable start step s \<Longrightarrow> inv s"
  by (induction rule: reachable.induct) (auto intro: inv_start inv_step)

end

end
