(* ===== verification/EssentialTypes.thy ===== *)
theory EssentialTypes
  imports Prelude
begin

text \<open>
  The data the node exchanges: the structs of the \<open>essential-types\<close> crate with the fields
  this repository reads and writes, \<open>core::time::Duration\<close>, and the record \<open>ext\<close> of
  third-party functions the program calls.  No function of another crate is defined here:
  each is a field of \<open>ext\<close>, and what the program relies on is a named predicate over it.
\<close>

section \<open>Words, hashes and addresses\<close>

text \<open>
  \<open>Word\<close> is \<open>i64\<close>; \<open>Key\<close> and \<open>Value\<close> are vectors of words.  A \<open>Hash\<close> is \<open>[u8; 32]\<close>, kept
  as the 256-bit word with those bytes, most significant first: equality of arrays is
  equality of words, and the bytewise order SQLite uses for blobs is the order of words.
\<close>

type_synonym Word = i64
type_synonym Key = "Word list"
type_synonym Value = "Word list"
type_synonym Hash = "256 word"

datatype ContentAddress = ContentAddress (hash_of: Hash)

instantiation ContentAddress :: linorder
begin

definition less_eq_ContentAddress :: "ContentAddress \<Rightarrow> ContentAddress \<Rightarrow> bool" where
  "a \<le> b \<longleftrightarrow> hash_of a \<le> hash_of b"

definition less_ContentAddress :: "ContentAddress \<Rightarrow> ContentAddress \<Rightarrow> bool" where
  "a < b \<longleftrightarrow> hash_of a < hash_of b"

instance
  by standard
    (auto simp: less_eq_ContentAddress_def less_ContentAddress_def intro: ContentAddress.expand)

end

definition bytes_of_hash :: "Hash \<Rightarrow> u8 list" where
  "bytes_of_hash h = map (\<lambda>i. ucast (drop_bit (8 * i) h)) (rev [0..<32])"

lemma length_bytes_of_hash [simp]: "length (bytes_of_hash h) = 32"
  by (simp add: bytes_of_hash_def)

lemma bytes_of_hash_inject: "bytes_of_hash g = bytes_of_hash h \<Longrightarrow> g = h"
proof (rule bit_word_eqI)
  fix n
  assume eq: "bytes_of_hash g = bytes_of_hash h" and "n < LENGTH(256)"
  define i where "i = n div 8"
  have i: "i < 32" and n: "n = 8 * i + n mod 8" and m: "n mod 8 < 8"
    using \<open>n < LENGTH(256)\<close> by (auto simp: i_def)
  from eq i have "(ucast (drop_bit (8 * i) g) :: u8) = ucast (drop_bit (8 * i) h)"
    by (auto simp: bytes_of_hash_def)
  then have "bit (ucast (drop_bit (8 * i) g) :: u8) (n mod 8)
      = bit (ucast (drop_bit (8 * i) h) :: u8) (n mod 8)"
    by simp
  then have "bit g (8 * i + n mod 8) = bit h (8 * i + n mod 8)"
    using m by (simp add: bit_ucast_iff bit_drop_bit_eq)
  with n show "bit g n \<longleftrightarrow> bit h n" by simp
qed

section \<open>Durations\<close>

text \<open>
  \<open>Duration\<close> keeps whole seconds and the nanoseconds below one second, and is ordered by
  the two in turn.  \<open>Duration_new\<close> is \<open>Duration::new\<close>, which carries whole seconds out of
  the nanoseconds; it panics when the carry overflows \<open>u64\<close>, which \<open>Duration_new_no_overflow\<close>
  excludes for seconds read from an \<open>i64\<close> column.
\<close>

datatype Duration = Duration (as_secs: u64) (subsec_nanos: u32)

instantiation Duration :: linorder
begin

definition less_eq_Duration :: "Duration \<Rightarrow> Duration \<Rightarrow> bool" where
  "a \<le> b \<longleftrightarrow> as_secs a < as_secs b \<or> as_secs a = as_secs b \<and> subsec_nanos a \<le> subsec_nanos b"

definition less_Duration :: "Duration \<Rightarrow> Duration \<Rightarrow> bool" where
  "a < b \<longleftrightarrow> as_secs a < as_secs b \<or> as_secs a = as_secs b \<and> subsec_nanos a < subsec_nanos b"

instance
  by standard
    (auto simp: less_eq_Duration_def less_Duration_def intro: Duration.expand)

end

definition from_secs :: "u64 \<Rightarrow> Duration" where
  "from_secs s = Duration s 0"

definition Duration_new :: "u64 \<Rightarrow> u32 \<Rightarrow> Duration" where
  "Duration_new s n =
     (if n < 1000000000 then Duration s n
      else Duration (s + ucast (n div 1000000000)) (n mod 1000000000))"

definition duration_ok :: "Duration \<Rightarrow> bool" where
  "duration_ok d \<longleftrightarrow> subsec_nanos d < 1000000000"

lemma Duration_new_ok: "duration_ok d \<Longrightarrow> Duration_new (as_secs d) (subsec_nanos d) = d"
  by (simp add: Duration_new_def duration_ok_def)

lemma Duration_new_no_overflow:
  "unat (s :: u64) < 2 ^ 63 \<Longrightarrow> unat s + unat ((n :: u32) div 1000000000) < 2 ^ 64"
proof -
  assume "unat s < 2 ^ 63"
  moreover have "unat (n div 1000000000) \<le> unat n"
    by (simp add: unat_div)
  moreover have "unat n < 2 ^ 32"
    using unsigned_less [of n, where 'a = nat] by simp
  ultimately show ?thesis by simp
qed

section \<open>Solutions, predicates and programs\<close>

record PredicateAddress =
  contract :: ContentAddress
  predicate :: ContentAddress

record Mutation =
  mut_key :: Key
  mut_value :: Value

record Solution =
  predicate_to_solve :: PredicateAddress
  predicate_data :: "Value list"
  state_mutations :: "Mutation list"

record SolutionSet =
  solutions :: "Solution list"

text \<open>
  Of a predicate graph the repository reads the program address of each node only; the
  edges are carried along.
\<close>

record Node =
  program_address :: ContentAddress
  edge_start :: nat

record Predicate =
  nodes :: "Node list"
  edges :: "nat list"

record Contract =
  predicates :: "Predicate list"
  salt :: Hash

datatype Program = Program (program_bytes: "u8 list")

typedecl PredicateEncodeError
typedecl PredicateDecodeError

section \<open>Third-party code\<close>

text \<open>
  The functions of other crates, and the row order of SQLite, as fields of one record:
  the word conversions of \<open>essential-types\<close>; \<open>essential_hash::hash\<close> at the tuple a block
  address is made of and \<open>essential_hash::content_addr\<close> at each type it is used at; the
  predicate encoding; and \<open>plan\<close>, the order in which SQLite returns the rows of a
  \<open>SELECT\<close> whose \<open>ORDER BY\<close> does not decide it.  \<open>plan\<close> may depend on the whole database and
  on the statement with its parameters, and returns the positions of the rows in the order
  they are visited.
\<close>

record ('db, 'q) ext =
  bytes_from_word :: "Word \<Rightarrow> u8 list"
  word_from_bytes :: "u8 list \<Rightarrow> Word"
  word_from_bytes_slice :: "u8 list \<Rightarrow> Word"
  word_4_from_u8_32 :: "Hash \<Rightarrow> Word list"
  hash_block_parts :: "Word \<times> Duration \<times> ContentAddress list \<Rightarrow> Hash"
  content_addr_solution_set :: "SolutionSet \<Rightarrow> ContentAddress"
  content_addr_contract :: "Contract \<Rightarrow> ContentAddress"
  content_addr_predicate :: "Predicate \<Rightarrow> ContentAddress"
  content_addr_program :: "Program \<Rightarrow> ContentAddress"
  predicate_encode :: "Predicate \<Rightarrow> PredicateEncodeError + u8 list"
  predicate_decode :: "u8 list \<Rightarrow> PredicateDecodeError + Predicate"
  plan :: "'db \<Rightarrow> 'q \<Rightarrow> nat \<Rightarrow> nat list"

text \<open>
  A word has 8 bytes and is read back from them; a slice of at most 8 bytes is padded at
  its end, so that its bytes are the first bytes of the word.
\<close>

definition codec_ok :: "('db, 'q) ext \<Rightarrow> bool" where
  "codec_ok E \<longleftrightarrow>
     (\<forall>w. length (bytes_from_word E w) = 8) \<and>
     (\<forall>w. word_from_bytes E (bytes_from_word E w) = w) \<and>
     (\<forall>bs. length bs \<le> 8 \<longrightarrow> take (length bs) (bytes_from_word E (word_from_bytes_slice E bs)) = bs)"

text \<open>Decoding an encoded predicate gives it back.\<close>

definition predicate_codec_ok :: "('db, 'q) ext \<Rightarrow> bool" where
  "predicate_codec_ok E \<longleftrightarrow>
     (\<forall>p bs. predicate_encode E p = Ok bs \<longrightarrow> predicate_decode E bs = Ok p)"

text \<open>SQLite returns each row of a result once, in some order.\<close>

definition plan_ok :: "('db, 'q) ext \<Rightarrow> bool" where
  "plan_ok E \<longleftrightarrow> (\<forall>d q n. mset (plan E d q n) = mset [0..<n])"

definition scan :: "('db, 'q) ext \<Rightarrow> 'db \<Rightarrow> 'q \<Rightarrow> 'a list \<Rightarrow> 'a list" where
  "scan E d q xs = map (\<lambda>i. xs ! i) (plan E d q (length xs))"

lemma codec_ok_length [ext_rules]: "codec_ok E \<Longrightarrow> length (bytes_from_word E w) = 8"
  by (simp add: codec_ok_def)

lemma codec_ok_roundtrip [ext_rules]:
  "codec_ok E \<Longrightarrow> word_from_bytes E (bytes_from_word E w) = w"
  by (simp add: codec_ok_def)

lemma codec_ok_slice [ext_rules]:
  "codec_ok E \<Longrightarrow> length bs \<le> 8 \<Longrightarrow>
   take (length bs) (bytes_from_word E (word_from_bytes_slice E bs)) = bs"
  by (simp add: codec_ok_def)

lemma mset_scan [ext_rules]: "plan_ok E \<Longrightarrow> mset (scan E d q xs) = mset xs"
proof -
  assume "plan_ok E"
  then have "mset (scan E d q xs) = image_mset ((!) xs) (mset [0..<length xs])"
    by (simp only: scan_def mset_map plan_ok_def)
  also have "\<dots> = mset xs"
    by (metis map_nth mset_map)
  finally show ?thesis .
qed

lemma set_scan: "plan_ok E \<Longrightarrow> set (scan E d q xs) = set xs"
  by (metis mset_scan set_mset_mset)

lemma length_scan: "plan_ok E \<Longrightarrow> length (scan E d q xs) = length xs"
  by (metis mset_scan size_mset)

lemma scan_Nil [simp]: "plan_ok E \<Longrightarrow> scan E d q [] = []"
  using length_scan [of E d q "[]"] by simp

lemma scan_single [simp]: "plan_ok E \<Longrightarrow> scan E d q [x] = [x]"
  using mset_scan [of E d q "[x]"] by simp

lemma sort_key_scan:
  "plan_ok E \<Longrightarrow> inj_on k (set xs) \<Longrightarrow> sort_key k (scan E d q xs) = sort_key k xs"
  using mset_scan [of E d q xs] set_scan [of E d q xs]
  by (intro sort_key_perm) auto

section \<open>A big-endian word codec\<close>

text \<open>
  A concrete codec at which the witnesses evaluate: the eight bytes of a word, most
  significant first.
\<close>

fun digits256 :: "nat \<Rightarrow> nat \<Rightarrow> nat list" where
  "digits256 0 n = []"
| "digits256 (Suc k) n = digits256 k (n div 256) @ [n mod 256]"

definition undigits256 :: "nat list \<Rightarrow> nat" where
  "undigits256 ds = foldl (\<lambda>n d. n * 256 + d) 0 ds"

definition be_bytes :: "Word \<Rightarrow> u8 list" where
  "be_bytes w = map word_of_nat (digits256 8 (unat w))"

definition be_word :: "u8 list \<Rightarrow> Word" where
  "be_word bs = word_of_nat (undigits256 (map unat bs))"

lemma undigits256_snoc [simp]: "undigits256 (ds @ [d]) = undigits256 ds * 256 + d"
  by (simp add: undigits256_def)

lemma undigits256_digits256: "undigits256 (digits256 k n) = n mod 256 ^ k"
proof (induction k arbitrary: n)
  case 0
  then show ?case by (simp add: undigits256_def)
next
  case (Suc k)
  have "n mod 256 ^ Suc k = 256 * (n div 256 mod 256 ^ k) + n mod 256"
    by (simp add: mod_mult2_eq)
  with Suc show ?case by simp
qed

lemma digits256_undigits256:
  "(\<And>d. d \<in> set ds \<Longrightarrow> d < 256) \<Longrightarrow> digits256 (length ds) (undigits256 ds) = ds"
  by (induction ds rule: rev_induct) auto

lemma length_digits256 [simp]: "length (digits256 k n) = k"
  by (induction k arbitrary: n) auto

lemma digits256_less: "d \<in> set (digits256 k n) \<Longrightarrow> d < 256"
  by (induction k arbitrary: n) auto

lemma undigits256_less: "(\<And>d. d \<in> set ds \<Longrightarrow> d < 256) \<Longrightarrow> undigits256 ds < 256 ^ length ds"
proof (induction ds rule: rev_induct)
  case (snoc d ds)
  then have "undigits256 ds + 1 \<le> 256 ^ length ds" and "d < 256" by force+
  then have "256 * (undigits256 ds + 1) \<le> 256 * 256 ^ length ds"
    by (intro mult_le_mono2)
  with \<open>d < 256\<close> show ?case by simp
qed (simp add: undigits256_def)

lemma be_word_be_bytes: "be_word (be_bytes w) = w"
proof -
  have "map unat (be_bytes w) = digits256 8 (unat w)"
    unfolding be_bytes_def map_map
    by (intro map_idI) (auto dest: digits256_less simp: unat_of_nat)
  moreover have "unat w mod 256 ^ 8 = unat w"
    using unsigned_less [of w, where 'a = nat] by simp
  ultimately show ?thesis
    by (simp add: be_word_def undigits256_digits256)
qed

lemma be_bytes_be_word: "length bs = 8 \<Longrightarrow> be_bytes (be_word bs) = bs"
proof -
  assume l: "length bs = 8"
  have less: "d < 256" if "d \<in> set (map unat bs)" for d
    using that by (auto intro: unsigned_less [THEN order_less_le_trans])
  then have "undigits256 (map unat bs) < 2 ^ 64"
    using undigits256_less [of "map unat bs"] l by simp
  then have "unat (be_word bs) = undigits256 (map unat bs)"
    by (simp add: be_word_def unat_of_nat)
  moreover have "digits256 8 (undigits256 (map unat bs)) = map unat bs"
    using digits256_undigits256 [of "map unat bs", OF less] l by simp
  ultimately show ?thesis
    by (simp add: be_bytes_def comp_def)
qed

definition be_word_slice :: "u8 list \<Rightarrow> Word" where
  "be_word_slice bs = be_word (bs @ replicate (8 - length bs) 0)"

lemma length_be_bytes [simp]: "length (be_bytes w) = 8"
  by (simp add: be_bytes_def)

lemma be_word_slice_take: "length bs \<le> 8 \<Longrightarrow> take (length bs) (be_bytes (be_word_slice bs)) = bs"
  by (simp add: be_word_slice_def be_bytes_be_word)

text \<open>Code equations over \<open>int\<close>, whose numerals are binary.\<close>

lemma digits256_map: "digits256 k n = map (\<lambda>i. n div 256 ^ i mod 256) (rev [0..<k])"
proof (induction k arbitrary: n)
  case (Suc k)
  have "[0..<Suc k] = 0 # map Suc [0..<k]"
    by (simp add: map_Suc_upt upt_conv_Cons del: upt_Suc)
  then have "rev [0..<Suc k] = map Suc (rev [0..<k]) @ [0]"
    by (simp only: rev.simps rev_map)
  then show ?case
    by (simp add: Suc div_mult2_eq del: upt_Suc)
qed simp

lemma be_bytes_code [code]:
  "be_bytes w = map (\<lambda>i. word_of_int (uint w div 256 ^ i)) (rev [0..<8])"
proof -
  have "(word_of_nat (unat w div 256 ^ i mod 256) :: u8) = word_of_int (uint w div 256 ^ i)" for i
  proof -
    have "int (unat w div 256 ^ i mod 256) = uint w div 256 ^ i mod 256"
      by (simp add: zdiv_int zmod_int)
    then have "(word_of_nat (unat w div 256 ^ i mod 256) :: u8) = word_of_int (uint w div 256 ^ i mod 256)"
      by (metis of_int_of_nat_eq)
    also have "\<dots> = word_of_int (uint w div 256 ^ i)"
      by (simp add: word_of_int_eq_iff take_bit_eq_mod)
    finally show ?thesis .
  qed
  then show ?thesis
    unfolding be_bytes_def digits256_map by simp
qed

lemma be_word_code [code]:
  "be_word bs = word_of_int (fold (\<lambda>b n. n * 256 + uint b) bs 0)"
proof -
  have "int (foldl (\<lambda>n d. n * 256 + d) a (map unat bs)) = fold (\<lambda>b n. n * 256 + uint b) bs (int a)" for a
    by (induction bs arbitrary: a) simp_all
  from this [of 0] have "int (undigits256 (map unat bs)) = fold (\<lambda>b n. n * 256 + uint b) bs 0"
    by (simp add: undigits256_def)
  then show ?thesis
    unfolding be_word_def by (metis of_int_of_nat_eq)
qed

end
