(* ===== verification/NodeTypes.thy ===== *)
theory NodeTypes
  imports EssentialTypes
begin

text \<open>
  The crate \<open>node-types\<close>: blocks and their content address, the big-bang configuration and
  its block, the keys into the contract and program registries, and the mutations that
  register contracts, programs and the block state.
\<close>

section \<open>Blocks\<close>

record Header =
  number :: Word
  timestamp :: Duration

record Block =
  header :: Header
  solution_sets :: "SolutionSet list"

text \<open>\<open>block/addr.rs\<close>: a block's address hashes its header and the addresses of its sets.\<close>

definition from_header_and_solution_set_addrs_slice ::
  "('d, 'q) ext \<Rightarrow> Header \<Rightarrow> ContentAddress list \<Rightarrow> ContentAddress" where
  "from_header_and_solution_set_addrs_slice E h addrs =
     ContentAddress (hash_block_parts E (number h, timestamp h, addrs))"

definition from_header_and_solution_set_addrs ::
  "('d, 'q) ext \<Rightarrow> Header \<Rightarrow> ContentAddress list \<Rightarrow> ContentAddress" where
  "from_header_and_solution_set_addrs E h addrs =
     from_header_and_solution_set_addrs_slice E h addrs"

definition from_block :: "('d, 'q) ext \<Rightarrow> Block \<Rightarrow> ContentAddress" where
  "from_block E b =
     from_header_and_solution_set_addrs E (header b)
       (map (content_addr_solution_set E) (solution_sets b))"

text \<open>The \<open>Address\<close> implementation that makes \<open>content_addr\<close> of a block its \<open>from_block\<close>.\<close>

definition content_addr_block :: "('d, 'q) ext \<Rightarrow> Block \<Rightarrow> ContentAddress" where
  "content_addr_block E b = from_block E b"

lemma content_addr_block_parts:
  "content_addr_block E b =
     from_header_and_solution_set_addrs_slice E (header b)
       (map (content_addr_solution_set E) (solution_sets b))"
  by (simp add: content_addr_block_def from_block_def from_header_and_solution_set_addrs_def)

section \<open>The big bang\<close>

record BigBang =
  block_state :: PredicateAddress
  contract_registry :: PredicateAddress
  program_registry :: PredicateAddress
  bb_solution_set :: SolutionSet

definition big_bang_block :: "BigBang \<Rightarrow> Block" where
  "big_bang_block bb =
     \<lparr>header = \<lparr>number = 0, timestamp = from_secs 0\<rparr>, solution_sets = [bb_solution_set bb]\<rparr>"

text \<open>
  \<open>BigBang::default\<close> parses the embedded \<open>big-bang.yml\<close>; \<open>None\<close> is the panic of its \<open>expect\<close>.
\<close>

definition BigBang_default :: "(string \<Rightarrow> 'e + BigBang) \<Rightarrow> string \<Rightarrow> BigBang option" where
  "BigBang_default from_yaml default_yaml =
     (case from_yaml default_yaml of Inl _ \<Rightarrow> None | Inr bb \<Rightarrow> Some bb)"

section \<open>Actions\<close>

record Action =
  act_predicate_to_solve :: PredicateAddress
  act_inputs :: "Value list"

record ActionSet =
  actions :: "Action list"

section \<open>Registry keys\<close>

definition padded_words_from_bytes :: "('d, 'q) ext \<Rightarrow> u8 list \<Rightarrow> Word list" where
  "padded_words_from_bytes E bs = map (word_from_bytes_slice E) (chunks 8 bs)"

abbreviation ca_words :: "('d, 'q) ext \<Rightarrow> ContentAddress \<Rightarrow> Word list" where
  "ca_words E ca \<equiv> padded_words_from_bytes E (bytes_of_hash (hash_of ca))"

definition CONTRACTS_PREFIX :: Word where "CONTRACTS_PREFIX = 0"
definition PREDICATES_PREFIX :: Word where "PREDICATES_PREFIX = 1"
definition PROGRAMS_PREFIX :: Word where "PROGRAMS_PREFIX = 0"

definition contract_salt_key :: "('d, 'q) ext \<Rightarrow> ContentAddress \<Rightarrow> Key" where
  "contract_salt_key E ca = [CONTRACTS_PREFIX] @ ca_words E ca @ [0]"

definition contract_predicate_key :: "('d, 'q) ext \<Rightarrow> PredicateAddress \<Rightarrow> Key" where
  "contract_predicate_key E pa =
     [CONTRACTS_PREFIX] @ ca_words E (contract pa) @ ca_words E (predicate pa)"

definition predicate_key :: "('d, 'q) ext \<Rightarrow> ContentAddress \<Rightarrow> Key" where
  "predicate_key E ca = [PREDICATES_PREFIX] @ ca_words E ca"

definition program_key :: "('d, 'q) ext \<Rightarrow> ContentAddress \<Rightarrow> Key" where
  "program_key E ca = [PROGRAMS_PREFIX] @ ca_words E ca"

section \<open>Registration\<close>

text \<open>
  A registered predicate or program is stored as its length in bytes followed by its bytes
  in words.  \<open>Word::try_from(len)\<close> cannot fail, as a vector holds at most \<open>isize::MAX\<close> bytes.
\<close>

definition len_prefixed_words :: "('d, 'q) ext \<Rightarrow> u8 list \<Rightarrow> Value" where
  "len_prefixed_words E bs = word_of_nat (length bs) # padded_words_from_bytes E bs"

text \<open>One round of the loop over the predicates of a contract; \<open>encode\<close> may fail.\<close>

definition register_predicate_mutations ::
  "('d, 'q) ext \<Rightarrow> ContentAddress \<Rightarrow> Predicate \<Rightarrow> PredicateEncodeError + Mutation list" where
  "register_predicate_mutations E ca p =
     (let pa = \<lparr>contract = ca, predicate = content_addr_predicate E p\<rparr> in
      bind_result (predicate_encode E p) (\<lambda>bs.
        Ok [\<lparr>mut_key = contract_predicate_key E pa, mut_value = [1]\<rparr>,
            \<lparr>mut_key = predicate_key E (predicate pa), mut_value = len_prefixed_words E bs\<rparr>]))"

definition register_contract_mutations ::
  "('d, 'q) ext \<Rightarrow> Contract \<Rightarrow> PredicateEncodeError + Mutation list" where
  "register_contract_mutations E c =
     (let ca = content_addr_contract E c;
          salt_mut = \<lparr>mut_key = contract_salt_key E ca, mut_value = word_4_from_u8_32 E (salt c)\<rparr> in
      bind_result (collect_results (map (register_predicate_mutations E ca) (predicates c)))
        (\<lambda>ms. Ok (salt_mut # concat ms)))"

definition register_contract_solution ::
  "('d, 'q) ext \<Rightarrow> PredicateAddress \<Rightarrow> Contract \<Rightarrow> PredicateEncodeError + Solution" where
  "register_contract_solution E registry c =
     bind_result (register_contract_mutations E c) (\<lambda>ms.
       Ok \<lparr>predicate_to_solve = registry, predicate_data = [], state_mutations = ms\<rparr>)"

definition register_program_mutations :: "('d, 'q) ext \<Rightarrow> Program \<Rightarrow> Mutation list" where
  "register_program_mutations E prog =
     [\<lparr>mut_key = program_key E (content_addr_program E prog),
       mut_value = len_prefixed_words E (program_bytes prog)\<rparr>]"

definition register_program_solution ::
  "('d, 'q) ext \<Rightarrow> PredicateAddress \<Rightarrow> Program \<Rightarrow> Solution" where
  "register_program_solution E registry prog =
     \<lparr>predicate_to_solve = registry, predicate_data = [],
      state_mutations = register_program_mutations E prog\<rparr>"

definition block_state_mutations :: "Word \<Rightarrow> Word \<Rightarrow> Mutation list" where
  "block_state_mutations n secs =
     [\<lparr>mut_key = [0], mut_value = [n]\<rparr>, \<lparr>mut_key = [1], mut_value = [secs]\<rparr>]"

definition block_state_solution :: "PredicateAddress \<Rightarrow> Word \<Rightarrow> Word \<Rightarrow> Solution" where
  "block_state_solution pa n secs =
     \<lparr>predicate_to_solve = pa, predicate_data = [], state_mutations = block_state_mutations n secs\<rparr>"

section \<open>Words from bytes\<close>

text \<open>The bytes of the padded words start with the bytes they were made from.\<close>

definition bytes_of_words :: "('d, 'q) ext \<Rightarrow> Word list \<Rightarrow> u8 list" where
  "bytes_of_words E ws = concat (map (bytes_from_word E) ws)"

lemma take_bytes_of_padded_words:
  assumes "codec_ok E"
  shows "take (length bs) (bytes_of_words E (padded_words_from_bytes E bs)) = bs"
proof (induction "8 :: nat" bs rule: chunks.induct)
  case (1 bs)
  show ?case
  proof (cases "length bs \<le> 8")
    case True
    then show ?thesis
      using codec_ok_slice [OF assms True]
      by (cases "bs = []")
        (auto simp: bytes_of_words_def padded_words_from_bytes_def chunks.simps [of 8 bs]
           take_append)
  next
    case False
    let ?w = "bytes_from_word E (word_from_bytes_slice E (take 8 bs))"
    have w: "?w = take 8 bs"
      using codec_ok_slice [OF assms, of "take 8 bs"] codec_ok_length [OF assms] False by simp
    have "take (length bs - 8) (bytes_of_words E (padded_words_from_bytes E (drop 8 bs))) = drop 8 bs"
      using "1.hyps" False by (cases "bs = []") auto
    with False w show ?thesis
      by (simp add: bytes_of_words_def padded_words_from_bytes_def chunks.simps [of 8 bs]
          take_append codec_ok_length [OF assms])
  qed
qed

lemma padded_words_inject:
  assumes "codec_ok E" and "length as = length bs"
    and "padded_words_from_bytes E as = padded_words_from_bytes E bs"
  shows "as = bs"
  using assms take_bytes_of_padded_words [OF assms(1)] by metis

lemma length_padded_words: "length (padded_words_from_bytes E bs) = (length bs + 7) div 8"
proof (induction "8 :: nat" bs rule: chunks.induct)
  case (1 bs)
  show ?case
  proof (cases "bs = []")
    case False
    then have l: "length (chunks 8 bs) = Suc (length (chunks 8 (drop 8 bs)))"
      by (simp add: chunks.simps [of 8 bs])
    from False 1 have "length (chunks 8 (drop 8 bs)) = (length bs - 8 + 7) div 8"
      by (simp add: padded_words_from_bytes_def)
    moreover have "Suc ((n - 8 + 7) div 8) = (n + 7) div 8" if "0 < n" for n :: nat
      using that by (cases "n \<le> 8") (auto simp: le_div_geq)
    ultimately show ?thesis
      using l False by (simp add: padded_words_from_bytes_def)
  qed (simp add: padded_words_from_bytes_def)
qed

lemma length_ca_words [simp]: "length (ca_words E ca) = 4"
  by (simp add: length_padded_words)

lemma ca_words_inject: "codec_ok E \<Longrightarrow> ca_words E a = ca_words E b \<longleftrightarrow> a = b"
  using padded_words_inject [of E "bytes_of_hash (hash_of a)" "bytes_of_hash (hash_of b)"]
  by (auto intro: ContentAddress.expand dest: bytes_of_hash_inject)

section \<open>Registry keys are separate\<close>

lemma length_registry_keys [simp]:
  "length (contract_salt_key E ca) = 6"
  "length (contract_predicate_key E pa) = 9"
  "length (predicate_key E ca) = 5"
  "length (program_key E ca) = 5"
  by (simp_all add: contract_salt_key_def contract_predicate_key_def predicate_key_def
      program_key_def)

lemma registry_keys_disjoint [simp]:
  "contract_salt_key E ca \<noteq> contract_predicate_key E pa"
  "contract_salt_key E ca \<noteq> predicate_key E ca'"
  "contract_predicate_key E pa \<noteq> predicate_key E ca'"
  "contract_predicate_key E pa \<noteq> contract_salt_key E ca"
  "predicate_key E ca' \<noteq> contract_salt_key E ca"
  "predicate_key E ca' \<noteq> contract_predicate_key E pa"
  by (metis length_registry_keys numeral_eq_iff num.distinct num.inject)+

lemma contract_predicate_key_inject:
  assumes "codec_ok E"
  shows "contract_predicate_key E p = contract_predicate_key E q \<longleftrightarrow> p = q"
  by (auto simp: contract_predicate_key_def ca_words_inject [OF assms]
      intro: PredicateAddress.equality)

lemma predicate_key_inject:
  "codec_ok E \<Longrightarrow> predicate_key E a = predicate_key E b \<longleftrightarrow> a = b"
  by (simp add: predicate_key_def ca_words_inject)

lemma program_key_inject:
  "codec_ok E \<Longrightarrow> program_key E a = program_key E b \<longleftrightarrow> a = b"
  by (simp add: program_key_def ca_words_inject)

end
