(* ===== verification/Schema.thy ===== *)
theory Schema
  imports NodeTypes
begin

text \<open>
  The SQLite schema of \<open>node-db-sql/sql/create\<close>: one record per table row, the database as
  the record of its tables, the \<open>SELECT\<close> statements as a datatype with their bound
  parameters, the errors of \<open>rusqlite\<close>, and the invariant \<open>db_wf\<close> that the declared
  constraints (primary keys, \<open>UNIQUE\<close>, foreign keys) and the use of the tables maintain.

  A table is the list of its rows in the order of insertion.  An \<open>id\<close> column no statement
  reads is left out.  A column that holds a position in a vector (\<open>solution_set_index\<close>,
  \<open>solution_index\<close>, \<open>mutation_index\<close>, \<open>pred_data_index\<close>) is a natural number, as a vector
  has fewer than \<open>2^63\<close> elements and its positions convert to \<open>i64\<close> unchanged; row ids are
  natural numbers from 1 for the same reason.
\<close>

section \<open>Rows\<close>

type_synonym blob = "u8 list"

record block_row =
  blk_id :: nat
  blk_address :: ContentAddress
  blk_parent_id :: nat
  blk_number :: Word
  blk_secs :: Word
  blk_nanos :: Word

record solution_set_row =
  ss_id :: nat
  ss_addr :: ContentAddress

record block_solution_set_row =
  bss_block_id :: nat
  bss_set_id :: nat
  bss_index :: nat

record solution_row =
  sol_id :: nat
  sol_set_id :: nat
  sol_index :: nat
  sol_contract :: ContentAddress
  sol_predicate :: ContentAddress

record mutation_row =
  mu_solution_id :: nat
  mu_index :: nat
  mu_key :: blob
  mu_value :: blob

record pred_data_row =
  pd_solution_id :: nat
  pd_index :: nat
  pd_value :: blob

record finalized_block_row =
  fin_number :: Word
  fin_block_id :: nat

record failed_block_row =
  fail_block_id :: nat
  fail_set_id :: nat

record state_row =
  st_contract :: ContentAddress
  st_key :: blob
  st_value :: blob

record validation_progress_row =
  vp_id :: nat
  vp_block_id :: nat

record db =
  t_block :: "block_row list"
  t_solution_set :: "solution_set_row list"
  t_block_solution_set :: "block_solution_set_row list"
  t_solution :: "solution_row list"
  t_mutation :: "mutation_row list"
  t_pred_data :: "pred_data_row list"
  t_finalized_block :: "finalized_block_row list"
  t_failed_block :: "failed_block_row list"
  t_state :: "state_row list"
  t_validation_progress :: "validation_progress_row list"

text \<open>\<open>create_tables\<close> on a fresh connection.\<close>

definition create_tables :: db where
  "create_tables = \<lparr>t_block = [], t_solution_set = [], t_block_solution_set = [],
     t_solution = [], t_mutation = [], t_pred_data = [], t_finalized_block = [],
     t_failed_block = [], t_state = [], t_validation_progress = []\<rparr>"

section \<open>Statements and errors\<close>

text \<open>
  The constants of \<open>node_db_sql::query\<close> with their parameters, and the scalar subquery of
  \<open>QUERY_STATE_BLOCK_ADDRESS\<close> at the id of a block.
\<close>

datatype query =
    GET_BLOCK_HEADER ContentAddress
  | GET_BLOCK ContentAddress
  | GET_LATEST_BLOCK_NUMBER
  | GET_LATEST_FINALIZED_BLOCK_ADDRESS
  | GET_NEXT_BLOCK_ADDRESSES ContentAddress
  | GET_PARENT_BLOCK_ADDRESS ContentAddress
  | GET_SOLUTION ContentAddress
  | GET_SOLUTION_MUTATIONS ContentAddress nat
  | GET_SOLUTION_PRED_DATA ContentAddress nat
  | GET_STATE ContentAddress blob
  | GET_VALIDATION_PROGRESS
  | LIST_BLOCKS Word Word
  | LIST_BLOCKS_BY_TIME Word u32 Word u32 Word Word
  | LIST_FAILED_BLOCKS Word Word
  | LIST_UNCHECKED_BLOCKS Word Word
  | QUERY_STATE_AT_BLOCK_FINALIZED ContentAddress blob Word
  | QUERY_STATE_AT_SOLUTION_SET_FINALIZED ContentAddress blob Word Word
  | QUERY_STATE_BLOCK_ADDRESS ContentAddress blob ContentAddress "Word option"
  | QUERY_STATE_BLOCK_ADDRESS_VALUE ContentAddress blob nat "Word option"

type_synonym node_ext = "(db, query) ext"

text \<open>The errors of \<open>rusqlite\<close> and its \<open>ffi::ErrorCode\<close>, with the variants the source names.\<close>

datatype ErrorCode = DatabaseBusy | DatabaseLocked | ConstraintViolation | OtherCode nat

datatype rusqlite_error =
    SqliteFailure ErrorCode
  | ToSqlConversionFailure
  | InvalidColumnType
  | IntegralValueOutOfRange
  | OtherRusqlite nat

datatype QueryError = Rusqlite rusqlite_error | UnsupportedRange

section \<open>Rows by key\<close>

definition next_rowid :: "nat list \<Rightarrow> nat" where
  "next_rowid ids = Suc (foldr max ids 0)"

lemma next_rowid_greater: "i \<in> set ids \<Longrightarrow> i < next_rowid ids"
  by (induction ids) (auto simp: next_rowid_def)

lemma next_rowid_fresh [simp]: "next_rowid ids \<notin> set ids"
  using next_rowid_greater by blast

lemma next_rowid_fresh_image [simp]: "next_rowid (map f xs) \<notin> f ` set xs"
  by (metis next_rowid_fresh set_map)

lemma next_rowid_pos [simp]: "0 < next_rowid ids"
  by (simp add: next_rowid_def)

text \<open>\<open>INSERT OR IGNORE\<close> into a table with a \<open>UNIQUE\<close> key.\<close>

definition insert_or_ignore :: "('r \<Rightarrow> 'k) \<Rightarrow> 'r \<Rightarrow> 'r list \<Rightarrow> 'r list" where
  "insert_or_ignore k r rows = (if k r \<in> k ` set rows then rows else rows @ [r])"

lemma distinct_insert_or_ignore:
  "distinct (map k rows) \<Longrightarrow> distinct (map k (insert_or_ignore k r rows))"
  by (auto simp: insert_or_ignore_def)

lemma distinct_insert_or_ignore_other:
  "distinct (map k' rows) \<Longrightarrow> k' r \<notin> k' ` set rows \<Longrightarrow>
   distinct (map k' (insert_or_ignore k r rows))"
  by (auto simp: insert_or_ignore_def)

lemma set_insert_or_ignore:
  "set rows \<subseteq> set (insert_or_ignore k r rows)"
  "x \<in> set (insert_or_ignore k r rows) \<Longrightarrow> x \<in> set rows \<or> x = r"
  by (auto simp: insert_or_ignore_def split: if_splits)

lemma insert_or_ignore_fresh: "k r \<notin> k ` set rows \<Longrightarrow> insert_or_ignore k r rows = rows @ [r]"
  by (simp add: insert_or_ignore_def)

lemma insert_or_ignore_present: "k r \<in> k ` set rows \<Longrightarrow> insert_or_ignore k r rows = rows"
  by (simp add: insert_or_ignore_def)

lemma key_in_insert_or_ignore: "k r \<in> k ` set (insert_or_ignore k r rows)"
  by (auto simp: insert_or_ignore_def)

text \<open>The rows of a join partner that the key of a row selects.\<close>

definition block_of_address :: "db \<Rightarrow> ContentAddress \<Rightarrow> block_row option" where
  "block_of_address d a = first_row (filter (\<lambda>r. blk_address r = a) (t_block d))"

definition block_id_of :: "db \<Rightarrow> ContentAddress \<Rightarrow> nat option" where
  "block_id_of d a = map_option blk_id (block_of_address d a)"

definition set_id_of :: "db \<Rightarrow> ContentAddress \<Rightarrow> nat option" where
  "set_id_of d ca = map_option ss_id (first_row (filter (\<lambda>r. ss_addr r = ca) (t_solution_set d)))"

definition solution_id_of :: "db \<Rightarrow> ContentAddress \<Rightarrow> nat \<Rightarrow> nat option" where
  "solution_id_of d ca ix =
     first_row [sol_id s. s \<leftarrow> t_solution d, ss \<leftarrow> t_solution_set d,
       ss_id ss = sol_set_id s \<and> ss_addr ss = ca \<and> sol_index s = ix]"

section \<open>The invariant\<close>

text \<open>
  Each table satisfies its declared constraints: ids and unique columns do not repeat and
  references point to existing rows.  Beyond the schema, a finalized number is the number
  of its block, a parent is older than its block, there is at most one progress row, and stored seconds and nanoseconds are
  those of a \<open>Duration\<close>.
\<close>

definition block_table_wf :: "db \<Rightarrow> bool" where
  "block_table_wf d \<longleftrightarrow>
     distinct (map blk_id (t_block d)) \<and> distinct (map blk_address (t_block d)) \<and>
     (\<forall>r \<in> set (t_block d). blk_parent_id r < blk_id r \<and> 0 \<le> sint (blk_secs r) \<and>
        0 \<le> sint (blk_nanos r) \<and> sint (blk_nanos r) < 2 ^ 32)"

definition solution_tables_wf :: "db \<Rightarrow> bool" where
  "solution_tables_wf d \<longleftrightarrow>
     distinct (map ss_id (t_solution_set d)) \<and> distinct (map ss_addr (t_solution_set d)) \<and>
     distinct (map sol_id (t_solution d)) \<and>
     distinct (map (\<lambda>s. (sol_set_id s, sol_index s)) (t_solution d)) \<and>
     sol_set_id ` set (t_solution d) \<subseteq> ss_id ` set (t_solution_set d) \<and>
     mu_solution_id ` set (t_mutation d) \<subseteq> sol_id ` set (t_solution d) \<and>
     pd_solution_id ` set (t_pred_data d) \<subseteq> sol_id ` set (t_solution d)"

definition block_solution_set_wf :: "db \<Rightarrow> bool" where
  "block_solution_set_wf d \<longleftrightarrow>
     distinct (t_block_solution_set d) \<and>
     bss_block_id ` set (t_block_solution_set d) \<subseteq> blk_id ` set (t_block d) \<and>
     bss_set_id ` set (t_block_solution_set d) \<subseteq> ss_id ` set (t_solution_set d)"

definition finalized_wf :: "db \<Rightarrow> bool" where
  "finalized_wf d \<longleftrightarrow>
     distinct (map fin_number (t_finalized_block d)) \<and>
     distinct (map fin_block_id (t_finalized_block d)) \<and>
     (\<forall>f \<in> set (t_finalized_block d).
        \<exists>b \<in> set (t_block d). blk_id b = fin_block_id f \<and> blk_number b = fin_number f)"

definition failed_wf :: "db \<Rightarrow> bool" where
  "failed_wf d \<longleftrightarrow>
     distinct (t_failed_block d) \<and>
     fail_block_id ` set (t_failed_block d) \<subseteq> blk_id ` set (t_block d) \<and>
     fail_set_id ` set (t_failed_block d) \<subseteq> ss_id ` set (t_solution_set d)"

definition state_wf :: "db \<Rightarrow> bool" where
  "state_wf d \<longleftrightarrow> distinct (map (\<lambda>r. (st_contract r, st_key r)) (t_state d))"

definition progress_wf :: "db \<Rightarrow> bool" where
  "progress_wf d \<longleftrightarrow>
     (t_validation_progress d = [] \<or>
      (\<exists>b \<in> set (t_block d). t_validation_progress d = [\<lparr>vp_id = 1, vp_block_id = blk_id b\<rparr>]))"

definition db_wf :: "db \<Rightarrow> bool" where
  "db_wf d \<longleftrightarrow>
     block_table_wf d \<and> solution_tables_wf d \<and> block_solution_set_wf d \<and>
     finalized_wf d \<and> failed_wf d \<and> state_wf d \<and> progress_wf d"

lemmas db_wf_defs =
  db_wf_def block_table_wf_def solution_tables_wf_def block_solution_set_wf_def
  finalized_wf_def failed_wf_def state_wf_def progress_wf_def

lemma create_tables_wf [wf_rules]: "db_wf create_tables"
  by (simp add: db_wf_defs create_tables_def)

lemma db_wf_D:
  assumes "db_wf d"
  shows "block_table_wf d" "solution_tables_wf d" "block_solution_set_wf d" "finalized_wf d"
    "failed_wf d" "state_wf d" "progress_wf d"
  using assms by (simp_all add: db_wf_def)

text \<open>A part of the invariant depends on the tables it names only.\<close>

lemma block_table_wf_frame [simp]:
  "block_table_wf (d\<lparr>t_solution_set := x0\<rparr>) = block_table_wf d"
  "block_table_wf (d\<lparr>t_block_solution_set := x1\<rparr>) = block_table_wf d"
  "block_table_wf (d\<lparr>t_solution := x2\<rparr>) = block_table_wf d"
  "block_table_wf (d\<lparr>t_mutation := x3\<rparr>) = block_table_wf d"
  "block_table_wf (d\<lparr>t_pred_data := x4\<rparr>) = block_table_wf d"
  "block_table_wf (d\<lparr>t_finalized_block := x5\<rparr>) = block_table_wf d"
  "block_table_wf (d\<lparr>t_failed_block := x6\<rparr>) = block_table_wf d"
  "block_table_wf (d\<lparr>t_state := x7\<rparr>) = block_table_wf d"
  "block_table_wf (d\<lparr>t_validation_progress := x8\<rparr>) = block_table_wf d"
  by (simp_all add: block_table_wf_def)

lemma solution_tables_wf_frame [simp]:
  "solution_tables_wf (d\<lparr>t_block := x0\<rparr>) = solution_tables_wf d"
  "solution_tables_wf (d\<lparr>t_block_solution_set := x1\<rparr>) = solution_tables_wf d"
  "solution_tables_wf (d\<lparr>t_finalized_block := x2\<rparr>) = solution_tables_wf d"
  "solution_tables_wf (d\<lparr>t_failed_block := x3\<rparr>) = solution_tables_wf d"
  "solution_tables_wf (d\<lparr>t_state := x4\<rparr>) = solution_tables_wf d"
  "solution_tables_wf (d\<lparr>t_validation_progress := x5\<rparr>) = solution_tables_wf d"
  by (simp_all add: solution_tables_wf_def)

lemma block_solution_set_wf_frame [simp]:
  "block_solution_set_wf (d\<lparr>t_solution := x0\<rparr>) = block_solution_set_wf d"
  "block_solution_set_wf (d\<lparr>t_mutation := x1\<rparr>) = block_solution_set_wf d"
  "block_solution_set_wf (d\<lparr>t_pred_data := x2\<rparr>) = block_solution_set_wf d"
  "block_solution_set_wf (d\<lparr>t_finalized_block := x3\<rparr>) = block_solution_set_wf d"
  "block_solution_set_wf (d\<lparr>t_failed_block := x4\<rparr>) = block_solution_set_wf d"
  "block_solution_set_wf (d\<lparr>t_state := x5\<rparr>) = block_solution_set_wf d"
  "block_solution_set_wf (d\<lparr>t_validation_progress := x6\<rparr>) = block_solution_set_wf d"
  by (simp_all add: block_solution_set_wf_def)

lemma finalized_wf_frame [simp]:
  "finalized_wf (d\<lparr>t_solution_set := x0\<rparr>) = finalized_wf d"
  "finalized_wf (d\<lparr>t_block_solution_set := x1\<rparr>) = finalized_wf d"
  "finalized_wf (d\<lparr>t_solution := x2\<rparr>) = finalized_wf d"
  "finalized_wf (d\<lparr>t_mutation := x3\<rparr>) = finalized_wf d"
  "finalized_wf (d\<lparr>t_pred_data := x4\<rparr>) = finalized_wf d"
  "finalized_wf (d\<lparr>t_failed_block := x5\<rparr>) = finalized_wf d"
  "finalized_wf (d\<lparr>t_state := x6\<rparr>) = finalized_wf d"
  "finalized_wf (d\<lparr>t_validation_progress := x7\<rparr>) = finalized_wf d"
  by (simp_all add: finalized_wf_def)

lemma failed_wf_frame [simp]:
  "failed_wf (d\<lparr>t_block_solution_set := x0\<rparr>) = failed_wf d"
  "failed_wf (d\<lparr>t_solution := x1\<rparr>) = failed_wf d"
  "failed_wf (d\<lparr>t_mutation := x2\<rparr>) = failed_wf d"
  "failed_wf (d\<lparr>t_pred_data := x3\<rparr>) = failed_wf d"
  "failed_wf (d\<lparr>t_finalized_block := x4\<rparr>) = failed_wf d"
  "failed_wf (d\<lparr>t_state := x5\<rparr>) = failed_wf d"
  "failed_wf (d\<lparr>t_validation_progress := x6\<rparr>) = failed_wf d"
  by (simp_all add: failed_wf_def)

lemma state_wf_frame [simp]:
  "state_wf (d\<lparr>t_block := x0\<rparr>) = state_wf d"
  "state_wf (d\<lparr>t_solution_set := x1\<rparr>) = state_wf d"
  "state_wf (d\<lparr>t_block_solution_set := x2\<rparr>) = state_wf d"
  "state_wf (d\<lparr>t_solution := x3\<rparr>) = state_wf d"
  "state_wf (d\<lparr>t_mutation := x4\<rparr>) = state_wf d"
  "state_wf (d\<lparr>t_pred_data := x5\<rparr>) = state_wf d"
  "state_wf (d\<lparr>t_finalized_block := x6\<rparr>) = state_wf d"
  "state_wf (d\<lparr>t_failed_block := x7\<rparr>) = state_wf d"
  "state_wf (d\<lparr>t_validation_progress := x8\<rparr>) = state_wf d"
  by (simp_all add: state_wf_def)

lemma progress_wf_frame [simp]:
  "progress_wf (d\<lparr>t_solution_set := x0\<rparr>) = progress_wf d"
  "progress_wf (d\<lparr>t_block_solution_set := x1\<rparr>) = progress_wf d"
  "progress_wf (d\<lparr>t_solution := x2\<rparr>) = progress_wf d"
  "progress_wf (d\<lparr>t_mutation := x3\<rparr>) = progress_wf d"
  "progress_wf (d\<lparr>t_pred_data := x4\<rparr>) = progress_wf d"
  "progress_wf (d\<lparr>t_finalized_block := x5\<rparr>) = progress_wf d"
  "progress_wf (d\<lparr>t_failed_block := x6\<rparr>) = progress_wf d"
  "progress_wf (d\<lparr>t_state := x7\<rparr>) = progress_wf d"
  by (simp_all add: progress_wf_def)

text \<open>Rows added to a table that others refer to keep those references valid.\<close>

lemma db_wf_grow_block:
  assumes "db_wf d" and t: "block_table_wf (d\<lparr>t_block := t\<rparr>)" and sub: "set (t_block d) \<subseteq> set t"
  shows "db_wf (d\<lparr>t_block := t\<rparr>)"
proof -
  note wf = db_wf_D [OF assms(1)]
  have "block_solution_set_wf (d\<lparr>t_block := t\<rparr>)" "failed_wf (d\<lparr>t_block := t\<rparr>)"
    using wf(3,5) order_trans [OF _ image_mono [OF sub, of blk_id]]
    by (simp_all add: block_solution_set_wf_def failed_wf_def)
  moreover have "finalized_wf (d\<lparr>t_block := t\<rparr>)" "progress_wf (d\<lparr>t_block := t\<rparr>)"
    using wf(4,7) sub by (auto simp: finalized_wf_def progress_wf_def) (meson subsetD)+
  ultimately show ?thesis
    using wf t by (simp add: db_wf_def)
qed

lemma db_wf_grow_solution_set:
  assumes "db_wf d" and sub: "set (t_solution_set d) \<subseteq> set t"
    and "distinct (map ss_id t)" and "distinct (map ss_addr t)"
  shows "db_wf (d\<lparr>t_solution_set := t\<rparr>)"
proof -
  note wf = db_wf_D [OF assms(1)]
  have "solution_tables_wf (d\<lparr>t_solution_set := t\<rparr>)"
    "block_solution_set_wf (d\<lparr>t_solution_set := t\<rparr>)" "failed_wf (d\<lparr>t_solution_set := t\<rparr>)"
    using wf(2,3,5) assms(3,4) order_trans [OF _ image_mono [OF sub, of ss_id]]
    by (simp_all add: block_solution_set_wf_def failed_wf_def solution_tables_wf_def)
  then show ?thesis
    using wf by (simp add: db_wf_def)
qed

lemma db_wf_grow_solution:
  assumes "db_wf d" and sub: "set (t_solution d) \<subseteq> set t"
    and "distinct (map sol_id t)" and "distinct (map (\<lambda>s. (sol_set_id s, sol_index s)) t)"
    and "sol_set_id ` set t \<subseteq> ss_id ` set (t_solution_set d)"
  shows "db_wf (d\<lparr>t_solution := t\<rparr>)"
proof -
  note wf = db_wf_D [OF assms(1)]
  have "solution_tables_wf (d\<lparr>t_solution := t\<rparr>)"
    using wf(2) assms(3-5) order_trans [OF _ image_mono [OF sub, of sol_id]]
    by (simp add: solution_tables_wf_def)
  then show ?thesis
    using wf by (simp add: db_wf_def)
qed

section \<open>Selection by unique key\<close>

lemma block_of_address_Some:
  assumes "block_table_wf d"
  shows "block_of_address d a = Some r \<longleftrightarrow> r \<in> set (t_block d) \<and> blk_address r = a"
proof
  assume "block_of_address d a = Some r"
  then show "r \<in> set (t_block d) \<and> blk_address r = a"
    by (auto simp: block_of_address_def dest: first_row_SomeD)
next
  assume "r \<in> set (t_block d) \<and> blk_address r = a"
  with assms show "block_of_address d a = Some r"
    using first_row_filter_unique [of blk_address "t_block d" r]
    by (auto simp: block_of_address_def block_table_wf_def)
qed

lemma block_of_address_None:
  "block_of_address d a = None \<longleftrightarrow> a \<notin> blk_address ` set (t_block d)"
  by (auto simp: block_of_address_def filter_empty_conv)

lemma block_id_of_Some:
  assumes "block_table_wf d"
  shows "block_id_of d a = Some i \<longleftrightarrow> (\<exists>r \<in> set (t_block d). blk_address r = a \<and> blk_id r = i)"
  using block_of_address_Some [OF assms] by (auto simp: block_id_of_def)

lemma block_id_of_None: "block_id_of d a = None \<longleftrightarrow> a \<notin> blk_address ` set (t_block d)"
  by (simp add: block_id_of_def block_of_address_None)

lemma set_id_of_Some:
  assumes "solution_tables_wf d"
  shows "set_id_of d ca = Some i \<longleftrightarrow> (\<exists>r \<in> set (t_solution_set d). ss_addr r = ca \<and> ss_id r = i)"
proof
  assume "set_id_of d ca = Some i"
  then show "\<exists>r \<in> set (t_solution_set d). ss_addr r = ca \<and> ss_id r = i"
    by (fastforce simp: set_id_of_def dest: first_row_SomeD)
next
  assume "\<exists>r \<in> set (t_solution_set d). ss_addr r = ca \<and> ss_id r = i"
  with assms show "set_id_of d ca = Some i"
    using first_row_filter_unique [of ss_addr "t_solution_set d"]
    by (auto simp: set_id_of_def solution_tables_wf_def)
qed

lemma set_id_of_None: "set_id_of d ca = None \<longleftrightarrow> ca \<notin> ss_addr ` set (t_solution_set d)"
  by (auto simp: set_id_of_def filter_empty_conv)

lemma set_id_of_inject:
  assumes "solution_tables_wf d" "set_id_of d ca = Some i" "set_id_of d ca' = Some i"
  shows "ca = ca'"
  using assms distinct_map_inject [of ss_id "t_solution_set d"]
  by (auto simp: set_id_of_Some [OF assms(1)] solution_tables_wf_def)

lemma block_id_of_inject:
  assumes "block_table_wf d" "block_id_of d a = Some i" "block_id_of d a' = Some i"
  shows "a = a'"
  using assms distinct_map_inject [of blk_id "t_block d"]
  by (auto simp: block_id_of_Some [OF assms(1)] block_table_wf_def)

text \<open>Joining with \<open>solution_set\<close> on an address is comparing with the id it selects.\<close>

lemma set_join:
  assumes "solution_tables_wf d" and "set_id_of d ca = Some k"
  shows "(\<exists>ss \<in> set (t_solution_set d). ss_id ss = j \<and> ss_addr ss = ca) \<longleftrightarrow> j = k"
  using set_id_of_Some [OF assms(1), of ca j] assms(2) by auto

lemma solution_id_of_Some:
  assumes "solution_tables_wf d" and "set_id_of d ca = Some k"
  shows "solution_id_of d ca ix = Some i \<longleftrightarrow>
    (\<exists>s \<in> set (t_solution d). sol_set_id s = k \<and> sol_index s = ix \<and> sol_id s = i)"
    (is "?l = Some i \<longleftrightarrow> ?r")
proof -
  let ?xs = "[sol_id s. s \<leftarrow> t_solution d, ss \<leftarrow> t_solution_set d,
       ss_id ss = sol_set_id s \<and> ss_addr ss = ca \<and> sol_index s = ix]"
  have mem: "j \<in> set ?xs \<longleftrightarrow>
      (\<exists>s \<in> set (t_solution d). sol_set_id s = k \<and> sol_index s = ix \<and> sol_id s = j)" for j
  proof -
    have "j \<in> set ?xs \<longleftrightarrow>
        (\<exists>s \<in> set (t_solution d). sol_id s = j \<and> sol_index s = ix \<and>
           (\<exists>ss \<in> set (t_solution_set d). ss_id ss = sol_set_id s \<and> ss_addr ss = ca))"
      by auto
    then show ?thesis
      by (auto simp: set_join [OF assms])
  qed
  have one: "j = j'" if "j \<in> set ?xs" "j' \<in> set ?xs" for j j'
    using that [unfolded mem] assms(1)
      distinct_map_inject [of "\<lambda>s. (sol_set_id s, sol_index s)" "t_solution d"]
    by (auto simp: solution_tables_wf_def)
  show ?thesis
  proof
    assume "?l = Some i"
    then show ?r
      unfolding solution_id_of_def using mem by (blast dest: first_row_SomeD)
  next
    assume ?r
    then have "i \<in> set ?xs" by (simp only: mem)
    with one have "set ?xs = {i}" by blast
    then show "?l = Some i"
      unfolding solution_id_of_def by (rule first_row_single)
  qed
qed

end
