(* ===== verification/SqlWrite.thy ===== *)
theory SqlWrite
  imports Schema
begin

text \<open>
  The statements of \<open>node-db-sql/sql/insert\<close> and \<open>sql/update\<close> as functions on the
  database, and the lemma that each keeps \<open>db_wf\<close>.  \<open>INSERT OR IGNORE\<close> drops a row that
  violates a \<open>UNIQUE\<close> or \<open>NOT NULL\<close> constraint; \<open>OR ABORT\<close> fails; \<open>OR REPLACE\<close> with a \<open>NULL\<close>
  in a \<open>NOT NULL\<close> column without default fails as \<open>OR ABORT\<close> does.
\<close>

section \<open>Insertion of blocks\<close>

text \<open>\<open>insert/block.sql\<close>: a parent that is not in the table is recorded as row 0.\<close>

definition INSERT_BLOCK ::
  "ContentAddress \<Rightarrow> ContentAddress \<Rightarrow> Word \<Rightarrow> Word \<Rightarrow> Word \<Rightarrow> db \<Rightarrow> db" where [stmt_defs]:
  "INSERT_BLOCK a parent n secs nanos d =
     d\<lparr>t_block := insert_or_ignore blk_address
         \<lparr>blk_id = next_rowid (map blk_id (t_block d)), blk_address = a,
          blk_parent_id = (case block_id_of d parent of Some i \<Rightarrow> i | None \<Rightarrow> 0),
          blk_number = n, blk_secs = secs, blk_nanos = nanos\<rparr> (t_block d)\<rparr>"

text \<open>\<open>insert/solution_set.sql\<close>\<close>

definition INSERT_SOLUTION_SET :: "ContentAddress \<Rightarrow> db \<Rightarrow> db" where [stmt_defs]:
  "INSERT_SOLUTION_SET ca d =
     d\<lparr>t_solution_set := insert_or_ignore ss_addr
         \<lparr>ss_id = next_rowid (map ss_id (t_solution_set d)), ss_addr = ca\<rparr> (t_solution_set d)\<rparr>"

text \<open>
  \<open>insert/block_solution_set.sql\<close>: the \<open>UNIQUE\<close> key is the whole row; a \<open>NULL\<close> id violates
  \<open>NOT NULL\<close>.
\<close>

definition INSERT_BLOCK_SOLUTION_SET ::
  "ContentAddress \<Rightarrow> ContentAddress \<Rightarrow> nat \<Rightarrow> db \<Rightarrow> db" where [stmt_defs]:
  "INSERT_BLOCK_SOLUTION_SET a ca ix d =
     (case (block_id_of d a, set_id_of d ca) of
        (Some i, Some j) \<Rightarrow>
          d\<lparr>t_block_solution_set := insert_or_ignore (\<lambda>r. r)
              \<lparr>bss_block_id = i, bss_set_id = j, bss_index = ix\<rparr> (t_block_solution_set d)\<rparr>
      | _ \<Rightarrow> d)"

text \<open>\<open>insert/solution.sql\<close>\<close>

definition INSERT_SOLUTION ::
  "ContentAddress \<Rightarrow> nat \<Rightarrow> ContentAddress \<Rightarrow> ContentAddress \<Rightarrow> db \<Rightarrow> db" where [stmt_defs]:
  "INSERT_SOLUTION ca ix c p d =
     (case set_id_of d ca of
        None \<Rightarrow> d
      | Some j \<Rightarrow>
          d\<lparr>t_solution := insert_or_ignore (\<lambda>s. (sol_set_id s, sol_index s))
              \<lparr>sol_id = next_rowid (map sol_id (t_solution d)), sol_set_id = j, sol_index = ix,
               sol_contract = c, sol_predicate = p\<rparr> (t_solution d)\<rparr>)"

text \<open>
  \<open>insert/mutation.sql\<close> and \<open>insert/pred_data.sql\<close>: neither table has a \<open>UNIQUE\<close> key, so
  \<open>OR IGNORE\<close> only drops a row whose solution does not exist.
\<close>

definition INSERT_MUTATION ::
  "ContentAddress \<Rightarrow> nat \<Rightarrow> nat \<Rightarrow> blob \<Rightarrow> blob \<Rightarrow> db \<Rightarrow> db" where [stmt_defs]:
  "INSERT_MUTATION ca ix mix k v d =
     (case solution_id_of d ca ix of
        None \<Rightarrow> d
      | Some i \<Rightarrow> d\<lparr>t_mutation := t_mutation d @
          [\<lparr>mu_solution_id = i, mu_index = mix, mu_key = k, mu_value = v\<rparr>]\<rparr>)"

definition INSERT_PRED_DATA ::
  "ContentAddress \<Rightarrow> nat \<Rightarrow> nat \<Rightarrow> blob \<Rightarrow> db \<Rightarrow> db" where [stmt_defs]:
  "INSERT_PRED_DATA ca ix pix v d =
     (case solution_id_of d ca ix of
        None \<Rightarrow> d
      | Some i \<Rightarrow> d\<lparr>t_pred_data := t_pred_data d @
          [\<lparr>pd_solution_id = i, pd_index = pix, pd_value = v\<rparr>]\<rparr>)"

section \<open>Finalization, failure, progress and state\<close>

text \<open>
  \<open>insert/finalize_block.sql\<close>: selects no row, and so inserts none, when the address is not
  in the table; aborts when the number or the block is finalized already.
\<close>

definition FINALIZE_BLOCK :: "ContentAddress \<Rightarrow> db \<Rightarrow> rusqlite_error + db" where [stmt_defs]:
  "FINALIZE_BLOCK a d =
     (case block_of_address d a of
        None \<Rightarrow> Ok d
      | Some r \<Rightarrow>
          if blk_number r \<in> fin_number ` set (t_finalized_block d) \<or>
             blk_id r \<in> fin_block_id ` set (t_finalized_block d)
          then Err (SqliteFailure ConstraintViolation)
          else Ok (d\<lparr>t_finalized_block := t_finalized_block d @
                     [\<lparr>fin_number = blk_number r, fin_block_id = blk_id r\<rparr>]\<rparr>))"

text \<open>\<open>insert/failed_block.sql\<close>\<close>

definition INSERT_FAILED_BLOCK :: "ContentAddress \<Rightarrow> ContentAddress \<Rightarrow> db \<Rightarrow> db" where [stmt_defs]:
  "INSERT_FAILED_BLOCK a ca d =
     (case (block_id_of d a, set_id_of d ca) of
        (Some i, Some j) \<Rightarrow>
          d\<lparr>t_failed_block := insert_or_ignore (\<lambda>r. r)
              \<lparr>fail_block_id = i, fail_set_id = j\<rparr> (t_failed_block d)\<rparr>
      | _ \<Rightarrow> d)"

text \<open>\<open>insert/validation_progress.sql\<close>: the row with id 1 is replaced.\<close>

definition INSERT_VALIDATION_PROGRESS :: "ContentAddress \<Rightarrow> db \<Rightarrow> rusqlite_error + db" where [stmt_defs]:
  "INSERT_VALIDATION_PROGRESS a d =
     (case block_id_of d a of
        None \<Rightarrow> Err (SqliteFailure ConstraintViolation)
      | Some i \<Rightarrow> Ok (d\<lparr>t_validation_progress :=
          filter (\<lambda>r. vp_id r \<noteq> 1) (t_validation_progress d) @ [\<lparr>vp_id = 1, vp_block_id = i\<rparr>]\<rparr>))"

text \<open>\<open>update/state.sql\<close> and \<open>update/delete_state.sql\<close>\<close>

definition UPDATE_STATE :: "ContentAddress \<Rightarrow> blob \<Rightarrow> blob \<Rightarrow> db \<Rightarrow> db" where [stmt_defs]:
  "UPDATE_STATE c k v d =
     d\<lparr>t_state :=
        (if (c, k) \<in> (\<lambda>r. (st_contract r, st_key r)) ` set (t_state d)
         then map (\<lambda>r. if st_contract r = c \<and> st_key r = k then r\<lparr>st_value := v\<rparr> else r) (t_state d)
         else t_state d @ [\<lparr>st_contract = c, st_key = k, st_value = v\<rparr>])\<rparr>"

definition DELETE_STATE :: "ContentAddress \<Rightarrow> blob \<Rightarrow> db \<Rightarrow> db" where [stmt_defs]:
  "DELETE_STATE c k d =
     d\<lparr>t_state := filter (\<lambda>r. \<not> (st_contract r = c \<and> st_key r = k)) (t_state d)\<rparr>"

section \<open>Preservation of the invariant\<close>

lemma insert_or_ignore_image:
  "f ` set (insert_or_ignore k r rows) \<subseteq> insert (f r) (f ` set rows)"
  "f ` set rows \<subseteq> f ` set (insert_or_ignore k r rows)"
  by (auto simp: insert_or_ignore_def)

lemma INSERT_BLOCK_wf [wf_rules]:
  assumes "db_wf d" and "0 \<le> sint secs" and "0 \<le> sint nanos" and "sint nanos < 2 ^ 32"
  shows "db_wf (INSERT_BLOCK a p n secs nanos d)"
proof -
  let ?r = "\<lparr>blk_id = next_rowid (map blk_id (t_block d)), blk_address = a,
      blk_parent_id = (case block_id_of d p of Some i \<Rightarrow> i | None \<Rightarrow> 0),
      blk_number = n, blk_secs = secs, blk_nanos = nanos\<rparr>"
  let ?t = "insert_or_ignore blk_address ?r (t_block d)"
  have sub: "set (t_block d) \<subseteq> set ?t" and mem: "set ?t \<subseteq> insert ?r (set (t_block d))"
    using set_insert_or_ignore [where rows = "t_block d" and k = blk_address and r = ?r] by auto
  have wf: "block_table_wf d"
    using assms(1) by (rule db_wf_D)
  have "distinct (map blk_id ?t)" "distinct (map blk_address ?t)"
    using wf distinct_insert_or_ignore [of blk_address "t_block d" ?r]
      distinct_insert_or_ignore_other [of blk_id "t_block d" ?r blk_address]
    by (simp_all add: block_table_wf_def)
  moreover
  have "i < next_rowid (map blk_id (t_block d))" if "block_id_of d p = Some i" for i
    using that wf by (auto simp: block_id_of_Some intro!: next_rowid_greater)
  then have "\<forall>r \<in> insert ?r (set (t_block d)). blk_parent_id r < blk_id r \<and> 0 \<le> sint (blk_secs r) \<and>
      0 \<le> sint (blk_nanos r) \<and> sint (blk_nanos r) < 2 ^ 32"
    using wf assms(2-4) by (simp add: block_table_wf_def split: option.split)
  with mem have "\<forall>r \<in> set ?t. blk_parent_id r < blk_id r \<and> 0 \<le> sint (blk_secs r) \<and>
      0 \<le> sint (blk_nanos r) \<and> sint (blk_nanos r) < 2 ^ 32"
    by (meson subsetD)
  ultimately have "block_table_wf (d\<lparr>t_block := ?t\<rparr>)"
    by (simp add: block_table_wf_def)
  then show ?thesis
    unfolding INSERT_BLOCK_def by (rule db_wf_grow_block [OF assms(1) _ sub])
qed

lemma INSERT_SOLUTION_SET_wf [wf_rules]:
  assumes "db_wf d"
  shows "db_wf (INSERT_SOLUTION_SET ca d)"
  unfolding INSERT_SOLUTION_SET_def
  using db_wf_D(2) [OF assms]
  by (intro db_wf_grow_solution_set assms set_insert_or_ignore distinct_insert_or_ignore
      distinct_insert_or_ignore_other) (simp_all add: solution_tables_wf_def)

lemma INSERT_BLOCK_SOLUTION_SET_wf [wf_rules]:
  assumes "db_wf d"
  shows "db_wf (INSERT_BLOCK_SOLUTION_SET a ca ix d)"
proof (cases "\<exists>i j. block_id_of d a = Some i \<and> set_id_of d ca = Some j")
  case True
  then obtain i j where ij: "block_id_of d a = Some i" "set_id_of d ca = Some j" by blast
  note wf = db_wf_D [OF assms]
  from ij wf have "i \<in> blk_id ` set (t_block d)" "j \<in> ss_id ` set (t_solution_set d)"
    by (auto simp: block_id_of_Some set_id_of_Some)
  with wf ij show ?thesis
    by (simp add: INSERT_BLOCK_SOLUTION_SET_def db_wf_def)
      (auto simp: insert_or_ignore_def block_solution_set_wf_def)
qed (auto simp: INSERT_BLOCK_SOLUTION_SET_def assms split: option.splits)

lemma INSERT_SOLUTION_wf [wf_rules]:
  assumes "db_wf d"
  shows "db_wf (INSERT_SOLUTION ca ix c p d)"
proof (cases "set_id_of d ca")
  case (Some j)
  let ?r = "\<lparr>sol_id = next_rowid (map sol_id (t_solution d)), sol_set_id = j, sol_index = ix,
      sol_contract = c, sol_predicate = p\<rparr>"
  let ?k = "\<lambda>s. (sol_set_id s, sol_index s)"
  let ?t = "insert_or_ignore ?k ?r (t_solution d)"
  note wf = db_wf_D(2) [OF assms]
  have "distinct (map sol_id ?t)" "distinct (map ?k ?t)"
    using wf distinct_insert_or_ignore [of ?k "t_solution d" ?r]
      distinct_insert_or_ignore_other [of sol_id "t_solution d" ?r ?k]
    by (simp_all add: solution_tables_wf_def)
  moreover have "j \<in> ss_id ` set (t_solution_set d)"
    using Some wf by (auto simp: set_id_of_Some)
  then have "sol_set_id ` set ?t \<subseteq> ss_id ` set (t_solution_set d)"
    using wf insert_or_ignore_image(1) [of sol_set_id ?k ?r "t_solution d"]
    unfolding solution_tables_wf_def by (elim conjE subset_trans) simp
  ultimately have "db_wf (d\<lparr>t_solution := ?t\<rparr>)"
    by (intro db_wf_grow_solution [OF assms] set_insert_or_ignore)
  with Some show ?thesis
    by (simp add: INSERT_SOLUTION_def)
qed (simp add: INSERT_SOLUTION_def assms)

lemma solution_id_of_in: "solution_id_of d ca ix = Some i \<Longrightarrow> i \<in> sol_id ` set (t_solution d)"
  by (auto simp: solution_id_of_def dest!: first_row_SomeD)

lemma INSERT_MUTATION_wf [wf_rules]:
  assumes "db_wf d"
  shows "db_wf (INSERT_MUTATION ca ix mix k v d)"
proof (cases "solution_id_of d ca ix")
  case (Some i)
  with assms solution_id_of_in [OF Some] show ?thesis
    by (simp add: INSERT_MUTATION_def db_wf_def) (simp add: solution_tables_wf_def)
qed (simp add: INSERT_MUTATION_def assms)

lemma INSERT_PRED_DATA_wf [wf_rules]:
  assumes "db_wf d"
  shows "db_wf (INSERT_PRED_DATA ca ix pix v d)"
proof (cases "solution_id_of d ca ix")
  case (Some i)
  with assms solution_id_of_in [OF Some] show ?thesis
    by (simp add: INSERT_PRED_DATA_def db_wf_def) (simp add: solution_tables_wf_def)
qed (simp add: INSERT_PRED_DATA_def assms)

lemma FINALIZE_BLOCK_Ok_cases:
  assumes "FINALIZE_BLOCK a d = Ok d'"
  obtains (missing) "block_of_address d a = None" "d' = d"
  | (inserted) r where "block_of_address d a = Some r"
      "blk_number r \<notin> fin_number ` set (t_finalized_block d)"
      "blk_id r \<notin> fin_block_id ` set (t_finalized_block d)"
      "d' = d\<lparr>t_finalized_block := t_finalized_block d @
              [\<lparr>fin_number = blk_number r, fin_block_id = blk_id r\<rparr>]\<rparr>"
  using assms unfolding FINALIZE_BLOCK_def by (auto split: option.splits if_splits)

lemma FINALIZE_BLOCK_wf [wf_rules]:
  assumes "db_wf d" and "FINALIZE_BLOCK a d = Ok d'"
  shows "db_wf d'"
  using assms(2)
proof (cases rule: FINALIZE_BLOCK_Ok_cases)
  case (inserted r)
  note wf = db_wf_D [OF assms(1)]
  from inserted(1) wf(1) have "r \<in> set (t_block d)"
    by (simp add: block_of_address_Some)
  with inserted(2,3) wf(4) have "finalized_wf d'"
    unfolding inserted(4) finalized_wf_def by auto
  with wf show ?thesis
    by (simp add: inserted(4) db_wf_def)
qed (simp add: assms(1))

lemma INSERT_FAILED_BLOCK_wf [wf_rules]:
  assumes "db_wf d"
  shows "db_wf (INSERT_FAILED_BLOCK a ca d)"
proof (cases "\<exists>i j. block_id_of d a = Some i \<and> set_id_of d ca = Some j")
  case True
  then obtain i j where ij: "block_id_of d a = Some i" "set_id_of d ca = Some j" by blast
  note wf = db_wf_D [OF assms]
  from ij wf have "i \<in> blk_id ` set (t_block d)" "j \<in> ss_id ` set (t_solution_set d)"
    by (auto simp: block_id_of_Some set_id_of_Some)
  with wf ij show ?thesis
    by (simp add: INSERT_FAILED_BLOCK_def db_wf_def)
      (auto simp: insert_or_ignore_def failed_wf_def)
qed (auto simp: INSERT_FAILED_BLOCK_def assms split: option.splits)

lemma INSERT_VALIDATION_PROGRESS_Ok:
  assumes "db_wf d" and "INSERT_VALIDATION_PROGRESS a d = Ok d'"
  obtains b where "b \<in> set (t_block d)" "blk_address b = a"
    "d' = d\<lparr>t_validation_progress := [\<lparr>vp_id = 1, vp_block_id = blk_id b\<rparr>]\<rparr>"
proof -
  from assms(2) obtain i where i: "block_id_of d a = Some i"
    by (auto simp: INSERT_VALIDATION_PROGRESS_def split: option.splits)
  with assms(1) obtain b where b: "b \<in> set (t_block d)" "blk_address b = a" "i = blk_id b"
    by (auto simp: block_id_of_Some db_wf_D)
  have "filter (\<lambda>r. vp_id r \<noteq> 1) (t_validation_progress d) = []"
    using db_wf_D(7) [OF assms(1)] by (auto simp: progress_wf_def)
  with assms(2) i b show ?thesis
    by (intro that [of b]) (auto simp: INSERT_VALIDATION_PROGRESS_def)
qed

lemma INSERT_VALIDATION_PROGRESS_wf [wf_rules]:
  assumes "db_wf d" and "INSERT_VALIDATION_PROGRESS a d = Ok d'"
  shows "db_wf d'"
  using assms
proof (rule INSERT_VALIDATION_PROGRESS_Ok)
  fix b
  assume "b \<in> set (t_block d)"
    and d': "d' = d\<lparr>t_validation_progress := [\<lparr>vp_id = 1, vp_block_id = blk_id b\<rparr>]\<rparr>"
  then have "progress_wf d'" by (auto simp: progress_wf_def)
  with assms(1) show ?thesis
    by (simp add: d' db_wf_def)
qed

lemma UPDATE_STATE_keys:
  "map (\<lambda>r. (st_contract r, st_key r))
     (map (\<lambda>r. if st_contract r = c \<and> st_key r = k then r\<lparr>st_value := v\<rparr> else r) rows) =
   map (\<lambda>r. (st_contract r, st_key r)) rows"
  by (induction rows) auto

lemma UPDATE_STATE_wf [wf_rules]:
  assumes "db_wf d"
  shows "db_wf (UPDATE_STATE c k v d)"
proof -
  have "state_wf (UPDATE_STATE c k v d)"
    using db_wf_D(6) [OF assms]
    by (auto simp: state_wf_def UPDATE_STATE_def UPDATE_STATE_keys simp del: map_map)
  with assms show ?thesis
    by (simp add: UPDATE_STATE_def db_wf_def)
qed

lemma DELETE_STATE_wf [wf_rules]:
  assumes "db_wf d"
  shows "db_wf (DELETE_STATE c k d)"
proof -
  have "state_wf (DELETE_STATE c k d)"
    using db_wf_D(6) [OF assms] by (simp add: state_wf_def DELETE_STATE_def distinct_map_filter)
  with assms show ?thesis
    by (simp add: DELETE_STATE_def db_wf_def)
qed

end
