(* ===== verification/SqlQuery.thy ===== *)
theory SqlQuery
  imports SqlWrite
begin

text \<open>
  The \<open>SELECT\<close> statements of \<open>node-db-sql/sql/query\<close>: each \<open>run_\<close> function gives the rows a
  statement returns, in order.  A join is a comprehension over the joined tables; the rows
  it lists reach the program in the order \<open>scan\<close> of the database engine, then sorted by the
  statement's \<open>ORDER BY\<close> (\<open>sort_key\<close> keeps the scan order of rows it does not separate), then
  cut by its \<open>LIMIT\<close>.  The address query, a recursive statement, is in \<open>QueryRange\<close>.
\<close>

definition order_by :: "node_ext \<Rightarrow> db \<Rightarrow> query \<Rightarrow> ('r \<Rightarrow> 'k::linorder) \<Rightarrow> 'r list \<Rightarrow> 'r list" where
  "order_by E d q k rows = sort_key k (scan E d q rows)"

lemma set_order_by: "plan_ok E \<Longrightarrow> set (order_by E d q k rows) = set rows"
  by (simp add: order_by_def set_scan)

lemma mset_order_by: "plan_ok E \<Longrightarrow> mset (order_by E d q k rows) = mset rows"
  by (simp add: order_by_def mset_scan)

lemma sorted_order_by: "sorted (map k (order_by E d q k rows))"
  by (simp add: order_by_def)

lemma order_by_inj:
  "plan_ok E \<Longrightarrow> inj_on k (set rows) \<Longrightarrow> order_by E d q k rows = sort_key k rows"
  by (simp add: order_by_def sort_key_scan)

text \<open>The first row after sorting is a row with the least key.\<close>

lemma first_row_order_by:
  assumes "plan_ok E" and "first_row (order_by E d q k rows) = Some r"
  shows "r \<in> set rows" and "\<And>x. x \<in> set rows \<Longrightarrow> k r \<le> k x"
proof -
  obtain rs where rs: "order_by E d q k rows = r # rs"
    using assms(2) by (cases "order_by E d q k rows") auto
  then show "r \<in> set rows"
    using set_order_by [OF assms(1), of d q k rows] by auto
  fix x
  assume "x \<in> set rows"
  then have "x \<in> set (r # rs)"
    using set_order_by [OF assms(1), of d q k rows] rs by auto
  moreover have "sorted (map k (r # rs))"
    using sorted_order_by [of k E d q rows] rs by simp
  ultimately show "k r \<le> k x" by auto
qed

lemma first_row_order_by_None:
  "plan_ok E \<Longrightarrow> first_row (order_by E d q k rows) = None \<longleftrightarrow> rows = []"
  using set_order_by [of E d q k rows] by (metis first_row_None set_empty)

text \<open>
  A \<open>LEFT JOIN\<close> keeps a row without partner, with \<open>NULL\<close> in the partner's columns; \<open>NULL\<close>
  sorts before every number.
\<close>

definition left_join :: "('b \<Rightarrow> bool) \<Rightarrow> 'b list \<Rightarrow> 'b option list" where
  "left_join p ys = (if filter p ys = [] then [None] else map Some (filter p ys))"

definition null_first :: "nat option \<Rightarrow> nat" where
  "null_first x = (case x of None \<Rightarrow> 0 | Some i \<Rightarrow> Suc i)"

section \<open>Solution sets\<close>

text \<open>\<open>get_solution.sql\<close>, ordered by \<open>solution_index\<close>\<close>

definition set_solutions :: "db \<Rightarrow> ContentAddress \<Rightarrow> solution_row list" where [stmt_defs]:
  "set_solutions d ca =
     [s. ss \<leftarrow> t_solution_set d, ss_addr ss = ca, s \<leftarrow> t_solution d, sol_set_id s = ss_id ss]"

definition run_GET_SOLUTION ::
  "node_ext \<Rightarrow> db \<Rightarrow> ContentAddress \<Rightarrow> (ContentAddress \<times> ContentAddress) list" where [stmt_defs]:
  "run_GET_SOLUTION E d ca =
     map (\<lambda>s. (sol_contract s, sol_predicate s))
       (order_by E d (GET_SOLUTION ca) sol_index (set_solutions d ca))"

text \<open>
  \<open>get_solution_mutations.sql\<close> and \<open>get_solution_pred_data.sql\<close> end at the semicolon before
  their \<open>ORDER BY\<close>, which is no part of the prepared statement: the rows come in scan order.
\<close>

definition run_GET_SOLUTION_MUTATIONS ::
  "node_ext \<Rightarrow> db \<Rightarrow> ContentAddress \<Rightarrow> nat \<Rightarrow> (blob \<times> blob) list" where [stmt_defs]:
  "run_GET_SOLUTION_MUTATIONS E d ca ix =
     scan E d (GET_SOLUTION_MUTATIONS ca ix)
       [(mu_key m, mu_value m). s \<leftarrow> set_solutions d ca, sol_index s = ix,
          m \<leftarrow> t_mutation d, mu_solution_id m = sol_id s]"

definition run_GET_SOLUTION_PRED_DATA ::
  "node_ext \<Rightarrow> db \<Rightarrow> ContentAddress \<Rightarrow> nat \<Rightarrow> blob list" where [stmt_defs]:
  "run_GET_SOLUTION_PRED_DATA E d ca ix =
     scan E d (GET_SOLUTION_PRED_DATA ca ix)
       [pd_value p. s \<leftarrow> set_solutions d ca, sol_index s = ix,
          p \<leftarrow> t_pred_data d, pd_solution_id p = sol_id s]"

section \<open>Blocks\<close>

text \<open>\<open>get_block_header.sql\<close>\<close>

definition run_GET_BLOCK_HEADER :: "node_ext \<Rightarrow> db \<Rightarrow> ContentAddress \<Rightarrow> block_row option" where [stmt_defs]:
  "run_GET_BLOCK_HEADER E d a =
     first_row (scan E d (GET_BLOCK_HEADER a) (filter (\<lambda>b. blk_address b = a) (t_block d)))"

text \<open>
  The join of \<open>get_block.sql\<close>, \<open>list_blocks.sql\<close>, \<open>list_blocks_by_time.sql\<close> and
  \<open>list_unchecked_blocks.sql\<close>: each block with its entries of \<open>block_solution_set\<close> and their
  solution sets, and with \<open>NULL\<close>s when it has none.
\<close>

definition block_join ::
  "db \<Rightarrow> (block_row \<Rightarrow> bool) \<Rightarrow>
   (block_row \<times> block_solution_set_row option \<times> solution_set_row option) list" where [stmt_defs]:
  "block_join d p =
     [(b, l, ss). b \<leftarrow> t_block d, p b,
        l \<leftarrow> left_join (\<lambda>l. bss_block_id l = blk_id b) (t_block_solution_set d),
        ss \<leftarrow> left_join (\<lambda>ss. case l of None \<Rightarrow> False | Some l' \<Rightarrow> ss_id ss = bss_set_id l')
                (t_solution_set d)]"

definition run_GET_BLOCK :: "node_ext \<Rightarrow> db \<Rightarrow> ContentAddress \<Rightarrow> ContentAddress option list" where [stmt_defs]:
  "run_GET_BLOCK E d a =
     map (\<lambda>(b, l, ss). map_option ss_addr ss)
       (order_by E d (GET_BLOCK a) (\<lambda>(b, l, ss). null_first (map_option bss_index l))
         (block_join d (\<lambda>b. blk_address b = a)))"

type_synonym list_row = "block_row \<times> ContentAddress option"

definition list_key ::
  "block_row \<times> block_solution_set_row option \<times> solution_set_row option \<Rightarrow>
   int \<times> ContentAddress \<times> nat" where
  "list_key r = (case r of (b, l, ss) \<Rightarrow>
     (sint (blk_number b), blk_address b, null_first (map_option bss_index l)))"

definition list_row_of ::
  "block_row \<times> block_solution_set_row option \<times> solution_set_row option \<Rightarrow> list_row" where
  "list_row_of r = (case r of (b, l, ss) \<Rightarrow> (b, map_option ss_addr ss))"

definition number_in_range :: "Word \<Rightarrow> Word \<Rightarrow> block_row \<Rightarrow> bool" where
  "number_in_range lo hi b \<longleftrightarrow> sint lo \<le> sint (blk_number b) \<and> sint (blk_number b) < sint hi"

definition run_LIST_BLOCKS :: "node_ext \<Rightarrow> db \<Rightarrow> Word \<Rightarrow> Word \<Rightarrow> list_row list" where [stmt_defs]:
  "run_LIST_BLOCKS E d lo hi =
     map list_row_of (order_by E d (LIST_BLOCKS lo hi) list_key (block_join d (number_in_range lo hi)))"

text \<open>\<open>list_unchecked_blocks.sql\<close>: blocks without an entry in \<open>failed_block\<close>\<close>

definition run_LIST_UNCHECKED_BLOCKS :: "node_ext \<Rightarrow> db \<Rightarrow> Word \<Rightarrow> Word \<Rightarrow> list_row list" where [stmt_defs]:
  "run_LIST_UNCHECKED_BLOCKS E d lo hi =
     map list_row_of (order_by E d (LIST_UNCHECKED_BLOCKS lo hi) list_key
       (block_join d (\<lambda>b. number_in_range lo hi b \<and>
          blk_id b \<notin> fail_block_id ` set (t_failed_block d))))"

text \<open>
  \<open>list_blocks_by_time.sql\<close>: the condition on the time as it is written, and the page.  A
  negative \<open>LIMIT\<close> is no limit and a negative \<open>OFFSET\<close> is none; a product of page number and
  size that exceeds \<open>i64\<close> becomes a real, which is no valid \<open>OFFSET\<close>.
\<close>

definition time_in_range :: "Word \<Rightarrow> u32 \<Rightarrow> Word \<Rightarrow> u32 \<Rightarrow> block_row \<Rightarrow> bool" where [stmt_defs]:
  "time_in_range start_secs start_nanos end_secs end_nanos b \<longleftrightarrow>
     (sint start_secs \<le> sint (blk_secs b) \<or>
      (sint (blk_secs b) = sint start_secs \<and> uint start_nanos \<le> sint (blk_nanos b))) \<and>
     (sint (blk_secs b) < sint end_secs \<or>
      (sint (blk_secs b) = sint end_secs \<and> sint (blk_nanos b) < uint end_nanos))"

definition TypeMismatch :: ErrorCode where "TypeMismatch = OtherCode 20"

definition limit_offset :: "int \<Rightarrow> int \<Rightarrow> 'a list \<Rightarrow> 'a list" where
  "limit_offset lim off xs = (let ys = drop (nat off) xs in if lim < 0 then ys else take (nat lim) ys)"

definition run_LIST_BLOCKS_BY_TIME ::
  "node_ext \<Rightarrow> db \<Rightarrow> Word \<Rightarrow> u32 \<Rightarrow> Word \<Rightarrow> u32 \<Rightarrow> Word \<Rightarrow> Word \<Rightarrow> rusqlite_error + list_row list" where [stmt_defs]:
  "run_LIST_BLOCKS_BY_TIME E d ss sn es en psize pno =
     (let off = sint pno * sint psize in
      if off < - (2 ^ 63) \<or> 2 ^ 63 \<le> off then Err (SqliteFailure TypeMismatch)
      else Ok (limit_offset (sint psize) off
        (map list_row_of (order_by E d (LIST_BLOCKS_BY_TIME ss sn es en psize pno) list_key
           (block_join d (time_in_range ss sn es en))))))"

text \<open>\<open>get_next_block_addresses.sql\<close>: blocks whose number follows that of the given block\<close>

definition run_GET_NEXT_BLOCK_ADDRESSES ::
  "node_ext \<Rightarrow> db \<Rightarrow> ContentAddress \<Rightarrow> ContentAddress list" where [stmt_defs]:
  "run_GET_NEXT_BLOCK_ADDRESSES E d a =
     scan E d (GET_NEXT_BLOCK_ADDRESSES a)
       [blk_address b1. b1 \<leftarrow> t_block d, b2 \<leftarrow> t_block d,
          sint (blk_number b1) = sint (blk_number b2) + 1 \<and> blk_address b2 = a]"

text \<open>\<open>get_parent_block_address.sql\<close>\<close>

definition run_GET_PARENT_BLOCK_ADDRESS ::
  "node_ext \<Rightarrow> db \<Rightarrow> ContentAddress \<Rightarrow> ContentAddress option" where [stmt_defs]:
  "run_GET_PARENT_BLOCK_ADDRESS E d a =
     (case block_of_address d a of
        None \<Rightarrow> None
      | Some b \<Rightarrow> first_row (scan E d (GET_PARENT_BLOCK_ADDRESS a)
          (map blk_address (filter (\<lambda>b'. blk_id b' = blk_parent_id b) (t_block d)))))"

section \<open>Finalized and failed blocks, progress, state\<close>

text \<open>\<open>get_latest_finalized_block_address.sql\<close>\<close>

definition run_GET_LATEST_FINALIZED_BLOCK_ADDRESS :: "node_ext \<Rightarrow> db \<Rightarrow> ContentAddress option" where [stmt_defs]:
  "run_GET_LATEST_FINALIZED_BLOCK_ADDRESS E d =
     map_option blk_address (first_row (order_by E d GET_LATEST_FINALIZED_BLOCK_ADDRESS
       (\<lambda>b. - sint (blk_number b))
       [b. b \<leftarrow> t_block d, f \<leftarrow> t_finalized_block d, blk_id b = fin_block_id f]))"

text \<open>\<open>list_failed_blocks.sql\<close>\<close>

definition run_LIST_FAILED_BLOCKS ::
  "node_ext \<Rightarrow> db \<Rightarrow> Word \<Rightarrow> Word \<Rightarrow> (Word \<times> ContentAddress) list" where [stmt_defs]:
  "run_LIST_FAILED_BLOCKS E d lo hi =
     map (\<lambda>(b, ss). (blk_number b, ss_addr ss))
       (order_by E d (LIST_FAILED_BLOCKS lo hi)
         (\<lambda>(b, ss). (sint (blk_number b), blk_address b, ss_addr ss))
         [(b, ss). f \<leftarrow> t_failed_block d, b \<leftarrow> t_block d, fail_block_id f = blk_id b,
            ss \<leftarrow> t_solution_set d, fail_set_id f = ss_id ss, number_in_range lo hi b])"

text \<open>\<open>get_validation_progress.sql\<close>\<close>

definition run_GET_VALIDATION_PROGRESS :: "node_ext \<Rightarrow> db \<Rightarrow> ContentAddress option" where [stmt_defs]:
  "run_GET_VALIDATION_PROGRESS E d =
     first_row (scan E d GET_VALIDATION_PROGRESS
       [blk_address b. b \<leftarrow> t_block d, v \<leftarrow> t_validation_progress d, blk_id b = vp_block_id v])"

text \<open>\<open>get_state.sql\<close>\<close>

definition run_GET_STATE :: "node_ext \<Rightarrow> db \<Rightarrow> ContentAddress \<Rightarrow> blob \<Rightarrow> blob option" where [stmt_defs]:
  "run_GET_STATE E d c k =
     first_row (scan E d (GET_STATE c k)
       (map st_value (filter (\<lambda>r. st_contract r = c \<and> st_key r = k) (t_state d))))"

section \<open>State at a finalized block\<close>

text \<open>
  The join of \<open>query_state_at_block_finalized.sql\<close> and
  \<open>query_state_at_solution_set_finalized.sql\<close>: the mutations of a key of a contract in
  finalized blocks, each with its block number and the index of its solution set.
\<close>

definition finalized_writes :: "db \<Rightarrow> ContentAddress \<Rightarrow> blob \<Rightarrow> (Word \<times> nat \<times> blob) list" where [stmt_defs]:
  "finalized_writes d c k =
     [(fin_number f, bss_index l, mu_value m).
        m \<leftarrow> t_mutation d, mu_key m = k,
        s \<leftarrow> t_solution d, sol_id s = mu_solution_id m \<and> sol_contract s = c,
        l \<leftarrow> t_block_solution_set d, bss_set_id l = sol_set_id s,
        f \<leftarrow> t_finalized_block d, fin_block_id f = bss_block_id l]"

definition write_desc :: "Word \<times> nat \<times> blob \<Rightarrow> int \<times> int" where
  "write_desc w = (case w of (n, i, v) \<Rightarrow> (- sint n, - int i))"

definition run_QUERY_STATE_AT_BLOCK_FINALIZED ::
  "node_ext \<Rightarrow> db \<Rightarrow> ContentAddress \<Rightarrow> blob \<Rightarrow> Word \<Rightarrow> blob option" where [stmt_defs]:
  "run_QUERY_STATE_AT_BLOCK_FINALIZED E d c k n =
     map_option (\<lambda>(_, _, v). v)
       (first_row (order_by E d (QUERY_STATE_AT_BLOCK_FINALIZED c k n) write_desc
          (filter (\<lambda>(m, i, v). sint m \<le> sint n) (finalized_writes d c k))))"

text \<open>The row comparison \<open>(block_number, solution_set_index) <= (?, ?)\<close> is lexicographic.\<close>

definition run_QUERY_STATE_AT_SOLUTION_SET_FINALIZED ::
  "node_ext \<Rightarrow> db \<Rightarrow> ContentAddress \<Rightarrow> blob \<Rightarrow> Word \<Rightarrow> Word \<Rightarrow> blob option" where [stmt_defs]:
  "run_QUERY_STATE_AT_SOLUTION_SET_FINALIZED E d c k n ix =
     map_option (\<lambda>(_, _, v). v)
       (first_row (order_by E d (QUERY_STATE_AT_SOLUTION_SET_FINALIZED c k n ix) write_desc
          (filter (\<lambda>(m, i, v). (sint m, int i) \<le> (sint n, sint ix)) (finalized_writes d c k))))"

end
