(* ===== verification/NodeDb.thy ===== *)
theory NodeDb
  imports SqlQuery
begin

text \<open>
  The crate \<open>node-db\<close> (\<open>lib.rs\<close>): blobs of words, transactions, the operations that write
  blocks, finalization, failures, state and progress, and the operations that read them
  back.  An operation on a \<open>Transaction\<close> or \<open>Connection\<close> is a function on the database that
  returns its result, and the new database where it writes.
\<close>

section \<open>Blobs\<close>

definition blob_from_words :: "('d, 'q) ext \<Rightarrow> Word list \<Rightarrow> blob" where
  "blob_from_words E ws = concat (map (bytes_from_word E) ws)"

definition words_from_blob :: "('d, 'q) ext \<Rightarrow> blob \<Rightarrow> Word list" where
  "words_from_blob E bs = map (word_from_bytes E) (chunks_exact 8 bs)"

lemma words_from_blob_from_words [ext_rules]:
  assumes "codec_ok E"
  shows "words_from_blob E (blob_from_words E ws) = ws"
proof -
  have "chunks_exact 8 (concat (map (bytes_from_word E) ws)) = map (bytes_from_word E) ws"
    by (rule chunks_exact_concat) (auto simp: codec_ok_length [OF assms])
  then show ?thesis
    by (simp add: words_from_blob_def blob_from_words_def comp_def codec_ok_roundtrip [OF assms])
qed

lemma blob_from_words_inject:
  "codec_ok E \<Longrightarrow> blob_from_words E v = blob_from_words E w \<longleftrightarrow> v = w"
  by (metis words_from_blob_from_words)

lemma length_words_from_blob: "length (words_from_blob E bs) = length bs div 8"
  by (simp add: words_from_blob_def length_chunks_exact)

section \<open>Column and parameter conversions of \<open>rusqlite\<close>\<close>

text \<open>
  SQLite keeps an \<open>INTEGER\<close> as an \<open>i64\<close>.  Binding a \<open>u64\<close> beyond it fails, reading a negative
  one as unsigned fails, and reading \<open>NULL\<close> as a hash fails.
\<close>

definition to_sql_u64 :: "u64 \<Rightarrow> rusqlite_error + Word" where
  "to_sql_u64 n = (if fits_i64 n then Ok n else Err ToSqlConversionFailure)"

definition get_u64 :: "Word \<Rightarrow> rusqlite_error + u64" where
  "get_u64 w = (if 0 \<le> sint w then Ok w else Err IntegralValueOutOfRange)"

definition get_u32 :: "Word \<Rightarrow> rusqlite_error + u32" where
  "get_u32 w = (if 0 \<le> sint w \<and> sint w < 2 ^ 32 then Ok (ucast w) else Err IntegralValueOutOfRange)"

definition get_hash :: "ContentAddress option \<Rightarrow> rusqlite_error + ContentAddress" where
  "get_hash v = (case v of None \<Rightarrow> Err InvalidColumnType | Some a \<Rightarrow> Ok a)"

lemma to_sql_u64_Ok: "to_sql_u64 n = Ok w \<Longrightarrow> w = n \<and> 0 \<le> sint w \<and> get_u64 w = Ok n"
  by (auto simp: to_sql_u64_def get_u64_def sint_i64_nonneg split: if_splits)

lemma get_u32_ucast [simp]: "get_u32 (ucast (n :: u32)) = Ok n"
  using unsigned_less [of n, where 'a = int] by (simp add: get_u32_def sint_ucast_u32)

section \<open>Transactions\<close>

text \<open>
  \<open>with_tx\<close> commits what its function wrote and rolls back when the function or the commit
  fails; \<open>with_tx_dropped\<close> always rolls back.  Beginning and committing may fail: their
  results are the first two arguments.  \<open>with_tx\<close> also runs on a database that may not have
  its tables yet, so that its state is a parameter.
\<close>

type_synonym ('e, 'a) tx = "db \<Rightarrow> ('e + 'a) \<times> db"

definition with_tx ::
  "rusqlite_error + unit \<Rightarrow> rusqlite_error + unit \<Rightarrow> (rusqlite_error \<Rightarrow> 'e) \<Rightarrow>
   ('s \<Rightarrow> ('e + 'a) \<times> 's) \<Rightarrow> 's \<Rightarrow> ('e + 'a) \<times> 's" where
  "with_tx begun committed from_err f d =
     (case begun of
        Inl e \<Rightarrow> (Err (from_err e), d)
      | Inr _ \<Rightarrow> (case f d of
          (Inl e, _) \<Rightarrow> (Err e, d)
        | (Inr x, d') \<Rightarrow> (case committed of
            Inl e \<Rightarrow> (Err (from_err e), d)
          | Inr _ \<Rightarrow> (Ok x, d'))))"

definition with_tx_dropped ::
  "rusqlite_error + unit \<Rightarrow> (rusqlite_error \<Rightarrow> 'e) \<Rightarrow> ('e, 'a) tx \<Rightarrow> ('e, 'a) tx" where
  "with_tx_dropped begun from_err f d =
     (case begun of
        Inl e \<Rightarrow> (Err (from_err e), d)
      | Inr _ \<Rightarrow> (fst (f d), d))"

lemma with_tx_Err: "fst (with_tx b c h f d) = Inl e \<Longrightarrow> snd (with_tx b c h f d) = d"
  by (auto simp: with_tx_def split: sum.splits prod.splits)

lemma with_tx_Ok:
  "fst (with_tx b c h f d) = Inr x \<Longrightarrow> with_tx b c h f d = f d"
  by (auto simp: with_tx_def split: sum.splits prod.splits)

lemma with_tx_cases:
  "snd (with_tx b c h f d) = d \<or> (\<exists>x. f d = (Inr x, snd (with_tx b c h f d)))"
  by (auto simp: with_tx_def split: sum.splits prod.splits)

lemma with_tx_dropped_same [simp]: "snd (with_tx_dropped b h f d) = d"
  by (auto simp: with_tx_dropped_def split: sum.splits)

section \<open>Inserting a block\<close>

text \<open>The loops of \<open>insert_block\<close>, innermost first.\<close>

definition insert_mutations ::
  "node_ext \<Rightarrow> ContentAddress \<Rightarrow> nat \<Rightarrow> Mutation list \<Rightarrow> db \<Rightarrow> db" where
  "insert_mutations E ca solution_ix ms =
     fold (\<lambda>(mutation_ix, m).
         INSERT_MUTATION ca solution_ix mutation_ix
           (blob_from_words E (mut_key m)) (blob_from_words E (mut_value m)))
       (enumerate0 ms)"

definition insert_pred_data ::
  "node_ext \<Rightarrow> ContentAddress \<Rightarrow> nat \<Rightarrow> Value list \<Rightarrow> db \<Rightarrow> db" where
  "insert_pred_data E ca solution_ix vs =
     fold (\<lambda>(pred_data_ix, v). INSERT_PRED_DATA ca solution_ix pred_data_ix (blob_from_words E v))
       (enumerate0 vs)"

definition insert_solution ::
  "node_ext \<Rightarrow> ContentAddress \<Rightarrow> nat \<Rightarrow> Solution \<Rightarrow> db \<Rightarrow> db" where
  "insert_solution E ca solution_ix s d =
     insert_pred_data E ca solution_ix (predicate_data s)
       (insert_mutations E ca solution_ix (state_mutations s)
         (INSERT_SOLUTION ca solution_ix (contract (predicate_to_solve s))
            (predicate (predicate_to_solve s)) d))"

definition insert_solution_set ::
  "node_ext \<Rightarrow> ContentAddress \<Rightarrow> nat \<Rightarrow> SolutionSet \<Rightarrow> ContentAddress \<Rightarrow> db \<Rightarrow> db" where
  "insert_solution_set E block_address ix s ca d =
     fold (\<lambda>(solution_ix, sol). insert_solution E ca solution_ix sol) (enumerate0 (solutions s))
       (INSERT_BLOCK_SOLUTION_SET block_address ca ix (INSERT_SOLUTION_SET ca d))"

definition insert_block :: "node_ext \<Rightarrow> Block \<Rightarrow> (rusqlite_error, ContentAddress) tx" where
  "insert_block E b d =
     (let secs = as_secs (timestamp (header b));
          nanos = ucast (subsec_nanos (timestamp (header b)));
          solution_set_addrs = map (content_addr_solution_set E) (solution_sets b);
          block_address = from_header_and_solution_set_addrs_slice E (header b) solution_set_addrs;
          parent_block_address = ContentAddress 0
      in case bind_result (to_sql_u64 secs) (\<lambda>s. bind_result (to_sql_u64 nanos) (\<lambda>n. Ok (s, n))) of
           Inl e \<Rightarrow> (Err e, d)
         | Inr (s, n) \<Rightarrow>
             (Ok block_address,
              fold (\<lambda>(ix, (sset, ca)). insert_solution_set E block_address ix sset ca)
                (enumerate0 (zip (solution_sets b) solution_set_addrs))
                (INSERT_BLOCK block_address parent_block_address (number (header b)) s n d)))"

section \<open>The other writes\<close>

definition of_stmt :: "(db \<Rightarrow> rusqlite_error + db) \<Rightarrow> (rusqlite_error, unit) tx" where
  "of_stmt s d = (case s d of Inl e \<Rightarrow> (Err e, d) | Inr d' \<Rightarrow> (Ok (), d'))"

definition finalize_block :: "ContentAddress \<Rightarrow> (rusqlite_error, unit) tx" where
  "finalize_block block_address = of_stmt (FINALIZE_BLOCK block_address)"

definition insert_failed_block ::
  "ContentAddress \<Rightarrow> ContentAddress \<Rightarrow> (rusqlite_error, unit) tx" where
  "insert_failed_block block_address solution_set_addr =
     of_stmt (\<lambda>d. Ok (INSERT_FAILED_BLOCK block_address solution_set_addr d))"

definition update_state ::
  "node_ext \<Rightarrow> ContentAddress \<Rightarrow> Key \<Rightarrow> Value \<Rightarrow> (rusqlite_error, unit) tx" where
  "update_state E contract_ca key v =
     of_stmt (\<lambda>d. Ok (UPDATE_STATE contract_ca (blob_from_words E key) (blob_from_words E v) d))"

definition update_validation_progress :: "ContentAddress \<Rightarrow> (rusqlite_error, unit) tx" where
  "update_validation_progress block_address = of_stmt (INSERT_VALIDATION_PROGRESS block_address)"

definition delete_state :: "node_ext \<Rightarrow> ContentAddress \<Rightarrow> Key \<Rightarrow> (rusqlite_error, unit) tx" where
  "delete_state E contract_ca key =
     of_stmt (\<lambda>d. Ok (DELETE_STATE contract_ca (blob_from_words E key) d))"

section \<open>Reading solution sets, state and blocks\<close>

text \<open>One round of the loop of \<open>get_solution_set\<close> over the solutions it has listed.\<close>

definition get_solution ::
  "node_ext \<Rightarrow> db \<Rightarrow> ContentAddress \<Rightarrow> nat \<Rightarrow> ContentAddress \<times> ContentAddress \<Rightarrow> Solution" where
  "get_solution E d ca solution_ix r =
     \<lparr>predicate_to_solve = \<lparr>contract = fst r, predicate = snd r\<rparr>,
      predicate_data = map (words_from_blob E) (run_GET_SOLUTION_PRED_DATA E d ca solution_ix),
      state_mutations =
        map (\<lambda>(k, v). \<lparr>mut_key = words_from_blob E k, mut_value = words_from_blob E v\<rparr>)
          (run_GET_SOLUTION_MUTATIONS E d ca solution_ix)\<rparr>"

definition get_solution_set :: "node_ext \<Rightarrow> db \<Rightarrow> ContentAddress \<Rightarrow> QueryError + SolutionSet" where
  "get_solution_set E d ca =
     Ok \<lparr>solutions = map (\<lambda>(solution_ix, r). get_solution E d ca solution_ix r)
           (enumerate0 (run_GET_SOLUTION E d ca))\<rparr>"

definition query_state ::
  "node_ext \<Rightarrow> db \<Rightarrow> ContentAddress \<Rightarrow> Key \<Rightarrow> QueryError + Value option" where
  "query_state E d contract_ca key =
     Ok (map_option (words_from_blob E) (run_GET_STATE E d contract_ca (blob_from_words E key)))"

definition header_of_row :: "block_row \<Rightarrow> rusqlite_error + Header" where
  "header_of_row r =
     bind_result (get_u64 (blk_secs r)) (\<lambda>timestamp_secs.
     bind_result (get_u32 (blk_nanos r)) (\<lambda>timestamp_nanos.
       Ok \<lparr>number = blk_number r, timestamp = Duration_new timestamp_secs timestamp_nanos\<rparr>))"

definition get_block_header :: "node_ext \<Rightarrow> db \<Rightarrow> ContentAddress \<Rightarrow> rusqlite_error + Header option" where
  "get_block_header E d block_address =
     (case run_GET_BLOCK_HEADER E d block_address of
        None \<Rightarrow> Ok None
      | Some r \<Rightarrow> bind_result (header_of_row r) (\<lambda>h. Ok (Some h)))"

definition get_block :: "node_ext \<Rightarrow> db \<Rightarrow> ContentAddress \<Rightarrow> QueryError + Block option" where
  "get_block E d block_address =
     bind_result (map_err Rusqlite (get_block_header E d block_address)) (\<lambda>h. case h of
       None \<Rightarrow> Ok None
     | Some h \<Rightarrow>
         bind_result
           (collect_results (map (\<lambda>row.
               bind_result (map_err Rusqlite (get_hash row)) (\<lambda>ca. get_solution_set E d ca))
             (run_GET_BLOCK E d block_address)))
           (\<lambda>sets. Ok (Some \<lparr>header = h, solution_sets = sets\<rparr>)))"

definition get_latest_finalized_block_address ::
  "node_ext \<Rightarrow> db \<Rightarrow> rusqlite_error + ContentAddress option" where
  "get_latest_finalized_block_address E d = Ok (run_GET_LATEST_FINALIZED_BLOCK_ADDRESS E d)"

definition get_parent_block_address ::
  "node_ext \<Rightarrow> db \<Rightarrow> ContentAddress \<Rightarrow> rusqlite_error + ContentAddress option" where
  "get_parent_block_address E d block_address =
     Ok (run_GET_PARENT_BLOCK_ADDRESS E d block_address)"

definition get_validation_progress :: "node_ext \<Rightarrow> db \<Rightarrow> QueryError + ContentAddress option" where
  "get_validation_progress E d = Ok (run_GET_VALIDATION_PROGRESS E d)"

definition get_next_block_addresses ::
  "node_ext \<Rightarrow> db \<Rightarrow> ContentAddress \<Rightarrow> QueryError + ContentAddress list" where
  "get_next_block_addresses E d current_block = Ok (run_GET_NEXT_BLOCK_ADDRESSES E d current_block)"

section \<open>Listing blocks\<close>

text \<open>
  The closure that decodes a row, and the loop shared by \<open>list_blocks\<close>,
  \<open>list_blocks_by_time\<close> and \<open>list_unchecked_blocks\<close>: a row whose address differs from that of
  the previous row starts a new block, and the solution set of the row is pushed to the last
  block.
\<close>

definition decode_list_row :: "list_row \<Rightarrow> rusqlite_error + ContentAddress \<times> Header \<times> ContentAddress" where
  "decode_list_row r =
     bind_result (header_of_row (fst r)) (\<lambda>h.
     bind_result (get_hash (snd r)) (\<lambda>ca. Ok (blk_address (fst r), h, ca)))"

definition push_solution_set :: "SolutionSet \<Rightarrow> Block list \<Rightarrow> Block list" where
  "push_solution_set s blocks =
     (let b = last blocks in butlast blocks @ [b\<lparr>solution_sets := solution_sets b @ [s]\<rparr>])"

fun group_rows ::
  "(ContentAddress \<Rightarrow> QueryError + SolutionSet) \<Rightarrow> ContentAddress option \<Rightarrow> Block list \<Rightarrow>
   list_row list \<Rightarrow> QueryError + Block list" where
  "group_rows get last_block_address blocks [] = Ok blocks"
| "group_rows get last_block_address blocks (r # rs) =
     bind_result (map_err Rusqlite (decode_list_row r)) (\<lambda>(block_address, h, solution_set_addr).
       let blocks' = (if last_block_address = Some block_address then blocks
                      else blocks @ [\<lparr>header = h, solution_sets = []\<rparr>])
       in bind_result (get solution_set_addr) (\<lambda>s.
            group_rows get (Some block_address) (push_solution_set s blocks') rs))"

definition list_blocks :: "node_ext \<Rightarrow> db \<Rightarrow> Word \<Rightarrow> Word \<Rightarrow> QueryError + Block list" where
  "list_blocks E d lo hi = group_rows (get_solution_set E d) None [] (run_LIST_BLOCKS E d lo hi)"

definition list_unchecked_blocks :: "node_ext \<Rightarrow> db \<Rightarrow> Word \<Rightarrow> Word \<Rightarrow> QueryError + Block list" where
  "list_unchecked_blocks E d lo hi =
     group_rows (get_solution_set E d) None [] (run_LIST_UNCHECKED_BLOCKS E d lo hi)"

definition list_blocks_by_time ::
  "node_ext \<Rightarrow> db \<Rightarrow> Duration \<Rightarrow> Duration \<Rightarrow> i64 \<Rightarrow> i64 \<Rightarrow> QueryError + Block list" where
  "list_blocks_by_time E d start_time end_time page_size page_number =
     bind_result (map_err Rusqlite
       (bind_result (to_sql_u64 (as_secs start_time)) (\<lambda>start_secs.
        bind_result (to_sql_u64 (as_secs end_time)) (\<lambda>end_secs.
          run_LIST_BLOCKS_BY_TIME E d start_secs (subsec_nanos start_time)
            end_secs (subsec_nanos end_time) page_size page_number))))
       (group_rows (get_solution_set E d) None [])"

definition list_failed_blocks ::
  "node_ext \<Rightarrow> db \<Rightarrow> Word \<Rightarrow> Word \<Rightarrow> QueryError + (Word \<times> ContentAddress) list" where
  "list_failed_blocks E d lo hi = Ok (run_LIST_FAILED_BLOCKS E d lo hi)"

end
