(* ===== verification/Sample.thy ===== *)
theory Sample
  imports SqlQuery
begin

text \<open>
  Concrete third-party functions and data, at which the hypotheses of the development's
  theorems are shown to hold: the big-endian word codec, hashes by Horner's rule, a
  database that returns rows in the order of their row ids, and a few blocks.
\<close>

section \<open>Third-party functions\<close>

definition horner :: "int list \<Rightarrow> Hash" where
  "horner ns = word_of_int (fold (\<lambda>n h. 131 * h + n + 1) ns 7)"

definition words_ints :: "Word list \<Rightarrow> int list" where
  "words_ints ws = int (length ws) # map uint ws"

definition solution_ints :: "Solution \<Rightarrow> int list" where
  "solution_ints s =
     [uint (hash_of (contract (predicate_to_solve s))), uint (hash_of (predicate (predicate_to_solve s)))] @
     concat (map words_ints (predicate_data s)) @
     concat (map (\<lambda>m. words_ints (mut_key m) @ words_ints (mut_value m)) (state_mutations s))"

definition sample_node :: "nat \<Rightarrow> Node" where
  "sample_node i = \<lparr>program_address = ContentAddress (word_of_int (100 + int i)), edge_start = i\<rparr>"

definition sample_predicate :: Predicate where
  "sample_predicate = \<lparr>nodes = [sample_node 0, sample_node 1], edges = [1]\<rparr>"

definition sample_ext :: node_ext where
  "sample_ext =
     \<lparr>bytes_from_word = be_bytes, word_from_bytes = be_word, word_from_bytes_slice = be_word_slice,
      word_4_from_u8_32 = (\<lambda>h. map (\<lambda>i. ucast (drop_bit (64 * i) h)) [3, 2, 1, 0]),
      hash_block_parts = (\<lambda>(n, t, cas). horner ([uint n, uint (as_secs t), uint (subsec_nanos t)] @
        map (\<lambda>a. uint (hash_of a)) cas)),
      content_addr_solution_set = (\<lambda>s. ContentAddress (horner (concat (map solution_ints (solutions s))))),
      content_addr_contract = (\<lambda>c. ContentAddress (horner [int (length (predicates c)), uint (salt c)])),
      content_addr_predicate = (\<lambda>p. ContentAddress (horner (map (\<lambda>n. uint (hash_of (program_address n))) (nodes p)))),
      content_addr_program = (\<lambda>p. ContentAddress (horner (map uint (program_bytes p)))),
      predicate_encode = (\<lambda>p. if p = sample_predicate then Ok [1] else Err undefined),
      predicate_decode = (\<lambda>bs. if bs = [1] then Ok sample_predicate else Err undefined),
      plan = (\<lambda>d q n. [0..<n])\<rparr>"

lemma sample_codec_ok: "codec_ok sample_ext"
  by (simp add: codec_ok_def sample_ext_def be_word_be_bytes be_word_slice_take)

lemma sample_predicate_codec_ok: "predicate_codec_ok sample_ext"
  by (auto simp: predicate_codec_ok_def sample_ext_def split: if_splits)

lemma sample_plan_ok: "plan_ok sample_ext"
  by (simp add: plan_ok_def sample_ext_def)

section \<open>Blocks\<close>

definition sample_mutation :: "Word \<Rightarrow> Word \<Rightarrow> Mutation" where
  "sample_mutation k v = \<lparr>mut_key = [k], mut_value = [v]\<rparr>"

definition sample_contract :: ContentAddress where "sample_contract = ContentAddress 5"

definition sample_set :: "(Word \<times> Word) list \<Rightarrow> SolutionSet" where
  "sample_set kvs = \<lparr>solutions = [\<lparr>predicate_to_solve =
       \<lparr>contract = sample_contract, predicate = ContentAddress 6\<rparr>, predicate_data = [[9]],
       state_mutations = map (\<lambda>(k, v). sample_mutation k v) kvs\<rparr>]\<rparr>"

definition sample_block :: "Word \<Rightarrow> (Word \<times> Word) list list \<Rightarrow> Block" where
  "sample_block n kvss =
     \<lparr>header = \<lparr>number = n, timestamp = Duration 10 5\<rparr>, solution_sets = map sample_set kvss\<rparr>"

end
