(* ===== verification/DbInv.thy ===== *)
theory DbInv
  imports NodeDb Sample
begin

text \<open>
  The invariant of the database under the write operations of \<open>node-db\<close>, and the state table
  as a store: the laws of \<open>update_state\<close>, \<open>delete_state\<close> and \<open>query_state\<close> are those of the
  locale \<open>state_store\<close>, in which the effect of a run of updates is derived.
\<close>

section \<open>Every write keeps the invariant\<close>

lemma fold_invariant:
  "(\<And>x s. x \<in> set xs \<Longrightarrow> P s \<Longrightarrow> P (f x s)) \<Longrightarrow> P s \<Longrightarrow> P (fold f xs s)"
  by (induction xs arbitrary: s) auto

lemma insert_mutations_wf [wf_rules]: "db_wf d \<Longrightarrow> db_wf (insert_mutations E ca ix ms d)"
  unfolding insert_mutations_def by (rule fold_invariant) (auto intro: INSERT_MUTATION_wf)

lemma insert_pred_data_wf [wf_rules]: "db_wf d \<Longrightarrow> db_wf (insert_pred_data E ca ix vs d)"
  unfolding insert_pred_data_def by (rule fold_invariant) (auto intro: INSERT_PRED_DATA_wf)

lemma insert_solution_wf [wf_rules]: "db_wf d \<Longrightarrow> db_wf (insert_solution E ca ix s d)"
  unfolding insert_solution_def
  by (intro insert_pred_data_wf insert_mutations_wf INSERT_SOLUTION_wf)

lemma insert_solution_set_wf [wf_rules]: "db_wf d \<Longrightarrow> db_wf (insert_solution_set E a ix s ca d)"
  unfolding insert_solution_set_def
  by (rule fold_invariant)
    (auto intro: insert_solution_wf INSERT_BLOCK_SOLUTION_SET_wf INSERT_SOLUTION_SET_wf)

lemma to_sql_u64_ucast_u32: "to_sql_u64 (ucast (n :: u32)) = Ok (ucast n)"
  using sint_ucast_u32 [of n] sint_i64_nonneg [of "ucast n"]
  by (simp add: to_sql_u64_def)

text \<open>The two outcomes of \<open>insert_block\<close>: the seconds do not fit, or the rows are written.\<close>

lemma insert_block_cases:
  obtains
    (overflow) "2 ^ 63 \<le> unat (as_secs (timestamp (header b)))"
      "insert_block E b d = (Err ToSqlConversionFailure, d)"
  | (inserted) "unat (as_secs (timestamp (header b))) < 2 ^ 63"
      "insert_block E b d =
         (Ok (content_addr_block E b),
          fold (\<lambda>(ix, (sset, ca)). insert_solution_set E (content_addr_block E b) ix sset ca)
            (enumerate0 (zip (solution_sets b) (map (content_addr_solution_set E) (solution_sets b))))
            (INSERT_BLOCK (content_addr_block E b) (ContentAddress 0) (number (header b))
               (as_secs (timestamp (header b))) (ucast (subsec_nanos (timestamp (header b)))) d))"
proof (cases "unat (as_secs (timestamp (header b))) < 2 ^ 63")
  case True
  then show ?thesis
    by (intro inserted) (simp_all add: insert_block_def to_sql_u64_ucast_u32
        to_sql_u64_def [of "as_secs _"] content_addr_block_parts Let_def)
next
  case False
  then show ?thesis
    by (intro overflow) (simp_all add: insert_block_def to_sql_u64_def [of "as_secs _"] Let_def)
qed

lemma insert_block_wf [wf_rules]:
  assumes "db_wf d"
  shows "db_wf (snd (insert_block E b d))"
proof (cases rule: insert_block_cases [of b E d])
  case inserted
  let ?n = "subsec_nanos (timestamp (header b))"
  have "0 \<le> sint (as_secs (timestamp (header b)))"
    using inserted(1) by (simp add: sint_i64_nonneg)
  moreover have "0 \<le> sint (ucast ?n :: i64)" "sint (ucast ?n :: i64) < 2 ^ 32"
    using unsigned_less [of ?n, where 'a = int] by (simp_all add: sint_ucast_u32)
  ultimately have "db_wf (INSERT_BLOCK a p n (as_secs (timestamp (header b))) (ucast ?n) d)" for a p n
    by (rule INSERT_BLOCK_wf [OF assms])
  then show ?thesis
    unfolding inserted(2) snd_conv
    by (rule fold_invariant [rotated]) (auto intro: insert_solution_set_wf)
qed (simp add: assms)

lemma of_stmt_wf:
  assumes "db_wf d" and "\<And>d'. s d = Inr d' \<Longrightarrow> db_wf d'"
  shows "db_wf (snd (of_stmt s d))"
  using assms by (auto simp: of_stmt_def split: sum.splits)

lemma finalize_block_wf [wf_rules]: "db_wf d \<Longrightarrow> db_wf (snd (finalize_block a d))"
  unfolding finalize_block_def by (rule of_stmt_wf) (auto intro: FINALIZE_BLOCK_wf)

lemma insert_failed_block_wf [wf_rules]: "db_wf d \<Longrightarrow> db_wf (snd (insert_failed_block a ca d))"
  unfolding insert_failed_block_def by (rule of_stmt_wf) (auto intro: INSERT_FAILED_BLOCK_wf)

lemma update_state_wf [wf_rules]: "db_wf d \<Longrightarrow> db_wf (snd (update_state E c k v d))"
  unfolding update_state_def by (rule of_stmt_wf) (auto intro: UPDATE_STATE_wf)

lemma delete_state_wf [wf_rules]: "db_wf d \<Longrightarrow> db_wf (snd (delete_state E c k d))"
  unfolding delete_state_def by (rule of_stmt_wf) (auto intro: DELETE_STATE_wf)

lemma update_validation_progress_wf [wf_rules]:
  "db_wf d \<Longrightarrow> db_wf (snd (update_validation_progress a d))"
  unfolding update_validation_progress_def
  by (rule of_stmt_wf) (auto intro: INSERT_VALIDATION_PROGRESS_wf)

lemma with_tx_wf [wf_rules]:
  assumes "db_wf d" and "db_wf (snd (f d))"
  shows "db_wf (snd (with_tx b c h f d))"
  using with_tx_cases [of b c h f d] assms by (metis snd_conv)

section \<open>Runs of the database\<close>

text \<open>A step is a write operation, alone or in a transaction that commits or rolls back.\<close>

inductive db_step :: "node_ext \<Rightarrow> db \<Rightarrow> db \<Rightarrow> bool" for E where
  step_insert_block: "db_step E d (snd (with_tx bg cm h (insert_block E b) d))"
| step_finalize_block: "db_step E d (snd (finalize_block a d))"
| step_insert_failed_block: "db_step E d (snd (insert_failed_block a ca d))"
| step_update_state: "db_step E d (snd (update_state E c k v d))"
| step_delete_state: "db_step E d (snd (delete_state E c k d))"
| step_update_validation_progress: "db_step E d (snd (update_validation_progress a d))"

inductive_cases db_step_elim: "db_step E d d'"

interpretation node_db: inv_machine "\<lambda>d. d = create_tables" "db_step E" db_wf
  by unfold_locales
    (auto elim!: db_step_elim intro: create_tables_wf with_tx_wf insert_block_wf
       finalize_block_wf insert_failed_block_wf update_state_wf delete_state_wf
       update_validation_progress_wf)

section \<open>The state table as a store\<close>

locale state_store =
  fixes ok :: "'s \<Rightarrow> bool" and lookup :: "'s \<Rightarrow> 'k \<Rightarrow> 'v option"
    and update :: "'k \<Rightarrow> 'v \<Rightarrow> 's \<Rightarrow> 's" and delete :: "'k \<Rightarrow> 's \<Rightarrow> 's"
  assumes ok_update: "ok s \<Longrightarrow> ok (update k v s)"
    and ok_delete: "ok s \<Longrightarrow> ok (delete k s)"
    and lookup_update: "ok s \<Longrightarrow> lookup (update k v s) = (lookup s)(k \<mapsto> v)"
    and lookup_delete: "ok s \<Longrightarrow> lookup (delete k s) = (lookup s)(k := None)"
begin

fun apply_writes :: "('k \<times> 'v option) list \<Rightarrow> 's \<Rightarrow> 's" where
  "apply_writes [] s = s"
| "apply_writes ((k, Some v) # ws) s = apply_writes ws (update k v s)"
| "apply_writes ((k, None) # ws) s = apply_writes ws (delete k s)"

lemma ok_apply_writes: "ok s \<Longrightarrow> ok (apply_writes ws s)"
  by (induction ws s rule: apply_writes.induct) (auto intro: ok_update ok_delete)

text \<open>After a run of writes a key has the value of its last write.\<close>

lemma lookup_apply_writes:
  "ok s \<Longrightarrow> lookup (apply_writes ws s) k =
     (case map_of (rev ws) k of Some w \<Rightarrow> w | None \<Rightarrow> lookup s k)"
  by (induction ws s rule: apply_writes.induct)
    (auto simp: lookup_update lookup_delete ok_update ok_delete map_add_def split: option.splits)

lemma update_delete: "ok s \<Longrightarrow> lookup (delete k (update k v s)) = (lookup s)(k := None)"
  by (simp add: lookup_update lookup_delete ok_update)

end

definition state_lookup :: "db \<Rightarrow> ContentAddress \<times> blob \<Rightarrow> blob option" where
  "state_lookup d ck =
     first_row (map st_value (filter (\<lambda>r. (st_contract r, st_key r) = ck) (t_state d)))"

abbreviation state_rows :: "state_row list \<Rightarrow> ((ContentAddress \<times> blob) \<times> blob) list" where
  "state_rows rows \<equiv> map (\<lambda>r. ((st_contract r, st_key r), st_value r)) rows"

lemma state_lookup_map_of: "state_lookup d = map_of (state_rows (t_state d))"
proof
  fix ck
  have "first_row (map st_value (filter (\<lambda>r. (st_contract r, st_key r) = ck) rows))
      = map_of (state_rows rows) ck" for rows
    by (induction rows) auto
  then show "state_lookup d ck = map_of (state_rows (t_state d)) ck"
    by (simp add: state_lookup_def)
qed

lemma map_of_update_rows:
  "(c, k) \<in> (\<lambda>r. (st_contract r, st_key r)) ` set rows \<Longrightarrow>
   map_of (state_rows (map (\<lambda>r. if st_contract r = c \<and> st_key r = k then r\<lparr>st_value := v\<rparr> else r) rows))
     = (map_of (state_rows rows))((c, k) \<mapsto> v)"
proof (induction rows)
  case (Cons r rows)
  show ?case
  proof (cases "(c, k) \<in> (\<lambda>r. (st_contract r, st_key r)) ` set rows")
    case True
    with Cons.IH show ?thesis by (auto simp: fun_eq_iff)
  next
    case False
    then have "map (\<lambda>r. if st_contract r = c \<and> st_key r = k then r\<lparr>st_value := v\<rparr> else r) rows = rows"
      by (intro map_idI) auto
    with False Cons.prems show ?thesis by (auto simp: fun_eq_iff)
  qed
qed simp

lemma map_of_append_fresh:
  "ck \<notin> fst ` set xs \<Longrightarrow> map_of (xs @ [(ck, v)]) = (map_of xs)(ck \<mapsto> v)"
  by (induction xs) (auto simp: fun_eq_iff)

lemma map_of_filter_key:
  "map_of (filter (\<lambda>(k', v). k' \<noteq> k) xs) = (map_of xs)(k := None)"
  by (induction xs) (auto simp: fun_eq_iff)

interpretation state_table: state_store db_wf state_lookup
  "\<lambda>(c, k) v. UPDATE_STATE c k v" "\<lambda>(c, k). DELETE_STATE c k"
proof unfold_locales
  fix d :: db and ck :: "ContentAddress \<times> blob" and v :: blob
  assume wf: "db_wf d"
  obtain c k where ck: "ck = (c, k)" by (cases ck)
  show "db_wf ((case ck of (c, k) \<Rightarrow> \<lambda>v. UPDATE_STATE c k v) v d)"
    using wf by (simp add: ck UPDATE_STATE_wf)
  show "db_wf ((case ck of (c, k) \<Rightarrow> DELETE_STATE c k) d)"
    using wf by (simp add: ck DELETE_STATE_wf)
  show "state_lookup ((case ck of (c, k) \<Rightarrow> \<lambda>v. UPDATE_STATE c k v) v d) = (state_lookup d)(ck \<mapsto> v)"
    using map_of_update_rows [of c k "t_state d" v]
      map_of_append_fresh [of "(c, k)" "state_rows (t_state d)" v]
    by (auto simp: ck state_lookup_map_of UPDATE_STATE_def image_image simp del: map_map)
  have "state_rows (filter (\<lambda>r. \<not> (st_contract r = c \<and> st_key r = k)) rows)
      = filter (\<lambda>(k', v). k' \<noteq> (c, k)) (state_rows rows)" for rows
    by (induction rows) auto
  then show "state_lookup ((case ck of (c, k) \<Rightarrow> DELETE_STATE c k) d) = (state_lookup d)(ck := None)"
    by (simp add: ck state_lookup_map_of DELETE_STATE_def map_of_filter_key)
qed

text \<open>\<open>query_state\<close> reads the store: at most one row has the key, so the scan order is immaterial.\<close>

lemma query_state_lookup:
  assumes "plan_ok E" and "db_wf d"
  shows "query_state E d c k =
    Ok (map_option (words_from_blob E) (state_lookup d (c, blob_from_words E k)))"
proof -
  let ?rs = "filter (\<lambda>r. st_contract r = c \<and> st_key r = blob_from_words E k) (t_state d)"
  have rs: "filter (\<lambda>r. (st_contract r, st_key r) = (c, blob_from_words E k)) (t_state d) = ?rs"
    by simp
  have "run_GET_STATE E d c (blob_from_words E k) = state_lookup d (c, blob_from_words E k)"
  proof (cases "?rs = []")
    case True
    then show ?thesis
      unfolding run_GET_STATE_def state_lookup_def rs by (simp add: assms(1))
  next
    case False
    then obtain r where "r \<in> set ?rs"
      by (cases ?rs) force+
    then have r: "r \<in> set (t_state d)" "(c, blob_from_words E k) = (st_contract r, st_key r)"
      by auto
    have "?rs = [r]"
      using db_wf_D(6) [OF assms(2)] r filter_unique [of "\<lambda>r. (st_contract r, st_key r)" "t_state d" r]
      by (simp add: state_wf_def)
    then show ?thesis
      unfolding run_GET_STATE_def state_lookup_def rs by (simp add: assms(1))
  qed
  then show ?thesis
    by (simp add: query_state_def)
qed

lemma update_state_eq:
  "update_state E c k v d = (Ok (), UPDATE_STATE c (blob_from_words E k) (blob_from_words E v) d)"
  by (simp add: update_state_def of_stmt_def)

lemma delete_state_eq:
  "delete_state E c k d = (Ok (), DELETE_STATE c (blob_from_words E k) d)"
  by (simp add: delete_state_def of_stmt_def)

section \<open>Properties\<close>

text \<open>
  C1. In every database that the write operations reach from the empty tables, alone or in
  transactions that commit or roll back, all declared constraints hold: ids and unique
  columns do not repeat, references are valid, at most one block is finalized at each number
  and its number is the finalized number, and there is at most one progress row.
\<close>

theorem reachable_db_wf:
  assumes "reachable (\<lambda>d. d = create_tables) (db_step E) d"
  shows "db_wf d"
  using assms by (rule node_db.reachable_inv)

lemma reachable_db_wf_witness:
  "db_wf (snd (finalize_block (content_addr_block sample_ext (sample_block 1 [[(1, 2)]]))
     (snd (with_tx (Ok ()) (Ok ()) id (insert_block sample_ext (sample_block 1 [[(1, 2)]])) create_tables))))"
  by (rule reachable_db_wf [of sample_ext], rule reach_step, rule reach_step, rule reach_start, rule refl,
      rule db_step.step_insert_block, rule db_step.step_finalize_block)

text \<open>
  A transaction is atomic: if it fails, when it begins, in its function or when it
  commits, the database is as before; if it succeeds it has the effect of its function, and a
  dropped transaction never has an effect.
\<close>

theorem with_tx_atomic:
  "(case fst (with_tx begun committed from_err f d) of
      Inl e \<Rightarrow> snd (with_tx begun committed from_err f d) = d
    | Inr x \<Rightarrow> f d = (Ok x, snd (with_tx begun committed from_err f d))) \<and>
   snd (with_tx_dropped begun from_err f d) = d"
  by (auto simp: with_tx_def split: sum.splits prod.splits)

text \<open>The operations of a run on the state table, as the calls of the node make them.\<close>

fun run_state_ops :: "node_ext \<Rightarrow> (ContentAddress \<times> Key \<times> Value option) list \<Rightarrow> db \<Rightarrow> db" where
  "run_state_ops E [] d = d"
| "run_state_ops E ((c, k, Some v) # ops) d = run_state_ops E ops (snd (update_state E c k v d))"
| "run_state_ops E ((c, k, None) # ops) d = run_state_ops E ops (snd (delete_state E c k d))"

lemma run_state_ops_apply:
  "run_state_ops E ops d =
     state_table.apply_writes
       (map (\<lambda>(c, k, w). ((c, blob_from_words E k), map_option (blob_from_words E) w)) ops) d"
  by (induction E ops d rule: run_state_ops.induct) (simp_all add: update_state_eq delete_state_eq)

lemma map_of_coded:
  assumes "codec_ok E"
  shows "map_of (map (\<lambda>(c, k, w). ((c, blob_from_words E k), map_option (blob_from_words E) w)) ops)
      (c, blob_from_words E k) =
    map_option (map_option (blob_from_words E)) (map_of (map (\<lambda>(c, k, w). ((c, k), w)) ops) (c, k))"
  by (induction ops) (auto simp: blob_from_words_inject [OF assms])

text \<open>
  C17. After any run of state updates and deletions, \<open>query_state\<close> returns for each contract
  and key the value of the last update, nothing after a deletion, and what it returned before
  the run for a key the run does not name.
\<close>

theorem query_state_last_write:
  assumes "db_wf d" and "plan_ok E" and "codec_ok E"
  shows "query_state E (run_state_ops E ops d) c k =
    (case map_of (rev (map (\<lambda>(c, k, w). ((c, k), w)) ops)) (c, k) of
       Some w \<Rightarrow> Ok w
     | None \<Rightarrow> query_state E d c k)"
proof -
  let ?ws = "map (\<lambda>(c, k, w). ((c, blob_from_words E k), map_option (blob_from_words E) w)) ops"
  have "db_wf (run_state_ops E ops d)"
    unfolding run_state_ops_apply using assms(1) by (rule state_table.ok_apply_writes)
  then have "query_state E (run_state_ops E ops d) c k =
      Ok (map_option (words_from_blob E) (state_lookup (run_state_ops E ops d) (c, blob_from_words E k)))"
    by (rule query_state_lookup [OF assms(2)])
  also have "state_lookup (run_state_ops E ops d) (c, blob_from_words E k) =
      (case map_of (rev ?ws) (c, blob_from_words E k) of
         Some w \<Rightarrow> w | None \<Rightarrow> state_lookup d (c, blob_from_words E k))"
    unfolding run_state_ops_apply by (rule state_table.lookup_apply_writes [OF assms(1)])
  also have "map_of (rev ?ws) (c, blob_from_words E k) = map_option (map_option (blob_from_words E))
      (map_of (map (\<lambda>(c, k, w). ((c, k), w)) (rev ops)) (c, k))"
    unfolding rev_map by (rule map_of_coded [OF assms(3)])
  finally show ?thesis
    by (auto simp: rev_map query_state_lookup [OF assms(2,1)] option.map_comp comp_def
        words_from_blob_from_words [OF assms(3)] option.map_ident split: option.split)
qed

lemma query_state_last_write_witness:
  "query_state sample_ext (run_state_ops sample_ext
     [(sample_contract, [1], Some [5]), (sample_contract, [2], Some [6]), (sample_contract, [1], Some [7]),
      (sample_contract, [2], None)] create_tables) sample_contract [1] = Ok (Some [7])"
  using query_state_last_write [OF create_tables_wf sample_plan_ok sample_codec_ok,
      of "[(sample_contract, [1], Some [5]), (sample_contract, [2], Some [6]), (sample_contract, [1], Some [7]),
        (sample_contract, [2], None)]" sample_contract "[1]"]
  by simp

end
