(* ===== verification/RoundTrip.thy ===== *)
theory RoundTrip
  imports DbInv
begin

text \<open>
  What \<open>insert_block\<close> writes and \<open>get_solution_set\<close>, \<open>get_block\<close> and the listings read back:
  the rows of an inserted solution set in closed form, the predicate \<open>set_stored\<close> that a
  later insertion keeps, and the contents of a stored block.
\<close>

section \<open>Rows of an inserted solution set\<close>

definition solution_rows :: "nat \<Rightarrow> nat \<Rightarrow> Solution list \<Rightarrow> solution_row list" where
  "solution_rows base k sols =
     map (\<lambda>(ix, s). \<lparr>sol_id = base + ix, sol_set_id = k, sol_index = ix,
        sol_contract = contract (predicate_to_solve s),
        sol_predicate = predicate (predicate_to_solve s)\<rparr>) (enumerate0 sols)"

definition mutation_rows :: "node_ext \<Rightarrow> nat \<Rightarrow> Mutation list \<Rightarrow> mutation_row list" where
  "mutation_rows E i ms =
     map (\<lambda>(j, m). \<lparr>mu_solution_id = i, mu_index = j, mu_key = blob_from_words E (mut_key m),
        mu_value = blob_from_words E (mut_value m)\<rparr>) (enumerate0 ms)"

definition pred_data_rows :: "node_ext \<Rightarrow> nat \<Rightarrow> Value list \<Rightarrow> pred_data_row list" where
  "pred_data_rows E i vs =
     map (\<lambda>(j, v). \<lparr>pd_solution_id = i, pd_index = j, pd_value = blob_from_words E v\<rparr>)
       (enumerate0 vs)"

definition set_mutation_rows :: "node_ext \<Rightarrow> nat \<Rightarrow> Solution list \<Rightarrow> mutation_row list" where
  "set_mutation_rows E base sols =
     concat (map (\<lambda>(ix, s). mutation_rows E (base + ix) (state_mutations s)) (enumerate0 sols))"

definition set_pred_data_rows :: "node_ext \<Rightarrow> nat \<Rightarrow> Solution list \<Rightarrow> pred_data_row list" where
  "set_pred_data_rows E base sols =
     concat (map (\<lambda>(ix, s). pred_data_rows E (base + ix) (predicate_data s)) (enumerate0 sols))"

lemma set_rows_snoc:
  "solution_rows base k (sols @ [s]) = solution_rows base k sols @
     [\<lparr>sol_id = base + length sols, sol_set_id = k, sol_index = length sols,
       sol_contract = contract (predicate_to_solve s),
       sol_predicate = predicate (predicate_to_solve s)\<rparr>]"
  "set_mutation_rows E base (sols @ [s]) =
     set_mutation_rows E base sols @ mutation_rows E (base + length sols) (state_mutations s)"
  "set_pred_data_rows E base (sols @ [s]) =
     set_pred_data_rows E base sols @ pred_data_rows E (base + length sols) (predicate_data s)"
  by (simp_all add: solution_rows_def set_mutation_rows_def set_pred_data_rows_def enumerate0_snoc)

lemma set_rows_Nil [simp]:
  "solution_rows base k [] = []" "set_mutation_rows E base [] = []" "set_pred_data_rows E base [] = []"
  by (simp_all add: solution_rows_def set_mutation_rows_def set_pred_data_rows_def)

lemma next_rowid_snoc: "next_rowid (ids @ [m]) = max (next_rowid ids) (Suc m)"
  unfolding next_rowid_def by (induction ids) simp_all

lemma map_sol_id_solution_rows:
  "map sol_id (solution_rows base k sols) = map (\<lambda>ix. base + ix) [0..<length sols]"
  by (induction sols rule: rev_induct) (simp_all add: set_rows_snoc)

lemma next_rowid_solution_rows:
  "next_rowid (ids @ map sol_id (solution_rows (next_rowid ids) k sols)) = next_rowid ids + length sols"
proof (induction sols rule: rev_induct)
  case (snoc s sols)
  have "next_rowid ((ids @ map sol_id (solution_rows (next_rowid ids) k sols)) @
      [next_rowid ids + length sols]) = Suc (next_rowid ids + length sols)"
    unfolding next_rowid_snoc snoc by simp
  then show ?case
    by (simp add: set_rows_snoc)
qed simp

section \<open>The loops of \<open>insert_block\<close> in closed form\<close>

lemma solution_id_of_frame [simp]:
  "solution_id_of (d\<lparr>t_mutation := x\<rparr>) = solution_id_of d"
  "solution_id_of (d\<lparr>t_pred_data := y\<rparr>) = solution_id_of d"
  by (simp_all add: solution_id_of_def fun_eq_iff)

lemma insert_mutations_eq:
  assumes "solution_id_of d ca ix = Some i"
  shows "insert_mutations E ca ix ms d = d\<lparr>t_mutation := t_mutation d @ mutation_rows E i ms\<rparr>"
proof -
  have "fold (\<lambda>(j, m). INSERT_MUTATION ca ix j (blob_from_words E (mut_key m))
          (blob_from_words E (mut_value m))) jms d =
      d\<lparr>t_mutation := t_mutation d @ map (\<lambda>(j, m). \<lparr>mu_solution_id = i, mu_index = j,
          mu_key = blob_from_words E (mut_key m), mu_value = blob_from_words E (mut_value m)\<rparr>) jms\<rparr>"
    if "solution_id_of d ca ix = Some i" for d jms
    using that by (induction jms arbitrary: d) (auto simp: INSERT_MUTATION_def)
  with assms show ?thesis
    by (simp add: insert_mutations_def mutation_rows_def)
qed

lemma insert_pred_data_eq:
  assumes "solution_id_of d ca ix = Some i"
  shows "insert_pred_data E ca ix vs d = d\<lparr>t_pred_data := t_pred_data d @ pred_data_rows E i vs\<rparr>"
proof -
  have "fold (\<lambda>(j, v). INSERT_PRED_DATA ca ix j (blob_from_words E v)) jvs d =
      d\<lparr>t_pred_data := t_pred_data d @ map (\<lambda>(j, v). \<lparr>pd_solution_id = i, pd_index = j,
          pd_value = blob_from_words E v\<rparr>) jvs\<rparr>"
    if "solution_id_of d ca ix = Some i" for d jvs
    using that by (induction jvs arbitrary: d) (auto simp: INSERT_PRED_DATA_def)
  with assms show ?thesis
    by (simp add: insert_pred_data_def pred_data_rows_def)
qed

lemma set_id_of_frame [simp]:
  "set_id_of (d\<lparr>t_block := x0\<rparr>) = set_id_of d"
  "set_id_of (d\<lparr>t_block_solution_set := x1\<rparr>) = set_id_of d"
  "set_id_of (d\<lparr>t_solution := x2\<rparr>) = set_id_of d"
  "set_id_of (d\<lparr>t_mutation := x3\<rparr>) = set_id_of d"
  "set_id_of (d\<lparr>t_pred_data := x4\<rparr>) = set_id_of d"
  by (simp_all add: set_id_of_def fun_eq_iff)

lemma insert_solution_eq:
  assumes "db_wf d" and k: "set_id_of d ca = Some k"
    and fresh: "(k, ix) \<notin> (\<lambda>s. (sol_set_id s, sol_index s)) ` set (t_solution d)"
    and i: "i = next_rowid (map sol_id (t_solution d))"
  shows "insert_solution E ca ix s d =
    d\<lparr>t_solution := t_solution d @
        [\<lparr>sol_id = i, sol_set_id = k, sol_index = ix,
          sol_contract = contract (predicate_to_solve s),
          sol_predicate = predicate (predicate_to_solve s)\<rparr>],
      t_mutation := t_mutation d @ mutation_rows E i (state_mutations s),
      t_pred_data := t_pred_data d @ pred_data_rows E i (predicate_data s)\<rparr>"
proof -
  let ?d = "INSERT_SOLUTION ca ix (contract (predicate_to_solve s))
      (predicate (predicate_to_solve s)) d"
  have d: "?d = d\<lparr>t_solution := t_solution d @
        [\<lparr>sol_id = i, sol_set_id = k, sol_index = ix,
          sol_contract = contract (predicate_to_solve s),
          sol_predicate = predicate (predicate_to_solve s)\<rparr>]\<rparr>"
    using fresh k by (simp add: INSERT_SOLUTION_def i insert_or_ignore_fresh)
  have "solution_tables_wf ?d"
    using assms(1) INSERT_SOLUTION_wf db_wf_D(2) by blast
  moreover have "set_id_of ?d ca = Some k"
    unfolding d by (simp add: k)
  ultimately have "solution_id_of ?d ca ix = Some i"
    by (simp add: solution_id_of_Some) (simp add: d)
  then show ?thesis
    unfolding insert_solution_def by (simp add: insert_mutations_eq insert_pred_data_eq d)
qed

lemma insert_solutions_eq:
  assumes "db_wf d" and "set_id_of d ca = Some k"
    and "k \<notin> sol_set_id ` set (t_solution d)"
    and base: "base = next_rowid (map sol_id (t_solution d))"
  shows "fold (\<lambda>(ix, s). insert_solution E ca ix s) (enumerate0 sols) d =
    d\<lparr>t_solution := t_solution d @ solution_rows base k sols,
      t_mutation := t_mutation d @ set_mutation_rows E base sols,
      t_pred_data := t_pred_data d @ set_pred_data_rows E base sols\<rparr>"
proof (induction sols rule: rev_induct)
  case (snoc s sols)
  let ?d = "d\<lparr>t_solution := t_solution d @ solution_rows base k sols,
      t_mutation := t_mutation d @ set_mutation_rows E base sols,
      t_pred_data := t_pred_data d @ set_pred_data_rows E base sols\<rparr>"
  have "db_wf ?d"
    unfolding snoc [symmetric] using assms(1)
    by (rule fold_invariant [rotated]) (auto intro: insert_solution_wf)
  moreover have "(k, length sols) \<notin> (\<lambda>s. (sol_set_id s, sol_index s)) ` set (t_solution ?d)"
  proof
    assume "(k, length sols) \<in> (\<lambda>s. (sol_set_id s, sol_index s)) ` set (t_solution ?d)"
    then obtain r where "r \<in> set (solution_rows base k sols)" "sol_index r = length sols"
      using assms(3) by auto
    then show False
      by (auto simp: solution_rows_def in_set_enumerate0)
  qed
  moreover have "base + length sols = next_rowid (map sol_id (t_solution ?d))"
    by (simp add: base next_rowid_solution_rows)
  ultimately have "insert_solution E ca (length sols) s ?d = ?d
    \<lparr>t_solution := t_solution ?d @
        [\<lparr>sol_id = base + length sols, sol_set_id = k, sol_index = length sols,
          sol_contract = contract (predicate_to_solve s),
          sol_predicate = predicate (predicate_to_solve s)\<rparr>],
      t_mutation := t_mutation ?d @ mutation_rows E (base + length sols) (state_mutations s),
      t_pred_data := t_pred_data ?d @ pred_data_rows E (base + length sols) (predicate_data s)\<rparr>"
    using assms(2) by (intro insert_solution_eq) simp_all
  with snoc show ?case
    by (simp add: enumerate0_snoc set_rows_snoc)
qed simp

lemma set_id_of_append_fresh:
  "ca \<notin> ss_addr ` set (t_solution_set d) \<Longrightarrow>
   set_id_of (d\<lparr>t_solution_set := t_solution_set d @ [\<lparr>ss_id = k, ss_addr = ca\<rparr>]\<rparr>) ca = Some k"
proof -
  assume "ca \<notin> ss_addr ` set (t_solution_set d)"
  then have "filter (\<lambda>r. ss_addr r = ca) (t_solution_set d) = []"
    by (auto simp: filter_empty_conv)
  then show ?thesis by (simp add: set_id_of_def)
qed

lemma set_id_of_append:
  "set_id_of d ca = Some k \<Longrightarrow>
   set_id_of (d\<lparr>t_solution_set := t_solution_set d @ rs\<rparr>) ca = Some k"
  by (cases "filter (\<lambda>r. ss_addr r = ca) (t_solution_set d)") (auto simp: set_id_of_def)

lemma block_id_of_frame [simp]:
  "block_id_of (d\<lparr>t_solution_set := x0\<rparr>) = block_id_of d"
  "block_id_of (d\<lparr>t_block_solution_set := x1\<rparr>) = block_id_of d"
  "block_id_of (d\<lparr>t_solution := x2\<rparr>) = block_id_of d"
  "block_id_of (d\<lparr>t_mutation := x3\<rparr>) = block_id_of d"
  "block_id_of (d\<lparr>t_pred_data := x4\<rparr>) = block_id_of d"
  by (simp_all add: block_id_of_def block_of_address_def fun_eq_iff)

lemma insert_solution_set_eq:
  assumes wf: "db_wf d" and bid: "block_id_of d a = Some bid"
    and fresh: "ca \<notin> ss_addr ` set (t_solution_set d)"
    and k: "k = next_rowid (map ss_id (t_solution_set d))"
    and base: "base = next_rowid (map sol_id (t_solution d))"
  shows "insert_solution_set E a ix s ca d =
    d\<lparr>t_solution_set := t_solution_set d @ [\<lparr>ss_id = k, ss_addr = ca\<rparr>],
      t_block_solution_set := t_block_solution_set d @
        [\<lparr>bss_block_id = bid, bss_set_id = k, bss_index = ix\<rparr>],
      t_solution := t_solution d @ solution_rows base k (solutions s),
      t_mutation := t_mutation d @ set_mutation_rows E base (solutions s),
      t_pred_data := t_pred_data d @ set_pred_data_rows E base (solutions s)\<rparr>"
proof -
  let ?d1 = "d\<lparr>t_solution_set := t_solution_set d @ [\<lparr>ss_id = k, ss_addr = ca\<rparr>]\<rparr>"
  let ?l = "\<lparr>bss_block_id = bid, bss_set_id = k, bss_index = ix\<rparr>"
  let ?d2 = "?d1\<lparr>t_block_solution_set := t_block_solution_set d @ [?l]\<rparr>"
  have d1: "INSERT_SOLUTION_SET ca d = ?d1"
    using fresh by (simp add: INSERT_SOLUTION_SET_def k insert_or_ignore_fresh)
  have kf: "k \<notin> ss_id ` set (t_solution_set d)"
    by (simp add: k)
  then have "k \<notin> bss_set_id ` set (t_block_solution_set d)"
    using db_wf_D(3) [OF wf] unfolding block_solution_set_wf_def by blast
  then have "?l \<notin> set (t_block_solution_set d)"
    by force
  moreover have sid: "set_id_of ?d1 ca = Some k"
    using fresh by (rule set_id_of_append_fresh)
  ultimately have d2: "INSERT_BLOCK_SOLUTION_SET a ca ix ?d1 = ?d2"
    by (simp add: INSERT_BLOCK_SOLUTION_SET_def bid insert_or_ignore_fresh)
  have "db_wf ?d2"
    using INSERT_BLOCK_SOLUTION_SET_wf INSERT_SOLUTION_SET_wf [OF wf] d1 d2 by metis
  moreover have "set_id_of ?d2 ca = Some k"
    using sid by simp
  moreover have "k \<notin> sol_set_id ` set (t_solution ?d2)"
    using kf db_wf_D(2) [OF wf] unfolding solution_tables_wf_def by (simp, blast)
  ultimately have "fold (\<lambda>(ix, s). insert_solution E ca ix s) (enumerate0 (solutions s)) ?d2 =
    ?d2\<lparr>t_solution := t_solution ?d2 @ solution_rows base k (solutions s),
      t_mutation := t_mutation ?d2 @ set_mutation_rows E base (solutions s),
      t_pred_data := t_pred_data ?d2 @ set_pred_data_rows E base (solutions s)\<rparr>"
    using base by (intro insert_solutions_eq) simp_all
  then show ?thesis
    unfolding insert_solution_set_def d1 d2 by simp
qed

lemma map_rows [simp]:
  "map (\<lambda>m. (mu_key m, mu_value m)) (mutation_rows E i ms) =
     map (\<lambda>m. (blob_from_words E (mut_key m), blob_from_words E (mut_value m))) ms"
  "map pd_value (pred_data_rows E i vs) = map (blob_from_words E) vs"
  "map (\<lambda>r. (sol_contract r, sol_predicate r)) (solution_rows base k sols) =
     map (\<lambda>s. (contract (predicate_to_solve s), predicate (predicate_to_solve s))) sols"
  "map sol_index (solution_rows base k sols) = [0..<length sols]"
proof -
  show "map (\<lambda>m. (mu_key m, mu_value m)) (mutation_rows E i ms) =
     map (\<lambda>m. (blob_from_words E (mut_key m), blob_from_words E (mut_value m))) ms"
    by (induction ms rule: rev_induct) (simp_all add: mutation_rows_def enumerate0_snoc)
  show "map pd_value (pred_data_rows E i vs) = map (blob_from_words E) vs"
    by (induction vs rule: rev_induct) (simp_all add: pred_data_rows_def enumerate0_snoc)
  show "map (\<lambda>r. (sol_contract r, sol_predicate r)) (solution_rows base k sols) =
     map (\<lambda>s. (contract (predicate_to_solve s), predicate (predicate_to_solve s))) sols"
    by (induction sols rule: rev_induct) (simp_all add: set_rows_snoc)
  show "map sol_index (solution_rows base k sols) = [0..<length sols]"
    by (induction sols rule: rev_induct) (simp_all add: set_rows_snoc)
qed

section \<open>Stored solution sets\<close>

text \<open>
  The solutions of \<open>s\<close>, and no others, are stored under the address \<open>ca\<close>, with their mutations
  and predicate data in the order of \<open>s\<close>.
\<close>

definition set_stored :: "node_ext \<Rightarrow> db \<Rightarrow> ContentAddress \<Rightarrow> SolutionSet \<Rightarrow> bool" where
  "set_stored E d ca s \<longleftrightarrow> (\<exists>k base. set_id_of d ca = Some k \<and>
     filter (\<lambda>r. sol_set_id r = k) (t_solution d) = solution_rows base k (solutions s) \<and>
     (\<forall>ix < length (solutions s).
        map (\<lambda>m. (mu_key m, mu_value m)) (filter (\<lambda>m. mu_solution_id m = base + ix) (t_mutation d)) =
          map (\<lambda>m. (blob_from_words E (mut_key m), blob_from_words E (mut_value m)))
            (state_mutations (solutions s ! ix)) \<and>
        map pd_value (filter (\<lambda>p. pd_solution_id p = base + ix) (t_pred_data d)) =
          map (blob_from_words E) (predicate_data (solutions s ! ix))))"

lemma mu_solution_id_rows: "m \<in> set (mutation_rows E i ms) \<Longrightarrow> mu_solution_id m = i"
  by (auto simp: mutation_rows_def)

lemma pd_solution_id_rows: "p \<in> set (pred_data_rows E i vs) \<Longrightarrow> pd_solution_id p = i"
  by (auto simp: pred_data_rows_def)

lemma set_rows_bounds:
  "m \<in> set (set_mutation_rows E base sols) \<Longrightarrow>
    base \<le> mu_solution_id m \<and> mu_solution_id m < base + length sols"
  "p \<in> set (set_pred_data_rows E base sols) \<Longrightarrow>
    base \<le> pd_solution_id p \<and> pd_solution_id p < base + length sols"
  "r \<in> set (solution_rows base k sols) \<Longrightarrow> sol_set_id r = k"
  by (auto simp: set_mutation_rows_def set_pred_data_rows_def solution_rows_def in_set_enumerate0
      dest!: mu_solution_id_rows pd_solution_id_rows)

lemma filter_set_mutation_rows:
  "ix < length sols \<Longrightarrow>
   filter (\<lambda>m. mu_solution_id m = base + ix) (set_mutation_rows E base sols) =
     mutation_rows E (base + ix) (state_mutations (sols ! ix))"
proof (induction sols rule: rev_induct)
  case (snoc s sols)
  have all: "filter (\<lambda>m. mu_solution_id m = i) (mutation_rows E j ms) =
      (if i = j then mutation_rows E j ms else [])" for i j ms
    by (auto simp: filter_empty_conv filter_id_conv dest: mu_solution_id_rows)
  show ?case
  proof (cases "ix = length sols")
    case True
    have "filter (\<lambda>m. mu_solution_id m = base + ix) (set_mutation_rows E base sols) = []"
      using True set_rows_bounds(1) [of _ E base sols] by (fastforce simp: filter_empty_conv)
    with True show ?thesis by (simp add: set_rows_snoc all)
  next
    case False
    with snoc show ?thesis by (simp add: set_rows_snoc all nth_append)
  qed
qed simp

lemma filter_set_pred_data_rows:
  "ix < length sols \<Longrightarrow>
   filter (\<lambda>p. pd_solution_id p = base + ix) (set_pred_data_rows E base sols) =
     pred_data_rows E (base + ix) (predicate_data (sols ! ix))"
proof (induction sols rule: rev_induct)
  case (snoc s sols)
  have all: "filter (\<lambda>p. pd_solution_id p = i) (pred_data_rows E j vs) =
      (if i = j then pred_data_rows E j vs else [])" for i j vs
    by (auto simp: filter_empty_conv filter_id_conv dest: pd_solution_id_rows)
  show ?case
  proof (cases "ix = length sols")
    case True
    have "filter (\<lambda>p. pd_solution_id p = base + ix) (set_pred_data_rows E base sols) = []"
      using True set_rows_bounds(2) [of _ E base sols] by (fastforce simp: filter_empty_conv)
    with True show ?thesis by (simp add: set_rows_snoc all)
  next
    case False
    with snoc show ?thesis by (simp add: set_rows_snoc all nth_append)
  qed
qed simp

lemma references_below:
  assumes "solution_tables_wf d"
  shows "m \<in> set (t_mutation d) \<Longrightarrow> mu_solution_id m < next_rowid (map sol_id (t_solution d))"
    and "p \<in> set (t_pred_data d) \<Longrightarrow> pd_solution_id p < next_rowid (map sol_id (t_solution d))"
    and "r \<in> set (t_solution d) \<Longrightarrow> sol_set_id r < next_rowid (map ss_id (t_solution_set d))"
  using assms unfolding solution_tables_wf_def
  by (auto intro!: next_rowid_greater)

lemma set_stored_inserted:
  assumes wf: "db_wf d" and bid: "block_id_of d a = Some bid"
    and fresh: "ca \<notin> ss_addr ` set (t_solution_set d)"
  shows "set_stored E (insert_solution_set E a ix s ca d) ca s"
proof -
  define k where "k = next_rowid (map ss_id (t_solution_set d))"
  define base where "base = next_rowid (map sol_id (t_solution d))"
  let ?d = "insert_solution_set E a ix s ca d"
  note eq = insert_solution_set_eq [OF wf bid fresh k_def base_def, of E ix s]
  note below = references_below [OF db_wf_D(2) [OF wf], folded k_def base_def]
  have "set_id_of ?d ca = Some k"
    using set_id_of_append_fresh [OF fresh, of k] by (simp add: eq)
  moreover have "filter (\<lambda>r. sol_set_id r = k) (t_solution ?d) = solution_rows base k (solutions s)"
    using below(3) set_rows_bounds(3) [of _ base k "solutions s"]
    by (fastforce simp: eq filter_empty_conv filter_id_conv)
  moreover have "filter (\<lambda>m. mu_solution_id m = base + ix) (t_mutation d) = []"
    "filter (\<lambda>p. pd_solution_id p = base + ix) (t_pred_data d) = []" for ix
    using below(1,2) by (fastforce simp: filter_empty_conv)+
  ultimately show ?thesis
    unfolding set_stored_def
    by (intro exI [of _ k] exI [of _ base])
      (simp add: eq filter_set_mutation_rows filter_set_pred_data_rows)
qed

lemma set_stored_kept:
  assumes wf: "db_wf d" and bid: "block_id_of d a = Some bid"
    and fresh: "ca' \<notin> ss_addr ` set (t_solution_set d)" and stored: "set_stored E d ca s"
  shows "set_stored E (insert_solution_set E a ix s' ca' d) ca s"
proof -
  define k' where "k' = next_rowid (map ss_id (t_solution_set d))"
  define base' where "base' = next_rowid (map sol_id (t_solution d))"
  let ?d = "insert_solution_set E a ix s' ca' d"
  note eq = insert_solution_set_eq [OF wf bid fresh k'_def base'_def, of E ix s']
  from stored obtain k base where k: "set_id_of d ca = Some k"
    and sols: "filter (\<lambda>r. sol_set_id r = k) (t_solution d) = solution_rows base k (solutions s)"
    and rows: "\<forall>ix < length (solutions s).
        map (\<lambda>m. (mu_key m, mu_value m)) (filter (\<lambda>m. mu_solution_id m = base + ix) (t_mutation d)) =
          map (\<lambda>m. (blob_from_words E (mut_key m), blob_from_words E (mut_value m)))
            (state_mutations (solutions s ! ix)) \<and>
        map pd_value (filter (\<lambda>p. pd_solution_id p = base + ix) (t_pred_data d)) =
          map (blob_from_words E) (predicate_data (solutions s ! ix))"
    unfolding set_stored_def by blast
  have "k \<in> ss_id ` set (t_solution_set d)"
    using k db_wf_D(2) [OF wf] by (auto simp: set_id_of_Some)
  then have "k \<noteq> k'"
    unfolding k'_def by (metis next_rowid_fresh_image)
  then have none: "filter (\<lambda>r. sol_set_id r = k) (solution_rows base' k' (solutions s')) = []"
    using set_rows_bounds(3) by (fastforce simp: filter_empty_conv)
  have below: "base + j < base'" if "j < length (solutions s)" for j
  proof -
    have "base + j \<in> set (map sol_id (solution_rows base k (solutions s)))"
      using that by (simp add: map_sol_id_solution_rows)
    then have "base + j \<in> set (map sol_id (t_solution d))"
      unfolding sols [symmetric] by auto
    then show ?thesis
      unfolding base'_def by (rule next_rowid_greater)
  qed
  have "filter (\<lambda>m. mu_solution_id m = base + j) (set_mutation_rows E base' (solutions s')) = []"
    "filter (\<lambda>p. pd_solution_id p = base + j) (set_pred_data_rows E base' (solutions s')) = []"
    if "j < length (solutions s)" for j
    using below [OF that] set_rows_bounds(1,2) [of _ E base' "solutions s'"]
    by (fastforce simp: filter_empty_conv)+
  with rows none sols show ?thesis
    unfolding set_stored_def
    by (intro exI [of _ k] exI [of _ base]) (simp add: eq set_id_of_append [OF k])
qed

section \<open>Reading a stored solution set\<close>

lemma set_solutions_eq:
  assumes "solution_tables_wf d" and "set_id_of d ca = Some k"
  shows "set_solutions d ca = filter (\<lambda>r. sol_set_id r = k) (t_solution d)"
proof -
  obtain r where r: "r \<in> set (t_solution_set d)" "ss_addr r = ca" "ss_id r = k"
    using assms by (auto simp: set_id_of_Some)
  have eq: "concat (map (\<lambda>s. if sol_set_id s = j then [s] else []) xs)
      = filter (\<lambda>r. sol_set_id r = j) xs" for j xs
    by (induction xs) auto
  show ?thesis
    using concat_map_unique [of ss_addr "t_solution_set d" r
        "\<lambda>ss. concat (map (\<lambda>s. if sol_set_id s = ss_id ss then [s] else []) (t_solution d))"]
      r assms(1)
    by (simp add: set_solutions_def solution_tables_wf_def eq)
qed

lemma scan_map: "plan_ok E \<Longrightarrow> scan E d q (map f xs) = map f (scan E d q xs)"
proof -
  assume "plan_ok E"
  then have "mset (plan E d q (length xs)) = mset [0..<length xs]"
    by (simp add: plan_ok_def)
  then have "set (plan E d q (length xs)) = {0..<length xs}"
    by (metis set_mset_mset set_upt)
  then show ?thesis
    by (auto simp: scan_def)
qed

lemma sort_key_sorted: "sorted (map k xs) \<Longrightarrow> sort_key k xs = xs"
  by (rule properties_for_sort_key) simp_all

text \<open>
  A solution set with the mutations and the predicate data of each solution in the order in
  which the database returns them.
\<close>

definition as_scanned :: "node_ext \<Rightarrow> db \<Rightarrow> ContentAddress \<Rightarrow> SolutionSet \<Rightarrow> SolutionSet" where
  "as_scanned E d ca s =
     \<lparr>solutions = map (\<lambda>(ix, sol). sol
        \<lparr>predicate_data := scan E d (GET_SOLUTION_PRED_DATA ca ix) (predicate_data sol),
         state_mutations := scan E d (GET_SOLUTION_MUTATIONS ca ix) (state_mutations sol)\<rparr>)
        (enumerate0 (solutions s))\<rparr>"

text \<open>The parts of each solution are a permutation of those that were stored.\<close>

definition solution_perm :: "Solution \<Rightarrow> Solution \<Rightarrow> bool" where
  "solution_perm s t \<longleftrightarrow> predicate_to_solve s = predicate_to_solve t \<and>
     mset (predicate_data s) = mset (predicate_data t) \<and>
     mset (state_mutations s) = mset (state_mutations t)"

lemma as_scanned_perm:
  "plan_ok E \<Longrightarrow> list_all2 solution_perm (solutions (as_scanned E d ca s)) (solutions s)"
  by (auto simp: as_scanned_def list_all2_conv_all_nth enumerate0_def solution_perm_def mset_scan)

lemma enumerate0_map: "enumerate0 (map f xs) = map (\<lambda>(i, x). (i, f x)) (enumerate0 xs)"
  by (simp add: enumerate0_def zip_map2)

lemma nth_solution_row:
  "ix < length sols \<Longrightarrow> filter (\<lambda>r. sol_index r = ix) (solution_rows base k sols) =
     [\<lparr>sol_id = base + ix, sol_set_id = k, sol_index = ix,
       sol_contract = contract (predicate_to_solve (sols ! ix)),
       sol_predicate = predicate (predicate_to_solve (sols ! ix))\<rparr>]"
proof (induction sols rule: rev_induct)
  case (snoc s sols)
  have "filter (\<lambda>r. sol_index r = length sols) (solution_rows base k sols) = []"
    by (auto simp: filter_empty_conv solution_rows_def in_set_enumerate0)
  with snoc show ?case
    by (cases "ix = length sols") (auto simp: set_rows_snoc nth_append)
qed simp

lemma get_solution_set_stored:
  assumes wf: "solution_tables_wf d" and plan: "plan_ok E" and codec: "codec_ok E"
    and stored: "set_stored E d ca s"
  shows "get_solution_set E d ca = Ok (as_scanned E d ca s)"
proof -
  from stored obtain k base where k: "set_id_of d ca = Some k"
    and sols: "filter (\<lambda>r. sol_set_id r = k) (t_solution d) = solution_rows base k (solutions s)"
    and rows: "\<forall>ix < length (solutions s).
        map (\<lambda>m. (mu_key m, mu_value m)) (filter (\<lambda>m. mu_solution_id m = base + ix) (t_mutation d)) =
          map (\<lambda>m. (blob_from_words E (mut_key m), blob_from_words E (mut_value m)))
            (state_mutations (solutions s ! ix)) \<and>
        map pd_value (filter (\<lambda>p. pd_solution_id p = base + ix) (t_pred_data d)) =
          map (blob_from_words E) (predicate_data (solutions s ! ix))"
    unfolding set_stored_def by blast
  have ss: "set_solutions d ca = solution_rows base k (solutions s)"
    using set_solutions_eq [OF wf k] sols by simp
  have "inj_on sol_index (set (solution_rows base k (solutions s)))"
    using map_rows(4) [of base k "solutions s"] by (metis distinct_map distinct_upt)
  then have gs: "run_GET_SOLUTION E d ca =
      map (\<lambda>s. (contract (predicate_to_solve s), predicate (predicate_to_solve s))) (solutions s)"
    by (simp add: run_GET_SOLUTION_def ss order_by_inj [OF plan] sort_key_sorted)
  have flt: "concat (map (\<lambda>m. if P m then [g m] else []) xs) = map g (filter P xs)"
    for P and g :: "'r \<Rightarrow> 'c" and xs
    by (induction xs) auto
  have sol: "get_solution E d ca ix
      (contract (predicate_to_solve t), predicate (predicate_to_solve t)) =
      t\<lparr>predicate_data := scan E d (GET_SOLUTION_PRED_DATA ca ix) (predicate_data t),
         state_mutations := scan E d (GET_SOLUTION_MUTATIONS ca ix) (state_mutations t)\<rparr>"
    if ix: "ix < length (solutions s)" and t: "solutions s ! ix = t" for ix t
  proof -
    have mu: "run_GET_SOLUTION_MUTATIONS E d ca ix = scan E d (GET_SOLUTION_MUTATIONS ca ix)
        (map (\<lambda>m. (blob_from_words E (mut_key m), blob_from_words E (mut_value m))) (state_mutations t))"
      using rows ix t
      by (simp add: run_GET_SOLUTION_MUTATIONS_def ss concat_map_filter nth_solution_row flt)
    have pd: "run_GET_SOLUTION_PRED_DATA E d ca ix = scan E d (GET_SOLUTION_PRED_DATA ca ix)
        (map (blob_from_words E) (predicate_data t))"
      using rows ix t
      by (simp add: run_GET_SOLUTION_PRED_DATA_def ss concat_map_filter nth_solution_row flt)
    have eta: "\<lparr>mut_key = mut_key m, mut_value = mut_value m\<rparr> = m" for m :: Mutation
      by (cases m) simp
    show ?thesis
      by (intro Solution.equality PredicateAddress.equality)
        (simp_all add: get_solution_def mu pd scan_map [OF plan] comp_def
          words_from_blob_from_words [OF codec] eta)
  qed
  have "map (\<lambda>(ix, r). get_solution E d ca ix r) (enumerate0 (run_GET_SOLUTION E d ca)) =
      solutions (as_scanned E d ca s)"
    unfolding gs enumerate0_map as_scanned_def
    by (auto simp: in_set_enumerate0 intro!: sol)
  then show ?thesis
    by (simp add: get_solution_set_def as_scanned_def)
qed

section \<open>The loop over the solution sets of a block\<close>

abbreviation insert_sets ::
  "node_ext \<Rightarrow> ContentAddress \<Rightarrow> (SolutionSet \<times> ContentAddress) list \<Rightarrow> db \<Rightarrow> db" where
  "insert_sets E a xs \<equiv>
     fold (\<lambda>(ix, (sset, ca)). insert_solution_set E a ix sset ca) (enumerate0 xs)"

definition link_rows :: "nat \<Rightarrow> nat list \<Rightarrow> block_solution_set_row list" where
  "link_rows bid ks =
     map (\<lambda>(i, k). \<lparr>bss_block_id = bid, bss_set_id = k, bss_index = i\<rparr>) (enumerate0 ks)"

lemma link_rows_snoc:
  "link_rows bid (ks @ [k]) =
     link_rows bid ks @ [\<lparr>bss_block_id = bid, bss_set_id = k, bss_index = length ks\<rparr>]"
  by (simp add: link_rows_def enumerate0_snoc)

lemma insert_sets_wf: "db_wf d \<Longrightarrow> db_wf (insert_sets E a xs d)"
  by (rule fold_invariant [rotated]) (auto intro: insert_solution_set_wf)

text \<open>What has been written once the sets \<open>xs\<close> of the block with id \<open>bid\<close> are inserted.\<close>

definition sets_inserted ::
  "node_ext \<Rightarrow> db \<Rightarrow> nat \<Rightarrow> (SolutionSet \<times> ContentAddress) list \<Rightarrow> db \<Rightarrow> bool" where
  "sets_inserted E d bid xs d' \<longleftrightarrow>
     t_block d' = t_block d \<and>
     ss_addr ` set (t_solution_set d') = ss_addr ` set (t_solution_set d) \<union> snd ` set xs \<and>
     (\<forall>ca k. set_id_of d ca = Some k \<longrightarrow> set_id_of d' ca = Some k) \<and>
     (\<forall>ca s. set_stored E d ca s \<longrightarrow> set_stored E d' ca s) \<and>
     (\<forall>(s, ca) \<in> set xs. set_stored E d' ca s) \<and>
     (\<exists>ks. map (\<lambda>x. set_id_of d' (snd x)) xs = map Some ks \<and>
        t_block_solution_set d' = t_block_solution_set d @ link_rows bid ks)"

lemma sets_inserted_links:
  assumes "sets_inserted E d bid xs d'"
  obtains ks where "map (\<lambda>x. set_id_of d' (snd x)) xs = map Some ks"
    "t_block_solution_set d' = t_block_solution_set d @ link_rows bid ks"
  using assms unfolding sets_inserted_def by (elim conjE exE)

lemma sets_inserted_D:
  assumes "sets_inserted E d bid xs d'"
  shows "t_block d' = t_block d"
    and "ss_addr ` set (t_solution_set d') = ss_addr ` set (t_solution_set d) \<union> snd ` set xs"
    and "set_id_of d ca = Some k \<Longrightarrow> set_id_of d' ca = Some k"
    and "set_stored E d ca s \<Longrightarrow> set_stored E d' ca s"
    and "(s, ca) \<in> set xs \<Longrightarrow> set_stored E d' ca s"
  using assms unfolding sets_inserted_def by (elim conjE, simp; fail | elim conjE, blast)+

lemma sets_inserted_Nil: "sets_inserted E d bid [] d"
  by (simp add: sets_inserted_def link_rows_def)

lemma sets_inserted_snoc:
  assumes wf: "db_wf d'" and bid: "block_id_of d' a = Some bid"
    and fresh: "ca \<notin> ss_addr ` set (t_solution_set d')" and ins: "sets_inserted E d bid xs d'"
  shows "sets_inserted E d bid (xs @ [(s, ca)]) (insert_solution_set E a (length xs) s ca d')"
proof -
  define k where "k = next_rowid (map ss_id (t_solution_set d'))"
  define base where "base = next_rowid (map sol_id (t_solution d'))"
  let ?d = "insert_solution_set E a (length xs) s ca d'"
  note eq = insert_solution_set_eq [OF wf bid fresh k_def base_def, of E "length xs" s]
  from ins obtain ks where ks: "map (\<lambda>x. set_id_of d' (snd x)) xs = map Some ks"
    and links: "t_block_solution_set d' = t_block_solution_set d @ link_rows bid ks"
    by (rule sets_inserted_links)
  note frame = sets_inserted_D(1,2) [OF ins]
    and ids = sets_inserted_D(3) [OF ins] and stored = sets_inserted_D(4,5) [OF ins]
  have id: "set_id_of ?d ca' = Some j" if "set_id_of d' ca' = Some j" for ca' j
    by (simp add: eq set_id_of_append [OF that])
  have new: "set_id_of ?d ca = Some k"
    using set_id_of_append_fresh [OF fresh] by (simp add: eq)
  have "map (\<lambda>x. set_id_of ?d (snd x)) xs = map Some ks"
    using ks id by (auto simp: list_eq_iff_nth_eq)
  moreover have "length ks = length xs"
    using ks map_eq_imp_length_eq by fastforce
  ultimately have "\<exists>ks. map (\<lambda>x. set_id_of ?d (snd x)) (xs @ [(s, ca)]) = map Some ks \<and>
      t_block_solution_set ?d = t_block_solution_set d @ link_rows bid ks"
    using new by (intro exI [of _ "ks @ [k]"]) (simp add: link_rows_snoc links eq)
  moreover have "t_block ?d = t_block d"
    "ss_addr ` set (t_solution_set ?d) = ss_addr ` set (t_solution_set d) \<union> snd ` set (xs @ [(s, ca)])"
    using frame by (auto simp: eq)
  moreover have "set_stored E ?d ca s"
    by (rule set_stored_inserted [OF wf bid fresh])
  moreover have "set_stored E ?d ca' s'" if "set_stored E d' ca' s'" for ca' s'
    by (rule set_stored_kept [OF wf bid fresh that])
  ultimately show ?thesis
    using ids stored id unfolding sets_inserted_def by auto
qed

lemma insert_sets_inserted:
  assumes "db_wf d" and "block_id_of d a = Some bid"
    and "distinct (map snd xs)" and "\<forall>x \<in> set xs. snd x \<notin> ss_addr ` set (t_solution_set d)"
  shows "sets_inserted E d bid xs (insert_sets E a xs d)"
  using assms(3,4)
proof (induction xs rule: rev_induct)
  case (snoc x xs)
  obtain s ca where x: "x = (s, ca)" by (cases x)
  let ?d = "insert_sets E a xs d"
  have ins: "sets_inserted E d bid xs ?d"
    using snoc by simp
  then have "block_id_of ?d a = Some bid"
    and addrs: "ss_addr ` set (t_solution_set ?d) = ss_addr ` set (t_solution_set d) \<union> snd ` set xs"
    using assms(2) by (simp_all add: sets_inserted_def block_id_of_def block_of_address_def)
  moreover have "ca \<notin> ss_addr ` set (t_solution_set ?d)"
    unfolding addrs using snoc.prems by (auto simp: x)
  ultimately show ?case
    using sets_inserted_snoc [OF insert_sets_wf [OF assms(1)] _ _ ins, of a ca s]
    by (simp add: enumerate0_snoc x)
qed (simp add: sets_inserted_Nil)

section \<open>Stored blocks\<close>

text \<open>The block with address \<open>a\<close> is stored with header \<open>h\<close> and the solution sets at \<open>cas\<close>.\<close>

definition block_links :: "db \<Rightarrow> nat \<Rightarrow> block_solution_set_row list" where
  "block_links d bid = filter (\<lambda>l. bss_block_id l = bid) (t_block_solution_set d)"

definition block_stored :: "db \<Rightarrow> block_row \<Rightarrow> Header \<Rightarrow> ContentAddress list \<Rightarrow> bool" where
  "block_stored d r h cas \<longleftrightarrow>
     r \<in> set (t_block d) \<and> header_of_row r = Ok h \<and>
     (\<exists>ks. map (set_id_of d) cas = map Some ks \<and> block_links d (blk_id r) = link_rows (blk_id r) ks)"

lemma insert_block_stored:
  assumes wf: "db_wf d" and ins: "insert_block E b d = (Ok a, d')"
    and fresh: "content_addr_block E b \<notin> blk_address ` set (t_block d)"
    and cas: "cas = map (content_addr_solution_set E) (solution_sets b)"
    and sets: "distinct cas" "\<forall>ca \<in> set cas. ca \<notin> ss_addr ` set (t_solution_set d)"
    and dur: "duration_ok (timestamp (header b))"
  shows "a = content_addr_block E b"
    and "\<exists>r. block_stored d' r (header b) cas \<and> blk_address r = a \<and>
      blk_id r \<notin> blk_id ` set (t_block d) \<and> db_wf (d\<lparr>t_block := t_block d @ [r]\<rparr>) \<and>
      d' = insert_sets E a (zip (solution_sets b) cas) (d\<lparr>t_block := t_block d @ [r]\<rparr>)"
    and "\<forall>s \<in> set (solution_sets b). set_stored E d' (content_addr_solution_set E s) s"
proof -
  let ?h = "header b" and ?secs = "as_secs (timestamp (header b))"
  let ?nanos = "ucast (subsec_nanos (timestamp (header b))) :: 64 word"
  let ?xs = "zip (solution_sets b) cas"
  have small: "unat ?secs < 2 ^ 63"
    and eq: "insert_block E b d = (Ok (content_addr_block E b), insert_sets E (content_addr_block E b)
        ?xs (INSERT_BLOCK (content_addr_block E b) (ContentAddress 0) (number ?h) ?secs ?nanos d))"
    using ins unfolding cas by (cases rule: insert_block_cases [of b E d]; simp)+
  from eq ins show a: "a = content_addr_block E b"
    by simp
  define r where "r = \<lparr>blk_id = next_rowid (map blk_id (t_block d)), blk_address = a,
      blk_parent_id = (case block_id_of d (ContentAddress 0) of Some i \<Rightarrow> i | None \<Rightarrow> 0),
      blk_number = number ?h, blk_secs = ?secs, blk_nanos = ?nanos\<rparr>"
  let ?d = "d\<lparr>t_block := t_block d @ [r]\<rparr>"
  have d: "INSERT_BLOCK a (ContentAddress 0) (number ?h) ?secs ?nanos d = ?d"
    using fresh by (simp add: INSERT_BLOCK_def r_def a insert_or_ignore_fresh)
  have d': "d' = insert_sets E a ?xs ?d"
    using eq ins d by (simp add: a)
  have secs: "0 \<le> sint ?secs" "0 \<le> sint ?nanos" "sint ?nanos < 2 ^ 32"
    using small unsigned_less [of "subsec_nanos (timestamp (header b))", where 'a = int]
    by (simp_all add: sint_i64_nonneg sint_ucast_u32)
  have wf': "db_wf ?d"
    using INSERT_BLOCK_wf [OF wf secs] d by metis
  have "block_id_of ?d a = Some (blk_id r)"
    using db_wf_D(1) [OF wf'] by (auto simp: block_id_of_Some r_def)
  moreover have "map snd ?xs = cas"
    by (simp add: cas)
  moreover have "\<forall>x \<in> set ?xs. snd x \<in> set cas"
    by (auto dest: set_zip_rightD)
  ultimately have ins': "sets_inserted E ?d (blk_id r) ?xs d'"
    unfolding d' using sets
    by (intro insert_sets_inserted wf') simp_all
  then obtain ks where ks: "map (\<lambda>x. set_id_of d' (snd x)) ?xs = map Some ks"
    and links: "t_block_solution_set d' = t_block_solution_set d @ link_rows (blk_id r) ks"
    by (rule sets_inserted_links) simp
  have blocks: "t_block d' = t_block d @ [r]"
    and stored: "\<forall>(s, ca) \<in> set ?xs. set_stored E d' ca s"
    using sets_inserted_D(1,5) [OF ins'] by auto
  have "map (set_id_of d') (map snd ?xs) = map Some ks"
    unfolding map_map comp_def by (rule ks)
  then have "map (set_id_of d') cas = map Some ks"
    unfolding \<open>map snd ?xs = cas\<close> .
  moreover have "block_links d' (blk_id r) = link_rows (blk_id r) ks"
  proof -
    have "blk_id r \<notin> blk_id ` set (t_block d)"
      by (simp add: r_def)
    then have "blk_id r \<notin> bss_block_id ` set (t_block_solution_set d)"
      using db_wf_D(3) [OF wf] unfolding block_solution_set_wf_def by (metis subsetD)
    then have "filter (\<lambda>l. bss_block_id l = blk_id r) (t_block_solution_set d) = []"
      unfolding filter_empty_conv by (metis imageI)
    moreover have "filter (\<lambda>l. bss_block_id l = i) (link_rows i ks) = link_rows i ks" for i
      by (auto simp: filter_id_conv link_rows_def)
    ultimately show ?thesis
      unfolding block_links_def links filter_append by simp
  qed
  moreover have "header_of_row r = Ok (header b)"
    using small dur Duration_new_ok [OF dur]
    by (simp add: header_of_row_def r_def get_u64_def sint_i64_nonneg)
  ultimately have "block_stored d' r (header b) cas"
    by (auto simp: block_stored_def blocks)
  then show "\<exists>r. block_stored d' r (header b) cas \<and> blk_address r = a \<and>
      blk_id r \<notin> blk_id ` set (t_block d) \<and> db_wf (d\<lparr>t_block := t_block d @ [r]\<rparr>) \<and>
      d' = insert_sets E a ?xs (d\<lparr>t_block := t_block d @ [r]\<rparr>)"
    using wf' d' by (intro exI [of _ r]) (simp add: r_def)
  show "\<forall>s \<in> set (solution_sets b). set_stored E d' (content_addr_solution_set E s) s"
    using stored unfolding cas by (auto simp: zip_map2 zip_same_conv_map)
qed

section \<open>Reading blocks\<close>

text \<open>The rows of the joins over the blocks, block by block.\<close>

definition block_rows ::
  "db \<Rightarrow> block_row \<Rightarrow> (block_row \<times> block_solution_set_row option \<times> solution_set_row option) list" where
  "block_rows d b =
     [(b, l, ss). l \<leftarrow> left_join (\<lambda>l. bss_block_id l = blk_id b) (t_block_solution_set d),
        ss \<leftarrow> left_join (\<lambda>ss. case l of None \<Rightarrow> False | Some l' \<Rightarrow> ss_id ss = bss_set_id l')
                (t_solution_set d)]"

lemma block_join_rows: "block_join d p = concat (map (block_rows d) (filter p (t_block d)))"
proof -
  have "concat (map (\<lambda>b. if p b then f b else []) bs) = concat (map f (filter p bs))"
    for f :: "block_row \<Rightarrow> 'a list" and bs
    by (induction bs) auto
  then show ?thesis
    by (simp add: block_join_def block_rows_def [abs_def])
qed

lemma block_rows_stored:
  assumes wf: "solution_tables_wf d" and stored: "block_stored d r h cas" and ne: "cas \<noteq> []"
  shows "map (\<lambda>(b, l, ss). (b, map_option bss_index l, map_option ss_addr ss)) (block_rows d r) =
    map (\<lambda>(i, ca). (r, Some i, Some ca)) (enumerate0 cas)"
proof -
  from stored obtain ks where ks: "map (set_id_of d) cas = map Some ks"
    and links: "block_links d (blk_id r) = link_rows (blk_id r) ks"
    unfolding block_stored_def by blast
  have len: "length ks = length cas"
    using ks map_eq_imp_length_eq by metis
  have lj: "left_join (\<lambda>l. bss_block_id l = blk_id r) (t_block_solution_set d)
      = map Some (link_rows (blk_id r) ks)"
    using links ne len by (auto simp: left_join_def block_links_def link_rows_def enumerate0_def)
  have part: "\<exists>ss. left_join (\<lambda>ss. ss_id ss = k) (t_solution_set d) = [Some ss] \<and> ss_addr ss = ca"
    if k: "set_id_of d ca = Some k" for ca k
  proof -
    from k wf obtain ss where ss: "ss \<in> set (t_solution_set d)" "ss_addr ss = ca" "ss_id ss = k"
      by (auto simp: set_id_of_Some)
    then have "filter (\<lambda>y. ss_id y = ss_id ss) (t_solution_set d) = [ss]"
      using wf by (intro filter_unique) (auto simp: solution_tables_wf_def)
    with ss show ?thesis by (auto simp: left_join_def)
  qed
  have "map (\<lambda>(b, l, ss). (b, map_option bss_index l, map_option ss_addr ss)) (concat (map
        (\<lambda>l. map (\<lambda>ss. (r, Some l, ss)) (left_join (\<lambda>ss. ss_id ss = bss_set_id l) (t_solution_set d)))
        (link_rows (blk_id r) js)))
      = map (\<lambda>(i, ca). (r, Some i, Some ca)) (enumerate0 cs)"
    if "map (set_id_of d) cs = map Some js" for js cs
    using that
  proof (induction cs arbitrary: js rule: rev_induct)
    case (snoc ca cs)
    then obtain j js' where js: "js = js' @ [j]" by (cases js rule: rev_cases) auto
    with snoc.prems have "set_id_of d ca = Some j" "map (set_id_of d) cs = map Some js'"
      by simp_all
    moreover from this(2) have "length js' = length cs"
      using map_eq_imp_length_eq by metis
    ultimately show ?case
      using snoc.IH [of js'] part [of ca j] by (auto simp: js link_rows_snoc enumerate0_snoc)
  qed (simp add: link_rows_def)
  from this [OF ks] show ?thesis
    by (simp add: block_rows_def lj comp_def)
qed

lemma find_block_row:
  assumes "block_table_wf d" and "r \<in> set (t_block d)"
  shows "filter (\<lambda>b. blk_address b = blk_address r) (t_block d) = [r]"
  using assms by (intro filter_unique) (simp_all add: block_table_wf_def)

lemma get_block_header_row:
  assumes "plan_ok E" and "block_table_wf d" and "r \<in> set (t_block d)"
  shows "get_block_header E d (blk_address r) = bind_result (header_of_row r) (\<lambda>h. Ok (Some h))"
  using find_block_row [OF assms(2,3)] assms(1)
  by (simp add: get_block_header_def run_GET_BLOCK_HEADER_def)

lemma get_block_header_None:
  assumes "plan_ok E"
  shows "get_block_header E d a = Ok None \<longleftrightarrow> a \<notin> blk_address ` set (t_block d)"
proof -
  have "run_GET_BLOCK_HEADER E d a = None \<longleftrightarrow> filter (\<lambda>b. blk_address b = a) (t_block d) = []"
    unfolding run_GET_BLOCK_HEADER_def first_row_None
    using set_scan [OF assms] by (metis set_empty)
  then show ?thesis
    by (auto simp: get_block_header_def filter_empty_conv header_of_row_def get_u64_def get_u32_def
        split: option.splits)
qed

lemma block_key_rows:
  assumes "solution_tables_wf d" and "block_stored d r h cas" and "cas \<noteq> []"
  shows "map (\<lambda>(b, l, ss). null_first (map_option bss_index l)) (block_rows d r) = map Suc [0..<length cas]"
    and "map (\<lambda>(b, l, ss). map_option ss_addr ss) (block_rows d r) = map Some cas"
    and "map fst (block_rows d r) = map (\<lambda>_. r) cas"
proof -
  note rows = block_rows_stored [OF assms]
  have "map (\<lambda>(b, i, a). null_first i) (map (\<lambda>(b, l, ss). (b, map_option bss_index l, map_option ss_addr ss))
      (block_rows d r)) = map Suc [0..<length cas]"
    unfolding rows by (induction cas rule: rev_induct) (simp_all add: enumerate0_snoc null_first_def)
  then show "map (\<lambda>(b, l, ss). null_first (map_option bss_index l)) (block_rows d r) = map Suc [0..<length cas]"
    by (simp add: comp_def case_prod_unfold)
  have "map (\<lambda>(b, i, a). a) (map (\<lambda>(b, l, ss). (b, map_option bss_index l, map_option ss_addr ss))
      (block_rows d r)) = map Some cas"
    unfolding rows by (induction cas rule: rev_induct) (simp_all add: enumerate0_snoc)
  then show "map (\<lambda>(b, l, ss). map_option ss_addr ss) (block_rows d r) = map Some cas"
    by (simp add: comp_def case_prod_unfold)
  have "map fst (map (\<lambda>(b, l, ss). (b, map_option bss_index l, map_option ss_addr ss))
      (block_rows d r)) = map (\<lambda>_. r) cas"
    unfolding rows by (induction cas rule: rev_induct) (simp_all add: enumerate0_snoc)
  then show "map fst (block_rows d r) = map (\<lambda>_. r) cas"
    by (simp add: comp_def case_prod_unfold)
qed

lemma order_by_distinct_sorted:
  assumes "plan_ok E" and "sorted (map k rows)" and "distinct (map k rows)"
  shows "order_by E d q k rows = rows"
  using order_by_inj [OF assms(1), of k rows d q] assms(2,3) sort_key_sorted
  by (metis distinct_map)

lemma run_GET_BLOCK_stored:
  assumes wf: "db_wf d" and plan: "plan_ok E" and stored: "block_stored d r h cas" and ne: "cas \<noteq> []"
  shows "run_GET_BLOCK E d (blk_address r) = map Some cas"
proof -
  have r: "r \<in> set (t_block d)"
    using stored by (simp add: block_stored_def)
  note keys = block_key_rows [OF db_wf_D(2) [OF wf] stored ne]
  have "block_join d (\<lambda>b. blk_address b = blk_address r) = block_rows d r"
    by (simp add: block_join_rows find_block_row [OF db_wf_D(1) [OF wf] r])
  then show ?thesis
    unfolding run_GET_BLOCK_def
    by (subst order_by_distinct_sorted [OF plan])
      (simp_all add: keys distinct_map sorted_iff_nth_mono)
qed

lemma get_block_stored:
  assumes wf: "db_wf d" and plan: "plan_ok E" and stored: "block_stored d r h cas" and ne: "cas \<noteq> []"
  shows "get_block E d (blk_address r) =
    bind_result (collect_results (map (get_solution_set E d) cas))
      (\<lambda>sets. Ok (Some \<lparr>header = h, solution_sets = sets\<rparr>))"
proof -
  have r: "r \<in> set (t_block d)" "header_of_row r = Ok h"
    using stored by (simp_all add: block_stored_def)
  show ?thesis
    by (simp add: get_block_def get_block_header_row [OF plan db_wf_D(1) [OF wf] r(1)] r(2)
        run_GET_BLOCK_stored [OF assms] comp_def get_hash_def)
qed

text \<open>A block with its solution sets in the order in which the database returns their parts.\<close>

definition block_as_scanned :: "node_ext \<Rightarrow> db \<Rightarrow> Block \<Rightarrow> Block" where
  "block_as_scanned E d b =
     b\<lparr>solution_sets := map (\<lambda>s. as_scanned E d (content_addr_solution_set E s) s) (solution_sets b)\<rparr>"

lemma block_as_scanned_perm:
  assumes "plan_ok E"
  shows "header (block_as_scanned E d b) = header b"
    and "list_all2 (\<lambda>s' s. list_all2 solution_perm (solutions s') (solutions s))
      (solution_sets (block_as_scanned E d b)) (solution_sets b)"
  using as_scanned_perm [OF assms] by (simp_all add: block_as_scanned_def list.rel_map list_all2_same)

text \<open>A block that is new, as are its solution sets, and whose timestamp SQLite can store.\<close>

definition fresh_block :: "node_ext \<Rightarrow> db \<Rightarrow> Block \<Rightarrow> bool" where
  "fresh_block E d b \<longleftrightarrow>
     content_addr_block E b \<notin> blk_address ` set (t_block d) \<and>
     distinct (map (content_addr_solution_set E) (solution_sets b)) \<and>
     (\<forall>s \<in> set (solution_sets b). content_addr_solution_set E s \<notin> ss_addr ` set (t_solution_set d)) \<and>
     duration_ok (timestamp (header b)) \<and> fits_i64 (as_secs (timestamp (header b)))"

lemma get_inserted_block:
  assumes wf: "db_wf d" and plan: "plan_ok E" and codec: "codec_ok E"
    and fresh: "fresh_block E d b" and ne: "solution_sets b \<noteq> []"
  shows "fst (insert_block E b d) = Ok (content_addr_block E b)"
    and "get_block E (snd (insert_block E b d)) (content_addr_block E b) =
      Ok (Some (block_as_scanned E (snd (insert_block E b d)) b))"
proof -
  let ?d = "snd (insert_block E b d)" and ?cas = "map (content_addr_solution_set E) (solution_sets b)"
  have f: "content_addr_block E b \<notin> blk_address ` set (t_block d)" "distinct ?cas"
    "\<forall>ca \<in> set ?cas. ca \<notin> ss_addr ` set (t_solution_set d)" "duration_ok (timestamp (header b))"
    "unat (as_secs (timestamp (header b))) < 2 ^ 63"
    using fresh by (simp_all add: fresh_block_def)
  from f(5) show a: "fst (insert_block E b d) = Ok (content_addr_block E b)"
    by (cases rule: insert_block_cases [of b E d]) simp_all
  then have ins: "insert_block E b d = (Ok (content_addr_block E b), ?d)"
    by (simp add: prod_eq_iff)
  note res = insert_block_stored [OF wf ins f(1) refl f(2,3,4)]
  have wf': "db_wf ?d"
    by (rule insert_block_wf [OF wf])
  from res(2) obtain r where r: "block_stored ?d r (header b) ?cas"
    "blk_address r = content_addr_block E b" by blast
  have "collect_results (map (get_solution_set E ?d) ?cas) =
      Ok (map (\<lambda>s. as_scanned E ?d (content_addr_solution_set E s) s) (solution_sets b))"
    unfolding map_map using res(3)
    by (intro collect_results_map_cong)
      (simp add: get_solution_set_stored [OF db_wf_D(2) [OF wf'] plan codec])
  then show "get_block E ?d (content_addr_block E b) = Ok (Some (block_as_scanned E ?d b))"
    using get_block_stored [OF wf' plan r(1)] ne r(2) by (simp add: block_as_scanned_def)
qed

section \<open>Inserting a stored solution set again\<close>

text \<open>
  The tables \<open>mutation\<close> and \<open>pred_data\<close> have no unique key: a solution set that is stored
  already gets its mutations and predicate data a second time.
\<close>

definition repeated :: "nat \<Rightarrow> SolutionSet \<Rightarrow> SolutionSet" where
  "repeated n s = \<lparr>solutions = map (\<lambda>sol. sol
     \<lparr>predicate_data := concat (replicate n (predicate_data sol)),
      state_mutations := concat (replicate n (state_mutations sol))\<rparr>) (solutions s)\<rparr>"

lemma repeated_1 [simp]: "repeated (Suc 0) s = s"
  by (simp add: repeated_def)

lemma length_repeated [simp]: "length (solutions (repeated n s)) = length (solutions s)"
  by (simp add: repeated_def)

lemma solution_rows_repeated [simp]:
  "solution_rows base k (solutions (repeated n s)) = solution_rows base k (solutions s)"
  by (simp add: repeated_def solution_rows_def enumerate0_map case_prod_unfold)

lemma concat_replicate_snoc: "xs @ concat (replicate n xs) = concat (replicate n xs) @ xs"
  by (induction n) simp_all

lemma nth_repeated_Suc:
  assumes "j < length (solutions s)"
  shows "state_mutations (solutions (repeated (Suc n) s) ! j) =
      state_mutations (solutions (repeated n s) ! j) @ state_mutations (solutions s ! j)"
    and "predicate_data (solutions (repeated (Suc n) s) ! j) =
      predicate_data (solutions (repeated n s) ! j) @ predicate_data (solutions s ! j)"
  using assms by (simp_all add: repeated_def concat_replicate_snoc)

lemma reinsert_solutions_eq:
  assumes "set_id_of d ca = Some k"
    and "\<And>ix. ix < length sols \<Longrightarrow> (k, ix) \<in> (\<lambda>s. (sol_set_id s, sol_index s)) ` set (t_solution d)"
    and "\<And>ix. ix < length sols \<Longrightarrow> solution_id_of d ca ix = Some (base + ix)"
  shows "fold (\<lambda>(ix, s). insert_solution E ca ix s) (enumerate0 sols) d =
    d\<lparr>t_mutation := t_mutation d @ set_mutation_rows E base sols,
      t_pred_data := t_pred_data d @ set_pred_data_rows E base sols\<rparr>"
  using assms(2,3)
proof (induction sols rule: rev_induct)
  case (snoc s sols)
  let ?d = "d\<lparr>t_mutation := t_mutation d @ set_mutation_rows E base sols,
      t_pred_data := t_pred_data d @ set_pred_data_rows E base sols\<rparr>"
  have key: "(k, length sols) \<in> (\<lambda>s. (sol_set_id s, sol_index s)) ` set (t_solution d)"
    and sid: "solution_id_of d ca (length sols) = Some (base + length sols)"
    using snoc.prems [of "length sols"] by simp_all
  have "INSERT_SOLUTION ca (length sols) c p ?d = ?d" for c p
    using assms(1) key by (simp add: INSERT_SOLUTION_def insert_or_ignore_present)
  then have "insert_solution E ca (length sols) s ?d = ?d
     \<lparr>t_mutation := t_mutation ?d @ mutation_rows E (base + length sols) (state_mutations s),
      t_pred_data := t_pred_data ?d @ pred_data_rows E (base + length sols) (predicate_data s)\<rparr>"
    by (simp add: insert_solution_def insert_mutations_eq sid insert_pred_data_eq)
  then show ?case
    using snoc by (simp add: enumerate0_snoc set_rows_snoc)
qed simp

lemma set_stored_frame [simp]:
  "set_stored E (d\<lparr>t_block := x0\<rparr>) = set_stored E d"
  "set_stored E (d\<lparr>t_block_solution_set := x1\<rparr>) = set_stored E d"
  by (simp_all add: set_stored_def fun_eq_iff)

lemma INSERT_BLOCK_SOLUTION_SET_frame:
  "\<exists>t. INSERT_BLOCK_SOLUTION_SET a ca ix d = d\<lparr>t_block_solution_set := t\<rparr>"
proof -
  have "\<exists>t. d = d\<lparr>t_block_solution_set := t\<rparr>"
    by (rule exI [of _ "t_block_solution_set d"]) simp
  then show ?thesis
    unfolding INSERT_BLOCK_SOLUTION_SET_def by (simp split: option.split) blast
qed

text \<open>The solution rows of a stored set have the ids from \<open>base\<close> on.\<close>

lemma stored_solution_row:
  assumes "filter (\<lambda>r. sol_set_id r = k) (t_solution d) = solution_rows base k sols" and "j < length sols"
  shows "\<exists>r \<in> set (t_solution d). sol_set_id r = k \<and> sol_index r = j \<and> sol_id r = base + j"
proof -
  have "set (filter (\<lambda>r. sol_index r = j) (solution_rows base k sols)) \<subseteq> set (t_solution d)"
    unfolding assms(1) [symmetric] by auto
  then show ?thesis
    unfolding nth_solution_row [OF assms(2)] by force
qed

lemma set_stored_again:
  assumes wf: "solution_tables_wf d" and stored: "set_stored E d ca (repeated n s)"
  shows "set_stored E (insert_solution_set E a ix s ca d) ca (repeated (Suc n) s)"
proof -
  obtain t where t: "INSERT_BLOCK_SOLUTION_SET a ca ix d = d\<lparr>t_block_solution_set := t\<rparr>"
    using INSERT_BLOCK_SOLUTION_SET_frame by blast
  let ?d = "d\<lparr>t_block_solution_set := t\<rparr>"
  from stored obtain k base where k: "set_id_of d ca = Some k"
    and sols: "filter (\<lambda>r. sol_set_id r = k) (t_solution d) = solution_rows base k (solutions s)"
    and rows: "\<forall>ix < length (solutions s).
        map (\<lambda>m. (mu_key m, mu_value m)) (filter (\<lambda>m. mu_solution_id m = base + ix) (t_mutation d)) =
          map (\<lambda>m. (blob_from_words E (mut_key m), blob_from_words E (mut_value m)))
            (state_mutations (solutions (repeated n s) ! ix)) \<and>
        map pd_value (filter (\<lambda>p. pd_solution_id p = base + ix) (t_pred_data d)) =
          map (blob_from_words E) (predicate_data (solutions (repeated n s) ! ix))"
    unfolding set_stored_def by auto
  have "ca \<in> ss_addr ` set (t_solution_set d)"
    using k set_id_of_None [of d ca] by force
  then have set: "INSERT_SOLUTION_SET ca d = d"
    by (simp add: INSERT_SOLUTION_SET_def insert_or_ignore_present)
  note row = stored_solution_row [OF sols]
  have fold: "fold (\<lambda>(ix, s). insert_solution E ca ix s) (enumerate0 (solutions s)) ?d =
    ?d\<lparr>t_mutation := t_mutation ?d @ set_mutation_rows E base (solutions s),
      t_pred_data := t_pred_data ?d @ set_pred_data_rows E base (solutions s)\<rparr>"
  proof (rule reinsert_solutions_eq [where k = k])
    show "set_id_of ?d ca = Some k"
      by (simp add: k)
    fix j
    assume j: "j < length (solutions s)"
    then show "(k, j) \<in> (\<lambda>s. (sol_set_id s, sol_index s)) ` set (t_solution ?d)"
      using row by force
    have "solution_id_of d ca j = Some (base + j)"
      using row [OF j] by (simp add: solution_id_of_Some [OF wf k])
    then show "solution_id_of ?d ca j = Some (base + j)"
      by (simp add: solution_id_of_def)
  qed
  show ?thesis
    unfolding set_stored_def insert_solution_set_def set t fold
    using k sols rows
    by - (rule exI [of _ k], rule exI [of _ base],
      simp add: filter_set_mutation_rows filter_set_pred_data_rows nth_repeated_Suc)
qed

section \<open>Inserting another solution set\<close>

lemma set_stored_same_rows:
  assumes stored: "set_stored E d ca s"
    and same: "\<And>k. set_id_of d ca = Some k \<Longrightarrow> set_id_of d' ca = Some k \<and>
      filter (\<lambda>r. sol_set_id r = k) (t_solution d') = filter (\<lambda>r. sol_set_id r = k) (t_solution d) \<and>
      (\<forall>r \<in> set (t_solution d). sol_set_id r = k \<longrightarrow>
        filter (\<lambda>m. mu_solution_id m = sol_id r) (t_mutation d') = filter (\<lambda>m. mu_solution_id m = sol_id r) (t_mutation d) \<and>
        filter (\<lambda>p. pd_solution_id p = sol_id r) (t_pred_data d') = filter (\<lambda>p. pd_solution_id p = sol_id r) (t_pred_data d))"
  shows "set_stored E d' ca s"
proof -
  from stored obtain k base where k: "set_id_of d ca = Some k"
    and sols: "filter (\<lambda>r. sol_set_id r = k) (t_solution d) = solution_rows base k (solutions s)"
    and rows: "\<forall>ix < length (solutions s).
        map (\<lambda>m. (mu_key m, mu_value m)) (filter (\<lambda>m. mu_solution_id m = base + ix) (t_mutation d)) =
          map (\<lambda>m. (blob_from_words E (mut_key m), blob_from_words E (mut_value m)))
            (state_mutations (solutions s ! ix)) \<and>
        map pd_value (filter (\<lambda>p. pd_solution_id p = base + ix) (t_pred_data d)) =
          map (blob_from_words E) (predicate_data (solutions s ! ix))"
    unfolding set_stored_def by blast
  have "filter (\<lambda>m. mu_solution_id m = base + j) (t_mutation d') = filter (\<lambda>m. mu_solution_id m = base + j) (t_mutation d)"
    "filter (\<lambda>p. pd_solution_id p = base + j) (t_pred_data d') = filter (\<lambda>p. pd_solution_id p = base + j) (t_pred_data d)"
    if "j < length (solutions s)" for j
    using same [OF k] stored_solution_row [OF sols that] by metis+
  with same [OF k] sols rows show ?thesis
    unfolding set_stored_def by (intro exI [of _ k] exI [of _ base]) simp
qed

text \<open>The parts of a set with another address go to other rows.\<close>

lemma other_solution_id:
  assumes wf: "solution_tables_wf d" and "set_id_of d ca = Some k" and "ca' \<noteq> ca"
    and "r \<in> set (t_solution d)" and "sol_set_id r = k"
  shows "solution_id_of d ca' ix \<noteq> Some (sol_id r)"
proof
  assume "solution_id_of d ca' ix = Some (sol_id r)"
  then have "\<exists>r' \<in> set (t_solution d). \<exists>ss \<in> set (t_solution_set d).
      sol_id r = sol_id r' \<and> ss_id ss = sol_set_id r' \<and> ss_addr ss = ca'"
    unfolding solution_id_of_def by (auto dest!: first_row_SomeD) blast
  then obtain r' ss where r': "r' \<in> set (t_solution d)" "sol_id r' = sol_id r" and
    ss: "ss \<in> set (t_solution_set d)" "ss_id ss = sol_set_id r'" "ss_addr ss = ca'"
    by metis
  have "r' = r"
    using wf r' assms(4) by (auto simp: solution_tables_wf_def dest: distinct_map_inject)
  with ss assms(5) have "set_id_of d ca' = Some k"
    by (auto simp: set_id_of_Some [OF wf])
  with assms(2,3) show False
    by (auto dest: set_id_of_inject [OF wf])
qed

lemma INSERT_parts_other:
  assumes "solution_tables_wf d" and "set_stored E d ca s" and "ca' \<noteq> ca"
  shows "set_stored E (INSERT_MUTATION ca' ix mix key v d) ca s"
    and "set_stored E (INSERT_PRED_DATA ca' ix pix v d) ca s"
  by (rule set_stored_same_rows [OF assms(2)],
      auto simp: INSERT_MUTATION_def INSERT_PRED_DATA_def other_solution_id [OF assms(1) _ assms(3)]
        split: option.split dest: other_solution_id [OF assms(1) _ assms(3)])+

lemma INSERT_SOLUTION_other:
  assumes "solution_tables_wf d" and "set_stored E d ca s" and "ca' \<noteq> ca"
  shows "set_stored E (INSERT_SOLUTION ca' ix c p d) ca s"
  by (rule set_stored_same_rows [OF assms(2)])
    (use assms(3) in \<open>auto simp: INSERT_SOLUTION_def insert_or_ignore_def split: option.split
      dest: set_id_of_inject [OF assms(1)]\<close>)

lemma insert_solution_other:
  assumes "db_wf d \<and> set_stored E d ca s" and "ca' \<noteq> ca"
  shows "db_wf (insert_solution E ca' ix sol d) \<and> set_stored E (insert_solution E ca' ix sol d) ca s"
proof -
  have ms: "db_wf (insert_mutations E ca' ix ms d) \<and> set_stored E (insert_mutations E ca' ix ms d) ca s"
    if "db_wf d \<and> set_stored E d ca s" for ms d
    unfolding insert_mutations_def
    by (rule fold_invariant)
      (use that assms(2) in \<open>auto intro: wf_rules INSERT_parts_other dest: db_wf_D(2)\<close>)
  have vs: "db_wf (insert_pred_data E ca' ix vs d) \<and> set_stored E (insert_pred_data E ca' ix vs d) ca s"
    if "db_wf d \<and> set_stored E d ca s" for vs d
    unfolding insert_pred_data_def
    by (rule fold_invariant)
      (use that assms(2) in \<open>auto intro: wf_rules INSERT_parts_other dest: db_wf_D(2)\<close>)
  have "db_wf (INSERT_SOLUTION ca' ix c p d) \<and> set_stored E (INSERT_SOLUTION ca' ix c p d) ca s" for c p
    using assms INSERT_SOLUTION_wf INSERT_SOLUTION_other [OF db_wf_D(2)] by blast
  then show ?thesis
    unfolding insert_solution_def by (intro vs ms)
qed

lemma set_stored_other:
  assumes wf: "db_wf d" and stored: "set_stored E d ca s" and "ca' \<noteq> ca"
  shows "set_stored E (insert_solution_set E a ix s' ca' d) ca s"
proof -
  obtain t where t: "INSERT_BLOCK_SOLUTION_SET a ca' ix (INSERT_SOLUTION_SET ca' d) =
      (INSERT_SOLUTION_SET ca' d)\<lparr>t_block_solution_set := t\<rparr>"
    using INSERT_BLOCK_SOLUTION_SET_frame by blast
  have "set_stored E (INSERT_SOLUTION_SET ca' d) ca s"
    by (rule set_stored_same_rows [OF stored])
      (simp add: INSERT_SOLUTION_SET_def insert_or_ignore_def set_id_of_append)
  then have "db_wf (INSERT_BLOCK_SOLUTION_SET a ca' ix (INSERT_SOLUTION_SET ca' d)) \<and>
      set_stored E (INSERT_BLOCK_SOLUTION_SET a ca' ix (INSERT_SOLUTION_SET ca' d)) ca s"
    using INSERT_BLOCK_SOLUTION_SET_wf [OF INSERT_SOLUTION_SET_wf [OF wf]] by (metis set_stored_frame(2) t)
  then have "db_wf (insert_solution_set E a ix s' ca' d) \<and> set_stored E (insert_solution_set E a ix s' ca' d) ca s"
    unfolding insert_solution_set_def
    by (rule fold_invariant [rotated]) (clarify, rule insert_solution_other [OF _ assms(3)], blast)
  then show ?thesis ..
qed

lemma insert_sets_repeated:
  assumes "db_wf d" and "set_stored E d ca (repeated n s)" and "\<forall>x \<in> set xs. snd x = ca \<longrightarrow> fst x = s"
  shows "set_stored E (insert_sets E a xs d) ca (repeated (n + length (filter (\<lambda>x. snd x = ca) xs)) s)"
  using assms(3)
proof (induction xs rule: rev_induct)
  case (snoc x xs)
  obtain s' ca' where x: "x = (s', ca')" by (cases x)
  note wf = insert_sets_wf [OF assms(1), of E a xs]
  have IH: "set_stored E (insert_sets E a xs d) ca (repeated (n + length (filter (\<lambda>x. snd x = ca) xs)) s)"
    using snoc by simp
  show ?case
  proof (cases "ca' = ca")
    case True
    with snoc.prems x set_stored_again [OF db_wf_D(2) [OF wf] IH, of a "length xs"] show ?thesis
      by (simp add: enumerate0_snoc)
  next
    case False
    with x set_stored_other [OF wf IH False, of a "length xs" s'] show ?thesis
      by (simp add: enumerate0_snoc)
  qed
qed (simp add: assms(2))

section \<open>Properties\<close>

text \<open>
  C2. Let a block be new, with at least one solution set, all of them distinct and new, and with a
  timestamp that SQLite can store.  When it is inserted, it is read back by its address: with its
  header, and with its solution sets in order, each with its solutions in order; the
  mutations and predicate data of each solution are those that were inserted, in the order in which
  the database returns them.
\<close>

theorem insert_get_block:
  assumes "db_wf d" and "plan_ok E" and "codec_ok E" and "fresh_block E d b"
    and "solution_sets b \<noteq> []"
  shows "\<exists>d' b'. insert_block E b d = (Ok (content_addr_block E b), d') \<and>
    get_block E d' (content_addr_block E b) = Ok (Some b') \<and> header b' = header b \<and>
    list_all2 (\<lambda>s' s. list_all2 solution_perm (solutions s') (solutions s))
      (solution_sets b') (solution_sets b)"
proof (intro exI conjI)
  let ?d = "snd (insert_block E b d)"
  note get = get_inserted_block [OF assms]
  show "insert_block E b d = (Ok (content_addr_block E b), ?d)"
    using get(1) by (simp add: prod_eq_iff)
  show "get_block E ?d (content_addr_block E b) = Ok (Some (block_as_scanned E ?d b))"
    by (rule get(2))
  show "header (block_as_scanned E ?d b) = header b"
    "list_all2 (\<lambda>s' s. list_all2 solution_perm (solutions s') (solutions s))
      (solution_sets (block_as_scanned E ?d b)) (solution_sets b)"
    by (fact block_as_scanned_perm [OF assms(2)])+
qed

definition sample_block0 :: Block where
  "sample_block0 = sample_block 7 [[(1, 2), (3, 4)], [(5, 6)]]"

lemma sample_block0_fresh: "fresh_block sample_ext create_tables sample_block0"
  by code_simp

lemma insert_get_block_witness:
  "\<exists>d' b'. insert_block sample_ext sample_block0 create_tables =
      (Ok (content_addr_block sample_ext sample_block0), d') \<and>
    get_block sample_ext d' (content_addr_block sample_ext sample_block0) = Ok (Some b') \<and>
    header b' = header sample_block0 \<and>
    list_all2 (\<lambda>s' s. list_all2 solution_perm (solutions s') (solutions s))
      (solution_sets b') (solution_sets sample_block0)"
  by (rule insert_get_block [OF create_tables_wf sample_plan_ok sample_codec_ok sample_block0_fresh])
    (simp add: sample_block0_def sample_block_def)

lemma empty_block_rows: "block_stored d r h [] \<Longrightarrow> block_rows d r = [(r, None, None)]"
  by (simp add: block_stored_def block_links_def link_rows_def block_rows_def left_join_def)

lemma get_block_no_sets:
  assumes wf: "db_wf d" and plan: "plan_ok E" and stored: "block_stored d r h []"
  shows "get_block E d (blk_address r) = Err (Rusqlite InvalidColumnType)"
proof -
  have r: "r \<in> set (t_block d)" "header_of_row r = Ok h"
    using stored by (simp_all add: block_stored_def)
  have "block_join d (\<lambda>b. blk_address b = blk_address r) = [(r, None, None)]"
    by (simp add: block_join_rows find_block_row [OF db_wf_D(1) [OF wf] r(1)] empty_block_rows [OF stored])
  then have "run_GET_BLOCK E d (blk_address r) = [None]"
    by (simp add: run_GET_BLOCK_def order_by_def plan)
  then show ?thesis
    by (simp add: get_block_def get_block_header_row [OF plan db_wf_D(1) [OF wf] r(1)] r(2) get_hash_def)
qed

text \<open>
  A block without solution sets is stored, but reading it back fails: the outer join
  gives a row whose solution set address is \<open>NULL\<close>, which is no hash.
\<close>

theorem get_empty_block:
  assumes "db_wf d" and "plan_ok E" and "fresh_block E d b" and "solution_sets b = []"
  shows "\<exists>d'. insert_block E b d = (Ok (content_addr_block E b), d') \<and>
    get_block E d' (content_addr_block E b) = Err (Rusqlite InvalidColumnType)"
proof -
  let ?d = "snd (insert_block E b d)"
  have f: "content_addr_block E b \<notin> blk_address ` set (t_block d)"
    "duration_ok (timestamp (header b))" "unat (as_secs (timestamp (header b))) < 2 ^ 63"
    using assms(3) by (simp_all add: fresh_block_def)
  have ins: "insert_block E b d = (Ok (content_addr_block E b), ?d)"
    using f(3) by (cases rule: insert_block_cases [of b E d]) simp_all
  then obtain r where "block_stored ?d r (header b) []" "blk_address r = content_addr_block E b"
    using insert_block_stored(2) [OF assms(1) ins f(1) refl _ _ f(2)] by (auto simp: assms(4))
  then have "get_block E ?d (content_addr_block E b) = Err (Rusqlite InvalidColumnType)"
    using get_block_no_sets [OF insert_block_wf [OF assms(1)] assms(2)] by metis
  with ins show ?thesis by blast
qed

lemma get_empty_block_witness:
  "\<exists>d'. insert_block sample_ext (sample_block 7 []) create_tables =
      (Ok (content_addr_block sample_ext (sample_block 7 [])), d') \<and>
    get_block sample_ext d' (content_addr_block sample_ext (sample_block 7 [])) =
      Err (Rusqlite InvalidColumnType)"
proof (rule get_empty_block [OF create_tables_wf sample_plan_ok])
  show "fresh_block sample_ext create_tables (sample_block 7 [])"
    by code_simp
qed (simp add: sample_block_def)

text \<open>The parts of a solution, each as often as \<open>n\<close> times.\<close>

definition n_times :: "nat \<Rightarrow> Solution \<Rightarrow> Solution \<Rightarrow> bool" where
  "n_times n s t \<longleftrightarrow> predicate_to_solve s = predicate_to_solve t \<and>
     mset (predicate_data s) = repeat_mset n (mset (predicate_data t)) \<and>
     mset (state_mutations s) = repeat_mset n (mset (state_mutations t))"

lemma mset_concat_replicate: "mset (concat (replicate n xs)) = repeat_mset n (mset xs)"
  by (induction n) simp_all

lemma as_scanned_repeated:
  assumes "plan_ok E"
  shows "list_all2 (n_times n) (solutions (as_scanned E d ca (repeated n s))) (solutions s)"
  using as_scanned_perm [OF assms, of d ca "repeated n s"]
  by (auto simp: list_all2_conv_all_nth solution_perm_def n_times_def repeated_def mset_concat_replicate)

text \<open>
  C18. Let a solution set be stored with the mutations and predicate data of its solutions \<open>n\<close> times
  (once, after its first insertion).  When a block is inserted whose solution sets contain it, at any
  places and besides any others, it is read back with these mutations and predicate data as often
  again as the block contains it, in whatever order the database returns them.
\<close>

theorem insert_stored_set_again:
  assumes "db_wf d" and "plan_ok E" and "codec_ok E"
    and "set_stored E d (content_addr_solution_set E s) (repeated n s)"
    and "\<forall>s' \<in> set (solution_sets b). content_addr_solution_set E s' = content_addr_solution_set E s \<longrightarrow> s' = s"
    and "fits_i64 (as_secs (timestamp (header b)))"
  shows "\<exists>s'. get_solution_set E (snd (insert_block E b d)) (content_addr_solution_set E s) = Ok s' \<and>
    list_all2 (n_times (n + count_list (solution_sets b) s)) (solutions s') (solutions s)"
proof -
  let ?d = "snd (insert_block E b d)" and ?ca = "content_addr_solution_set E s"
  let ?xs = "zip (solution_sets b) (map (content_addr_solution_set E) (solution_sets b))"
  have xs: "?xs = map (\<lambda>s. (s, content_addr_solution_set E s)) (solution_sets b)"
    by (simp add: zip_map2 zip_same_conv_map)
  have count: "length (filter (\<lambda>x. snd x = ?ca) ?xs) = count_list (solution_sets b) s"
  proof -
    have "length (filter (\<lambda>x. content_addr_solution_set E x = ?ca) ss) = count_list ss s"
      if "\<forall>s' \<in> set ss. content_addr_solution_set E s' = ?ca \<longrightarrow> s' = s" for ss
      using that by (induction ss) auto
    with assms(5) show ?thesis
      unfolding xs by (simp add: filter_map comp_def)
  qed
  have same: "\<forall>x \<in> set ?xs. snd x = ?ca \<longrightarrow> fst x = s"
    using assms(5) by (auto simp: xs)
  have "set_stored E ?d ?ca (repeated (n + count_list (solution_sets b) s) s)"
  proof (cases rule: insert_block_cases [of b E d])
    case inserted
    let ?d0 = "INSERT_BLOCK (content_addr_block E b) (ContentAddress 0) (number (header b))
        (as_secs (timestamp (header b))) (ucast (subsec_nanos (timestamp (header b)))) d"
    let ?n = "subsec_nanos (timestamp (header b))"
    have "0 \<le> sint (as_secs (timestamp (header b)))"
      using inserted(1) by (simp add: sint_i64_nonneg)
    moreover have "0 \<le> sint (ucast ?n :: i64)" "sint (ucast ?n :: i64) < 2 ^ 32"
      using unsigned_less [of ?n, where 'a = int] by (simp_all add: sint_ucast_u32)
    ultimately have "db_wf ?d0"
      by (rule INSERT_BLOCK_wf [OF assms(1)])
    moreover have "set_stored E ?d0 ?ca (repeated n s)"
      using assms(4) by (simp add: INSERT_BLOCK_def)
    ultimately show ?thesis
      using insert_sets_repeated [OF _ _ same] count by (metis inserted(2) snd_conv)
  qed (use assms(6) in simp)
  then show ?thesis
    using get_solution_set_stored [OF db_wf_D(2) [OF insert_block_wf [OF assms(1)]] assms(2,3)]
      as_scanned_repeated [OF assms(2)] by blast
qed

lemma insert_stored_set_again_witness:
  "\<exists>s'. get_solution_set sample_ext
     (snd (insert_block sample_ext (sample_block 2 [[(5, 6)], [(1, 2)], [(1, 2)]])
        (insert_solution_set sample_ext (ContentAddress 1) 0 (sample_set [(1, 2)])
          (content_addr_solution_set sample_ext (sample_set [(1, 2)]))
          (INSERT_BLOCK (ContentAddress 1) (ContentAddress 0) 1 10 0 create_tables))))
     (content_addr_solution_set sample_ext (sample_set [(1, 2)])) = Ok s' \<and>
     list_all2 (n_times 3) (solutions s') (solutions (sample_set [(1, 2)]))"
proof -
  let ?d = "INSERT_BLOCK (ContentAddress 1) (ContentAddress 0) 1 10 0 create_tables"
  let ?ca = "content_addr_solution_set sample_ext (sample_set [(1, 2)])"
  let ?d' = "insert_solution_set sample_ext (ContentAddress 1) 0 (sample_set [(1, 2)]) ?ca ?d"
  have wf: "db_wf ?d"
    by (rule INSERT_BLOCK_wf [OF create_tables_wf]) simp_all
  have "block_id_of ?d (ContentAddress 1) = Some 1" "?ca \<notin> ss_addr ` set (t_solution_set ?d)"
    by code_simp+
  then have stored: "set_stored sample_ext ?d' ?ca (repeated (Suc 0) (sample_set [(1, 2)]))"
    unfolding repeated_1 by (rule set_stored_inserted [OF wf])
  have "\<forall>s' \<in> set (solution_sets (sample_block 2 [[(5, 6)], [(1, 2)], [(1, 2)]])).
      content_addr_solution_set sample_ext s' = ?ca \<longrightarrow> s' = sample_set [(1, 2)]"
    "fits_i64 (as_secs (timestamp (header (sample_block 2 [[(5, 6)], [(1, 2)], [(1, 2)]]))))"
    "Suc 0 + count_list (solution_sets (sample_block 2 [[(5, 6)], [(1, 2)], [(1, 2)]])) (sample_set [(1, 2)]) = 3"
    by code_simp+
  with insert_stored_set_again [OF insert_solution_set_wf [OF wf] sample_plan_ok sample_codec_ok stored]
  show ?thesis by metis
qed

end
