(* ===== verification/Listing.thy ===== *)
theory Listing
  imports RoundTrip
begin

text \<open>
  The listings \<open>list_blocks\<close>, \<open>list_unchecked_blocks\<close> and \<open>list_blocks_by_time\<close>: the rows
  of their joins in order, the grouping loop as one block per run of rows, and the agreement
  of each listing with \<open>get_block\<close>.
\<close>

section \<open>The rows of a listing\<close>

text \<open>Every block that \<open>p\<close> selects is stored with its header and at least one solution set.\<close>

definition blocks_linked :: "db \<Rightarrow> (block_row \<Rightarrow> bool) \<Rightarrow> bool" where
  "blocks_linked d p \<longleftrightarrow>
     (\<forall>r \<in> set (t_block d). p r \<longrightarrow> (\<exists>h cas. cas \<noteq> [] \<and> block_stored d r h cas))"

definition block_order :: "block_row \<Rightarrow> int \<times> ContentAddress" where
  "block_order b = (sint (blk_number b), blk_address b)"

definition listed :: "db \<Rightarrow> (block_row \<Rightarrow> bool) \<Rightarrow> block_row list" where
  "listed d p = sort_key block_order (filter p (t_block d))"

definition header_of :: "block_row \<Rightarrow> Header" where
  "header_of r = (case header_of_row r of Inr h \<Rightarrow> h | Inl _ \<Rightarrow> \<lparr>number = 0, timestamp = from_secs 0\<rparr>)"

definition sets_of :: "db \<Rightarrow> block_row \<Rightarrow> ContentAddress list" where
  "sets_of d r = map (\<lambda>(b, l, ss). the (map_option ss_addr ss)) (block_rows d r)"

lemma set_listed: "set (listed d p) = {r \<in> set (t_block d). p r}"
  by (auto simp: listed_def)

lemma distinct_block_order:
  assumes "block_table_wf d"
  shows "distinct (map block_order (filter p (t_block d)))"
proof -
  have "distinct (map blk_address (filter p (t_block d)))"
    using assms by (simp add: block_table_wf_def distinct_map_filter)
  then have "distinct (map snd (map block_order (filter p (t_block d))))"
    by (simp add: block_order_def comp_def)
  then show ?thesis
    by (rule distinct_map [THEN iffD1, THEN conjunct1])
qed

lemma listed_strict:
  assumes "block_table_wf d"
  shows "sorted_wrt (\<lambda>b c. block_order b < block_order c) (listed d p)"
proof -
  have "distinct (map block_order (listed d p))"
    using distinct_block_order [OF assms, of p]
    unfolding listed_def by (metis distinct_map distinct_sort set_sort)
  moreover have "sorted (map block_order (listed d p))"
    by (simp add: listed_def)
  ultimately have "sorted_wrt (<) (map block_order (listed d p))"
    by (simp add: strict_sorted_iff)
  then show ?thesis
    by (simp add: sorted_wrt_map)
qed

lemma sets_of_stored:
  assumes "solution_tables_wf d" and "block_stored d r h cas" and "cas \<noteq> []"
  shows "sets_of d r = cas" and "header_of r = h"
proof -
  have "map the (map (\<lambda>(b, l, ss). map_option ss_addr ss) (block_rows d r)) = cas"
    unfolding block_key_rows(2) [OF assms] by (simp add: comp_def)
  then show "sets_of d r = cas"
    by (simp add: sets_of_def comp_def case_prod_unfold)
  show "header_of r = h"
    using assms(2) by (simp add: block_stored_def header_of_def)
qed

lemma blocks_linked_D:
  assumes "solution_tables_wf d" and "blocks_linked d p" and "r \<in> set (listed d p)"
  shows "sets_of d r \<noteq> []" and "block_stored d r (header_of r) (sets_of d r)"
proof -
  from assms(2,3) obtain h cas where *: "cas \<noteq> []" "block_stored d r h cas"
    unfolding blocks_linked_def set_listed by blast
  with sets_of_stored [OF assms(1) *(2,1)]
  show "sets_of d r \<noteq> []" and "block_stored d r (header_of r) (sets_of d r)"
    by simp_all
qed

lemma order_by_perm:
  assumes "plan_ok E" and "mset rows = mset ys" and "sorted (map k ys)" and "distinct (map k ys)"
  shows "order_by E d q k rows = ys"
proof -
  have "inj_on k (set rows)"
    using assms(2,4) by (metis distinct_map mset_eq_setD)
  then have "order_by E d q k rows = sort_key k ys"
    by (simp add: order_by_inj [OF assms(1)] sort_key_perm [OF assms(2)])
  with assms(3) show ?thesis
    by (simp add: sort_key_sorted)
qed

lemma mset_concat_sort: "mset (concat (map f (sort_key k xs))) = mset (concat (map f xs))"
  by (simp add: mset_concat comp_def flip: sum_mset_sum_list)

lemma list_key_rows:
  assumes wf: "solution_tables_wf d" and stored: "block_stored d r h cas" and ne: "cas \<noteq> []"
  shows "map list_key (block_rows d r) =
    map (\<lambda>i. (sint (blk_number r), blk_address r, Suc i)) [0..<length cas]"
proof -
  have "map list_key (block_rows d r) =
      map (\<lambda>(b, i, a). (sint (blk_number b), blk_address b, null_first i))
        (map (\<lambda>(b, l, ss). (b, map_option bss_index l, map_option ss_addr ss)) (block_rows d r))"
    by (simp add: list_key_def case_prod_unfold)
  also have "\<dots> = map (\<lambda>i. (sint (blk_number r), blk_address r, Suc i)) [0..<length cas]"
    unfolding block_rows_stored [OF assms]
    by (induction cas rule: rev_induct) (simp_all add: enumerate0_snoc null_first_def)
  finally show ?thesis .
qed

lemma strict_list_key_rows:
  assumes wf: "solution_tables_wf d"
    and "sorted_wrt (\<lambda>b c. block_order b < block_order c) rs"
    and "\<And>r. r \<in> set rs \<Longrightarrow> cas r \<noteq> [] \<and> block_stored d r (h r) (cas r)"
  shows "sorted_wrt (<) (map list_key (concat (map (block_rows d) rs)))"
  using assms(2,3)
proof (induction rs)
  case (Cons r rs)
  have key: "set (map list_key (block_rows d b)) \<subseteq> {(sint (blk_number b), blk_address b, i) | i. True}"
    if "b \<in> set (r # rs)" for b
    using list_key_rows [OF wf, of b "h b" "cas b"] Cons.prems(2) [OF that] by auto
  have "sorted_wrt (<) (map list_key (block_rows d r))"
    using list_key_rows [OF wf, of r "h r" "cas r"] Cons.prems(2) [of r]
    by (simp add: sorted_wrt_map strict_sorted_iff sorted_wrt_upt)
  moreover have "x < y" if x: "x \<in> set (map list_key (block_rows d r))" and y: "b \<in> set rs"
    "y \<in> set (map list_key (block_rows d b))" for x y b
  proof -
    have "block_order r < block_order b"
      using Cons.prems(1) y(1) by simp
    moreover from key [of r] x obtain i where "x = (sint (blk_number r), blk_address r, i)"
      by auto
    moreover from key [of b] y obtain j where "y = (sint (blk_number b), blk_address b, j)"
      by auto
    ultimately show ?thesis
      by (auto simp: block_order_def)
  qed
  moreover have "sorted_wrt (<) (map list_key (concat (map (block_rows d) rs)))"
    using Cons by simp
  ultimately show ?case
    by (auto simp: sorted_wrt_append)
qed simp

lemma listing_rows:
  assumes wf: "db_wf d" and plan: "plan_ok E" and linked: "blocks_linked d p"
  shows "map list_row_of (order_by E d q list_key (block_join d p)) =
    concat (map (\<lambda>r. map (\<lambda>ca. (r, Some ca)) (sets_of d r)) (listed d p))"
proof -
  let ?ys = "concat (map (block_rows d) (listed d p))"
  note sane = db_wf_D(2) [OF wf] and linked' = blocks_linked_D [OF db_wf_D(2) [OF wf] linked]
  have "sorted_wrt (<) (map list_key ?ys)"
    using linked'
    by (intro strict_list_key_rows [where h = header_of and cas = "sets_of d", OF sane]
        listed_strict db_wf_D(1) [OF wf]) simp
  then have "order_by E d q list_key (block_join d p) = ?ys"
    using mset_concat_sort [of "block_rows d" block_order "filter p (t_block d)"]
    by (intro order_by_perm [OF plan]) (simp_all add: strict_sorted_iff block_join_rows listed_def)
  moreover have "map list_row_of (block_rows d r) = map (\<lambda>ca. (r, Some ca)) (sets_of d r)"
    if "r \<in> set (listed d p)" for r
  proof -
    have snoc: "map (\<lambda>(b, i, a). (b, a)) (map (\<lambda>(i, ca). (r, Some i, Some ca)) (enumerate0 cas))
        = map (\<lambda>ca. (r, Some ca)) cas" for cas :: "ContentAddress list"
      by (induction cas rule: rev_induct) (simp_all add: enumerate0_snoc)
    have "map (\<lambda>(b, i, a). (b, a)) (map (\<lambda>(b, l, ss). (b, map_option bss_index l, map_option ss_addr ss))
        (block_rows d r)) = map (\<lambda>ca. (r, Some ca)) (sets_of d r)"
      unfolding block_rows_stored [OF sane linked'(2) [OF that] linked'(1) [OF that]] by (rule snoc)
    then show ?thesis
      by (simp add: comp_def case_prod_unfold list_row_of_def [abs_def])
  qed
  ultimately show ?thesis
    by (simp add: map_concat comp_def cong: map_cong)
qed

section \<open>The grouping loop\<close>

definition set_at :: "node_ext \<Rightarrow> db \<Rightarrow> ContentAddress \<Rightarrow> SolutionSet" where
  "set_at E d ca =
     \<lparr>solutions = map (\<lambda>(ix, r). get_solution E d ca ix r) (enumerate0 (run_GET_SOLUTION E d ca))\<rparr>"

lemma get_solution_set_at [simp]: "get_solution_set E d ca = Ok (set_at E d ca)"
  by (simp add: get_solution_set_def set_at_def)

definition listed_block :: "node_ext \<Rightarrow> db \<Rightarrow> block_row \<Rightarrow> Block" where
  "listed_block E d r = \<lparr>header = header_of r, solution_sets = map (set_at E d) (sets_of d r)\<rparr>"

text \<open>Further rows of the block that is being built push their solution sets to it.\<close>

lemma group_rows_same:
  assumes "header_of_row r = Ok h"
  shows "group_rows (\<lambda>ca. Ok (g ca)) (Some (blk_address r)) (bs @ [b])
      (map (\<lambda>ca. (r, Some ca)) cas @ rest) =
    group_rows (\<lambda>ca. Ok (g ca)) (Some (blk_address r))
      (bs @ [b\<lparr>solution_sets := solution_sets b @ map g cas\<rparr>]) rest"
proof (induction cas arbitrary: b)
  case (Cons ca cas)
  show ?case
    by (simp add: decode_list_row_def assms get_hash_def push_solution_set_def Cons.IH Let_def)
qed simp

lemma group_rows_new:
  assumes "header_of_row r = Ok h" and "cas \<noteq> []" and "last_address \<noteq> Some (blk_address r)"
  shows "group_rows (\<lambda>ca. Ok (g ca)) last_address bs (map (\<lambda>ca. (r, Some ca)) cas @ rest) =
    group_rows (\<lambda>ca. Ok (g ca)) (Some (blk_address r))
      (bs @ [\<lparr>header = h, solution_sets = map g cas\<rparr>]) rest"
proof -
  obtain ca cas' where cas: "cas = ca # cas'"
    using assms(2) by (cases cas) auto
  show ?thesis
    using assms(1,3) group_rows_same [OF assms(1), of g bs _ cas' rest]
    by (simp add: cas decode_list_row_def get_hash_def push_solution_set_def Let_def)
qed

lemma group_rows_runs:
  assumes "\<And>r. r \<in> set rs \<Longrightarrow> header_of_row r = Ok (h r) \<and> cas r \<noteq> []"
    and "distinct (map blk_address rs)" and "last_address \<notin> Some ` blk_address ` set rs"
  shows "group_rows (\<lambda>ca. Ok (g ca)) last_address bs
      (concat (map (\<lambda>r. map (\<lambda>ca. (r, Some ca)) (cas r)) rs)) =
    Ok (bs @ map (\<lambda>r. \<lparr>header = h r, solution_sets = map g (cas r)\<rparr>) rs)"
  using assms
proof (induction rs arbitrary: last_address bs)
  case (Cons r rs)
  have "group_rows (\<lambda>ca. Ok (g ca)) last_address bs
      (map (\<lambda>ca. (r, Some ca)) (cas r) @ concat (map (\<lambda>r. map (\<lambda>ca. (r, Some ca)) (cas r)) rs)) =
    group_rows (\<lambda>ca. Ok (g ca)) (Some (blk_address r))
      (bs @ [\<lparr>header = h r, solution_sets = map g (cas r)\<rparr>])
      (concat (map (\<lambda>r. map (\<lambda>ca. (r, Some ca)) (cas r)) rs))"
    using Cons.prems by (intro group_rows_new) auto
  also have "\<dots> = Ok ((bs @ [\<lparr>header = h r, solution_sets = map g (cas r)\<rparr>]) @
      map (\<lambda>r. \<lparr>header = h r, solution_sets = map g (cas r)\<rparr>) rs)"
    using Cons.prems by (intro Cons.IH) auto
  finally show ?case by simp
qed simp

section \<open>Listings agree with \<open>get_block\<close>\<close>

lemma listing_blocks:
  assumes wf: "db_wf d" and plan: "plan_ok E" and linked: "blocks_linked d p"
  shows "group_rows (get_solution_set E d) None []
      (map list_row_of (order_by E d q list_key (block_join d p))) =
    Ok (map (listed_block E d) (listed d p))"
proof -
  note linked' = blocks_linked_D [OF db_wf_D(2) [OF wf] linked]
  have hdr: "header_of_row r = Ok (header_of r) \<and> sets_of d r \<noteq> []" if "r \<in> set (listed d p)" for r
    using linked' [OF that] by (simp add: block_stored_def)
  have dist: "distinct (map blk_address (listed d p))"
    using db_wf_D(1) [OF wf] unfolding block_table_wf_def listed_def
    by (metis distinct_map distinct_map_filter distinct_sort set_sort)
  have "group_rows (\<lambda>ca. Ok (set_at E d ca)) None []
      (concat (map (\<lambda>r. map (\<lambda>ca. (r, Some ca)) (sets_of d r)) (listed d p))) =
    Ok ([] @ map (\<lambda>r. \<lparr>header = header_of r, solution_sets = map (set_at E d) (sets_of d r)\<rparr>) (listed d p))"
    using hdr dist by (intro group_rows_runs) auto
  then show ?thesis
    unfolding listing_rows [OF assms] listed_block_def [abs_def]
    by (simp add: get_solution_set_at [abs_def])
qed

lemma get_block_listed:
  assumes wf: "db_wf d" and plan: "plan_ok E" and linked: "blocks_linked d p"
    and "r \<in> set (listed d p)"
  shows "get_block E d (blk_address r) = Ok (Some (listed_block E d r))"
proof -
  note linked' = blocks_linked_D [OF db_wf_D(2) [OF wf] linked assms(4)]
  show ?thesis
    unfolding get_block_stored [OF wf plan linked'(2,1)]
    by (simp add: listed_block_def get_solution_set_at [abs_def])
qed

lemma listing_get_block:
  assumes "db_wf d" and "plan_ok E" and "blocks_linked d p"
  shows "\<exists>bs. group_rows (get_solution_set E d) None []
      (map list_row_of (order_by E d q list_key (block_join d p))) = Ok bs \<and>
    map (\<lambda>b. Ok (Some b)) bs = map (get_block E d) (map blk_address (listed d p))"
  using listing_blocks [OF assms] get_block_listed [OF assms] by auto

lemma list_blocks_listed:
  assumes "db_wf d" and "plan_ok E" and "blocks_linked d (number_in_range lo hi)"
  shows "\<exists>bs. list_blocks E d lo hi = Ok bs \<and>
    map (\<lambda>b. Ok (Some b)) bs = map (get_block E d) (map blk_address (listed d (number_in_range lo hi)))"
  using listing_get_block [OF assms, of "LIST_BLOCKS lo hi"]
  by (simp add: list_blocks_def run_LIST_BLOCKS_def)

section \<open>Properties\<close>

text \<open>
  C4. If each block whose number is in the range has a solution set, \<open>list_blocks\<close> returns exactly
  these blocks, by number and then by address, each once and each equal to what \<open>get_block\<close> returns
  for its address.
\<close>

theorem list_blocks_get_block:
  assumes "db_wf d" and "plan_ok E" and "blocks_linked d (number_in_range lo hi)"
  shows "\<exists>bs. list_blocks E d lo hi = Ok bs \<and>
    map (\<lambda>b. Ok (Some b)) bs =
      map (\<lambda>r. get_block E d (blk_address r))
        (sort_key block_order (filter (number_in_range lo hi) (t_block d)))"
  using list_blocks_listed [OF assms] by (simp add: listed_def comp_def)

definition sample_two :: db where
  "sample_two = snd (insert_block sample_ext (sample_block 1 [[(1, 2)]])
     (snd (insert_block sample_ext (sample_block 2 [[(3, 4)], [(5, 6)]]) create_tables)))"

lemma sample_two_wf: "db_wf sample_two"
  unfolding sample_two_def by (intro insert_block_wf create_tables_wf)

lemma blocks_linked_code:
  assumes "\<And>r. r \<in> set (t_block d) \<Longrightarrow> header_of_row r = Ok (header_of r) \<and> sets_of d r \<noteq> [] \<and>
    map (set_id_of d) (sets_of d r) = map Some (map bss_set_id (block_links d (blk_id r))) \<and>
    block_links d (blk_id r) = link_rows (blk_id r) (map bss_set_id (block_links d (blk_id r)))"
  shows "blocks_linked d p"
  unfolding blocks_linked_def block_stored_def using assms by blast

lemma sample_two_linked: "blocks_linked sample_two p"
proof (rule blocks_linked_code)
  have "\<forall>r \<in> set (t_block sample_two). header_of_row r = Ok (header_of r) \<and> sets_of sample_two r \<noteq> [] \<and>
    map (set_id_of sample_two) (sets_of sample_two r) =
      map Some (map bss_set_id (block_links sample_two (blk_id r))) \<and>
    block_links sample_two (blk_id r) =
      link_rows (blk_id r) (map bss_set_id (block_links sample_two (blk_id r)))"
    by code_simp
  then show "header_of_row r = Ok (header_of r) \<and> sets_of sample_two r \<noteq> [] \<and>
    map (set_id_of sample_two) (sets_of sample_two r) =
      map Some (map bss_set_id (block_links sample_two (blk_id r))) \<and>
    block_links sample_two (blk_id r) =
      link_rows (blk_id r) (map bss_set_id (block_links sample_two (blk_id r)))"
    if "r \<in> set (t_block sample_two)" for r
    using that by blast
qed

lemma list_blocks_get_block_witness:
  "\<exists>bs. list_blocks sample_ext sample_two 1 3 = Ok bs \<and>
    map (\<lambda>b. Ok (Some b)) bs =
      map (\<lambda>r. get_block sample_ext sample_two (blk_address r))
        (sort_key block_order (filter (number_in_range 1 3) (t_block sample_two)))"
  by (rule list_blocks_get_block [OF sample_two_wf sample_plan_ok sample_two_linked])

lemma group_rows_Err:
  "r \<in> set rows \<Longrightarrow> decode_list_row r = Err e \<Longrightarrow> \<exists>e'. group_rows get l bs rows = Err e'"
proof (induction rows arbitrary: l bs)
  case (Cons r' rows)
  show ?case
  proof (cases "decode_list_row r'")
    case (Inr x)
    with Cons have r: "r \<in> set rows" by auto
    obtain a h ca where x: "x = (a, h, ca)" by (metis surj_pair)
    show ?thesis
    proof (cases "get ca")
      case (Inr s)
      then show ?thesis
        using Cons.IH [OF r Cons.prems(2)] \<open>decode_list_row r' = Inr x\<close> by (simp add: x Let_def)
    qed (simp add: Inr x)
  qed simp
qed simp

text \<open>
  One block without solution sets in the range makes the whole listing fail.
\<close>

theorem list_blocks_empty_block:
  assumes "db_wf d" and "plan_ok E" and "block_stored d r h []" and "number_in_range lo hi r"
  shows "\<exists>e. list_blocks E d lo hi = Err e"
proof -
  have "(r, None, None) \<in> set (block_join d (number_in_range lo hi))"
    using assms(3,4) empty_block_rows [OF assms(3)] by (force simp: block_join_rows block_stored_def)
  then have "list_row_of (r, None, None) \<in> set (run_LIST_BLOCKS E d lo hi)"
    unfolding run_LIST_BLOCKS_def set_map set_order_by [OF assms(2)] by (rule imageI)
  moreover have "decode_list_row (list_row_of (r, None, None)) = Err InvalidColumnType"
    using assms(3) by (simp add: decode_list_row_def list_row_of_def get_hash_def block_stored_def)
  ultimately show ?thesis
    unfolding list_blocks_def by (rule group_rows_Err)
qed

definition sample_row :: block_row where
  "sample_row = \<lparr>blk_id = 1, blk_address = content_addr_block sample_ext (sample_block 7 []),
     blk_parent_id = 0, blk_number = 7, blk_secs = 10, blk_nanos = 5\<rparr>"

lemma list_blocks_empty_block_witness:
  "\<exists>e. list_blocks sample_ext (snd (insert_block sample_ext (sample_block 7 []) create_tables)) 0 100 = Err e"
proof (rule list_blocks_empty_block)
  let ?d = "snd (insert_block sample_ext (sample_block 7 []) create_tables)"
  show "db_wf ?d"
    by (intro insert_block_wf create_tables_wf)
  show "plan_ok sample_ext"
    by (rule sample_plan_ok)
  show "number_in_range 0 100 sample_row"
    by code_simp
  have "t_block ?d = [sample_row]" "header_of_row sample_row = Ok (header (sample_block 7 []))"
    "block_links ?d (blk_id sample_row) = []"
    by code_simp+
  then show "block_stored ?d sample_row (header (sample_block 7 [])) []"
    by (simp add: block_stored_def link_rows_def)
qed

end
