(* ===== verification/WellTyped.thy ===== *)
theory WellTyped
  imports Listing
begin

text \<open>
  The rows of a database that the node has written decode to values of the Rust types: a column
  never has a value that its getter refuses, with one exception, the \<open>NULL\<close> that the outer join
  puts in place of the solution set address of a block without solution sets.
\<close>

section \<open>Rows that decode\<close>

definition no_sets :: "db \<Rightarrow> block_row \<Rightarrow> bool" where
  "no_sets d r \<longleftrightarrow> blk_id r \<notin> bss_block_id ` set (t_block_solution_set d)"

text \<open>The block was read from the row \<open>r\<close>: its header is a value of the type of headers.\<close>

definition typed_block :: "block_row \<Rightarrow> Block \<Rightarrow> bool" where
  "typed_block r b \<longleftrightarrow> header_of_row r = Ok (header b) \<and> number (header b) = blk_number r \<and>
     duration_ok (timestamp (header b)) \<and> solution_sets b \<noteq> []"

text \<open>
  A listing of the blocks that \<open>p\<close> selects fails if and only if one of them has no solution sets,
  and then on the type of the column, and otherwise it has typed blocks.
\<close>

definition typed_listing :: "db \<Rightarrow> (block_row \<Rightarrow> bool) \<Rightarrow> QueryError + Block list \<Rightarrow> bool" where
  "typed_listing d p res \<longleftrightarrow> (case res of
       Inl e \<Rightarrow> e = Rusqlite InvalidColumnType \<and> (\<exists>r \<in> set (t_block d). p r \<and> no_sets d r)
     | Inr bs \<Rightarrow> (\<forall>r \<in> set (t_block d). p r \<longrightarrow> \<not> no_sets d r) \<and>
         (\<forall>b \<in> set bs. \<exists>r \<in> set (t_block d). p r \<and> typed_block r b))"

lemma duration_ok_new [simp]: "duration_ok (Duration_new s n)"
  by (simp add: duration_ok_def Duration_new_def word_mod_less_divisor)

lemma header_of_row_typed:
  assumes "block_table_wf d" and "r \<in> set (t_block d)"
  obtains h where "header_of_row r = Ok h" "number h = blk_number r" "duration_ok (timestamp h)"
  using assms that
  by (fastforce simp: block_table_wf_def header_of_row_def get_u64_def get_u32_def)

lemma block_rows_typed:
  assumes "db_wf d"
  shows "block_rows d r \<noteq> []"
    and "(b, l, ss) \<in> set (block_rows d r) \<Longrightarrow> b = r \<and> (ss = None \<longleftrightarrow> no_sets d r)"
proof -
  show "block_rows d r \<noteq> []"
    by (auto simp: block_rows_def left_join_def filter_empty_conv)
  assume row: "(b, l, ss) \<in> set (block_rows d r)"
  have linked: "bss_set_id x \<in> ss_id ` set (t_solution_set d)" if "x \<in> set (t_block_solution_set d)" for x
    using assms that by (auto simp: db_wf_def block_solution_set_wf_def)
  from row obtain l' where b: "b = r" and l: "l' \<in> set (left_join (\<lambda>l. bss_block_id l = blk_id r) (t_block_solution_set d))"
    "l = l'" and ss: "ss \<in> set (left_join (\<lambda>ss. case l' of None \<Rightarrow> False | Some l'' \<Rightarrow> ss_id ss = bss_set_id l'') (t_solution_set d))"
    by (auto simp: block_rows_def)
  show "b = r \<and> (ss = None \<longleftrightarrow> no_sets d r)"
  proof (cases l')
    case None
    then have "no_sets d r"
      using l(1) by (auto simp: left_join_def no_sets_def filter_empty_conv split: if_splits)
    with ss b None show ?thesis
      by (auto simp: left_join_def)
  next
    case (Some x)
    then have x: "x \<in> set (t_block_solution_set d)" "bss_block_id x = blk_id r"
      using l(1) by (auto simp: left_join_def split: if_splits)
    then have "\<not> no_sets d r"
      by (force simp: no_sets_def)
    moreover obtain y where "y \<in> set (t_solution_set d)" "ss_id y = bss_set_id x"
      using linked [OF x(1)] by force
    then have "filter (\<lambda>ss. ss_id ss = bss_set_id x) (t_solution_set d) \<noteq> []"
      by (auto simp: filter_empty_conv)
    ultimately show ?thesis
      using ss b Some by (auto simp: left_join_def)
  qed
qed

text \<open>The grouping loop over rows whose headers decode.\<close>

lemma group_rows_typed:
  assumes "\<forall>row \<in> set rows. \<exists>h. header_of_row (fst row) = Ok h \<and> P h"
    and "\<forall>b \<in> set bs. P (header b) \<and> solution_sets b \<noteq> []" and "l \<noteq> None \<longrightarrow> bs \<noteq> []"
  shows "case group_rows (\<lambda>ca. Ok (g ca)) l bs rows of
      Inl e \<Rightarrow> e = Rusqlite InvalidColumnType \<and> (\<exists>row \<in> set rows. snd row = None)
    | Inr bs' \<Rightarrow> (\<forall>row \<in> set rows. snd row \<noteq> None) \<and> (\<forall>b \<in> set bs'. P (header b) \<and> solution_sets b \<noteq> [])"
  using assms
proof (induction rows arbitrary: l bs)
  case (Cons row rows)
  obtain h where h: "header_of_row (fst row) = Ok h" "P h"
    using Cons.prems(1) by auto
  show ?case
  proof (cases "snd row")
    case None
    then show ?thesis
      by (simp add: decode_list_row_def h get_hash_def)
  next
    case (Some ca)
    let ?bs = "push_solution_set (g ca) (if l = Some (blk_address (fst row)) then bs
      else bs @ [\<lparr>header = h, solution_sets = []\<rparr>])"
    have "\<forall>b \<in> set ?bs. P (header b) \<and> solution_sets b \<noteq> []"
      using Cons.prems(2,3) h(2) by (auto simp: push_solution_set_def Let_def dest: in_set_butlastD)
    moreover have "?bs \<noteq> []"
      by (simp add: push_solution_set_def Let_def)
    ultimately show ?thesis
      using Cons.IH [of ?bs "Some (blk_address (fst row))"] Cons.prems(1) Some
      by (auto simp: decode_list_row_def h get_hash_def Let_def split: sum.splits)
  qed
qed simp

lemma listing_typed:
  assumes wf: "db_wf d" and plan: "plan_ok E"
  shows "typed_listing d p (group_rows (get_solution_set E d) None []
    (map list_row_of (order_by E d q list_key (block_join d p))))"
proof -
  let ?rows = "map list_row_of (order_by E d q list_key (block_join d p))"
  let ?P = "\<lambda>h. \<exists>r \<in> set (t_block d). p r \<and> header_of_row r = Ok h \<and> number h = blk_number r \<and> duration_ok (timestamp h)"
  have rows: "set ?rows = {(r, map_option ss_addr ss) | r l ss. r \<in> set (t_block d) \<and> p r \<and> (r, l, ss) \<in> set (block_rows d r)}"
    using block_rows_typed(2) [OF wf]
    by (force simp: set_order_by [OF plan] block_join_rows list_row_of_def)
  have "\<exists>h. header_of_row (fst row) = Ok h \<and> ?P h" if row: "row \<in> set ?rows" for row
  proof -
    obtain r where r: "r \<in> set (t_block d)" "p r" "fst row = r"
      using row unfolding rows by auto
    from db_wf_D(1) [OF wf] r(1) show ?thesis
      by (rule header_of_row_typed) (use r in auto)
  qed
  then have "case group_rows (\<lambda>ca. Ok (set_at E d ca)) None [] ?rows of
      Inl e \<Rightarrow> e = Rusqlite InvalidColumnType \<and> (\<exists>row \<in> set ?rows. snd row = None)
    | Inr bs' \<Rightarrow> (\<forall>row \<in> set ?rows. snd row \<noteq> None) \<and> (\<forall>b \<in> set bs'. ?P (header b) \<and> solution_sets b \<noteq> [])"
    by (intro group_rows_typed) auto
  moreover have "(\<exists>row \<in> set ?rows. snd row = None) \<longleftrightarrow> (\<exists>r \<in> set (t_block d). p r \<and> no_sets d r)"
  proof -
    have ex: "\<exists>l ss. (r, l, ss) \<in> set (block_rows d r)" for r
    proof -
      obtain x where "x \<in> set (block_rows d r)"
        using block_rows_typed(1) [OF wf, of r] by (meson list.set_sel(1))
      with block_rows_typed(2) [OF wf] show ?thesis
        by (cases x) blast
    qed
    have "(\<exists>row \<in> set ?rows. snd row = None) \<longleftrightarrow>
        (\<exists>r \<in> set (t_block d). p r \<and> (\<exists>l. (r, l, None) \<in> set (block_rows d r)))"
      unfolding rows by fastforce
    also have "\<dots> \<longleftrightarrow> (\<exists>r \<in> set (t_block d). p r \<and> no_sets d r)"
      using ex block_rows_typed(2) [OF wf] by (metis (no_types, lifting))
    finally show ?thesis .
  qed
  ultimately show ?thesis
    unfolding typed_listing_def typed_block_def get_solution_set_at [abs_def]
    by (auto split: sum.splits)
qed

text \<open>The solution sets of a single block.\<close>

lemma collect_hashes:
  "case collect_results (map (\<lambda>row. bind_result (map_err Rusqlite (get_hash row)) (\<lambda>ca. Ok (g ca))) rows) of
     Inl e \<Rightarrow> e = Rusqlite InvalidColumnType \<and> None \<in> set rows
   | Inr xs \<Rightarrow> None \<notin> set rows \<and> length xs = length rows"
  by (induction rows) (auto simp: get_hash_def split: sum.splits option.splits)

lemma get_block_typed:
  assumes wf: "db_wf d" and plan: "plan_ok E"
  shows "case get_block E d a of
      Inl e \<Rightarrow> e = Rusqlite InvalidColumnType \<and> (\<exists>r \<in> set (t_block d). blk_address r = a \<and> no_sets d r)
    | Inr None \<Rightarrow> a \<notin> blk_address ` set (t_block d)
    | Inr (Some b) \<Rightarrow> \<exists>r \<in> set (t_block d). blk_address r = a \<and> \<not> no_sets d r \<and> typed_block r b"
proof (cases "a \<in> blk_address ` set (t_block d)")
  case False
  then have "get_block E d a = Ok None"
    using get_block_header_None [OF plan, of d a] by (simp add: get_block_def)
  with False show ?thesis by simp
next
  case True
  then obtain r where r: "r \<in> set (t_block d)" "blk_address r = a" by auto
  obtain h where h: "header_of_row r = Ok h" "number h = blk_number r" "duration_ok (timestamp h)"
    using header_of_row_typed [OF db_wf_D(1) [OF wf] r(1)] .
  have hdr: "get_block_header E d a = Ok (Some h)"
    using get_block_header_row [OF plan db_wf_D(1) [OF wf] r(1)] h(1) r(2) by simp
  let ?rows = "run_GET_BLOCK E d a"
  have set_rows: "set ?rows = (\<lambda>(b, l, ss). map_option ss_addr ss) ` set (block_rows d r)"
    using find_block_row [OF db_wf_D(1) [OF wf] r(1)] r(2)
    by (simp add: run_GET_BLOCK_def set_order_by [OF plan] block_join_rows)
  obtain x where x: "x \<in> set (block_rows d r)"
    using block_rows_typed(1) [OF wf, of r] by (meson list.set_sel(1))
  have none: "None \<in> set ?rows \<longleftrightarrow> no_sets d r"
  proof
    show "no_sets d r" if "None \<in> set ?rows"
      using that block_rows_typed(2) [OF wf, where r = r] unfolding set_rows by auto
    show "None \<in> set ?rows" if "no_sets d r"
      using that x block_rows_typed(2) [OF wf, where r = r] unfolding set_rows
      by (cases x) (force simp: image_iff)
  qed
  have "?rows \<noteq> []"
    using x set_rows by auto
  then show ?thesis
    using collect_hashes [where g = "set_at E d" and rows = ?rows] none r h
    by (auto simp: get_block_def hdr get_solution_set_at [abs_def] typed_block_def split: sum.splits)
qed

section \<open>Properties\<close>

text \<open>
  C19. Reads are well typed.  In every database that the write operations reach, \<open>get_block\<close>,
  \<open>list_blocks\<close> and \<open>list_unchecked_blocks\<close> fail exactly when a block they select has no solution
  sets, and always with the wrong type of that column; otherwise each block they return has
  solution sets and a header, as its row has it, with less than a second of nanoseconds.
\<close>

theorem reads_well_typed:
  assumes "plan_ok E" and "reachable (\<lambda>d. d = create_tables) (db_step E) d"
  shows "(case get_block E d a of
        Inl e \<Rightarrow> e = Rusqlite InvalidColumnType \<and> (\<exists>r \<in> set (t_block d). blk_address r = a \<and> no_sets d r)
      | Inr None \<Rightarrow> a \<notin> blk_address ` set (t_block d)
      | Inr (Some b) \<Rightarrow> \<exists>r \<in> set (t_block d). blk_address r = a \<and> \<not> no_sets d r \<and> typed_block r b) \<and>
    typed_listing d (number_in_range lo hi) (list_blocks E d lo hi) \<and>
    typed_listing d (\<lambda>r. number_in_range lo hi r \<and> blk_id r \<notin> fail_block_id ` set (t_failed_block d))
      (list_unchecked_blocks E d lo hi)"
proof -
  have wf: "db_wf d"
    using assms(2) by (rule node_db.reachable_inv)
  show ?thesis
    unfolding list_blocks_def run_LIST_BLOCKS_def list_unchecked_blocks_def run_LIST_UNCHECKED_BLOCKS_def
    by (intro conjI get_block_typed [OF wf assms(1)] listing_typed [OF wf assms(1)])
qed

text \<open>A block with a solution set at 1, and one without at 2.\<close>

definition sample_mixed :: db where
  "sample_mixed = snd (with_tx (Ok ()) (Ok ()) id (insert_block sample_ext (sample_block 2 []))
     (snd (with_tx (Ok ()) (Ok ()) id (insert_block sample_ext (sample_block 1 [[(1, 2)]])) create_tables)))"

lemma sample_mixed_reachable: "reachable (\<lambda>d. d = create_tables) (db_step sample_ext) sample_mixed"
  unfolding sample_mixed_def
  by (rule reach_step, rule reach_step, rule reach_start, rule refl) (rule db_step.step_insert_block)+

lemma reads_well_typed_witness:
  "typed_listing sample_mixed (number_in_range 1 2) (list_blocks sample_ext sample_mixed 1 2) \<and>
   typed_listing sample_mixed (number_in_range 1 3) (list_blocks sample_ext sample_mixed 1 3) \<and>
   (case list_blocks sample_ext sample_mixed 1 2 of Inr [b] \<Rightarrow> number (header b) = 1 | _ \<Rightarrow> False) \<and>
   list_blocks sample_ext sample_mixed 1 3 = Err (Rusqlite InvalidColumnType)"
proof (intro conjI)
  show "typed_listing sample_mixed (number_in_range 1 2) (list_blocks sample_ext sample_mixed 1 2)"
    using reads_well_typed [OF sample_plan_ok sample_mixed_reachable] by blast
  show "typed_listing sample_mixed (number_in_range 1 3) (list_blocks sample_ext sample_mixed 1 3)"
    using reads_well_typed [OF sample_plan_ok sample_mixed_reachable] by blast
  show "case list_blocks sample_ext sample_mixed 1 2 of Inr [b] \<Rightarrow> number (header b) = 1 | _ \<Rightarrow> False"
    by code_simp
  show "list_blocks sample_ext sample_mixed 1 3 = Err (Rusqlite InvalidColumnType)"
    by code_simp
qed

end
