(* ===== verification/QueryRange.thy ===== *)
theory QueryRange
  imports Listing
begin

text \<open>
  \<open>node-db/src/query_range\<close>: the value of a key at a finalized block or solution set
  (\<open>finalized.rs\<close>), and at a block address (\<open>address.rs\<close> with the recursive statement
  \<open>query_state_block_address.sql\<close>).  The finalized queries are shown to read a versioned
  store: the value at a position is the last write at or before it.
\<close>

section \<open>Finalized queries\<close>

definition finalized_inclusive_block ::
  "node_ext \<Rightarrow> db \<Rightarrow> ContentAddress \<Rightarrow> Key \<Rightarrow> Word \<Rightarrow> QueryError + Value option" where
  "finalized_inclusive_block E d contract_ca key block_number =
     Ok (map_option (words_from_blob E)
       (run_QUERY_STATE_AT_BLOCK_FINALIZED E d contract_ca (blob_from_words E key) block_number))"

definition finalized_exclusive_block ::
  "node_ext \<Rightarrow> db \<Rightarrow> ContentAddress \<Rightarrow> Key \<Rightarrow> Word \<Rightarrow> QueryError + Value option" where
  "finalized_exclusive_block E d contract_ca key block_number =
     (case i64_checked_sub1 block_number of
        Some n \<Rightarrow> finalized_inclusive_block E d contract_ca key n
      | None \<Rightarrow> Ok None)"

definition finalized_inclusive_solution_set ::
  "node_ext \<Rightarrow> db \<Rightarrow> ContentAddress \<Rightarrow> Key \<Rightarrow> Word \<Rightarrow> u64 \<Rightarrow> QueryError + Value option" where
  "finalized_inclusive_solution_set E d contract_ca key block_number solution_set_index =
     bind_result (map_err Rusqlite (to_sql_u64 solution_set_index)) (\<lambda>ix.
       Ok (map_option (words_from_blob E)
         (run_QUERY_STATE_AT_SOLUTION_SET_FINALIZED E d contract_ca (blob_from_words E key)
            block_number ix)))"

definition finalized_exclusive_solution_set ::
  "node_ext \<Rightarrow> db \<Rightarrow> ContentAddress \<Rightarrow> Key \<Rightarrow> Word \<Rightarrow> u64 \<Rightarrow> QueryError + Value option" where
  "finalized_exclusive_solution_set E d contract_ca key block_number solution_set_index =
     (case u64_checked_sub1 solution_set_index of
        Some ix \<Rightarrow> finalized_inclusive_solution_set E d contract_ca key block_number ix
      | None \<Rightarrow> finalized_exclusive_block E d contract_ca key block_number)"

section \<open>Address queries\<close>

text \<open>
  A row of the recursive table \<open>chain\<close> keeps the block, the value found at it and the depth.
  \<open>chain_base\<close> and \<open>chain_step\<close> are the two branches of the \<open>UNION ALL\<close>; the recursive branch
  joins \<open>solution\<close> on the id of the block, as the statement has it.
\<close>

type_synonym chain_row = "block_row \<times> blob option \<times> nat"

definition found_values ::
  "db \<Rightarrow> ContentAddress \<Rightarrow> blob \<Rightarrow> nat option \<Rightarrow> blob option list" where [stmt_defs]:
  "found_values d c k set_id =
     [map_option mu_value m.
        s \<leftarrow> left_join (\<lambda>s. Some (sol_set_id s) = set_id \<and> sol_contract s = c) (t_solution d),
        m \<leftarrow> left_join (\<lambda>m. case s of None \<Rightarrow> False
                | Some s' \<Rightarrow> mu_solution_id m = sol_id s' \<and> mu_key m = k) (t_mutation d)]"

definition chain_base :: "db \<Rightarrow> ContentAddress \<Rightarrow> blob \<Rightarrow> ContentAddress \<Rightarrow> chain_row list" where [stmt_defs]:
  "chain_base d c k a =
     [(b, v, 0). b \<leftarrow> t_block d, blk_address b = a,
        l \<leftarrow> left_join (\<lambda>l. bss_block_id l = blk_id b) (t_block_solution_set d),
        v \<leftarrow> found_values d c k (map_option bss_set_id l)]"

definition chain_step :: "db \<Rightarrow> ContentAddress \<Rightarrow> blob \<Rightarrow> chain_row \<Rightarrow> chain_row list" where [stmt_defs]:
  "chain_step d c k r = (case r of (cb, cv, depth) \<Rightarrow>
     if cv = None \<and> blk_id cb \<notin> fin_block_id ` set (t_finalized_block d)
     then [(b, v, Suc depth). b \<leftarrow> t_block d, blk_id b = blk_parent_id cb,
             v \<leftarrow> found_values d c k (Some (blk_id b))]
     else [])"

text \<open>
  The recursive table level by level.  A parent has a smaller id than its block, so that the
  levels are empty after as many steps as the largest id (\<open>chain_fuel_enough\<close>).
\<close>

fun chain_levels :: "nat \<Rightarrow> db \<Rightarrow> ContentAddress \<Rightarrow> blob \<Rightarrow> chain_row list \<Rightarrow> chain_row list" where
  "chain_levels 0 d c k rows = []"
| "chain_levels (Suc fuel) d c k rows =
     rows @ chain_levels fuel d c k (concat (map (chain_step d c k) rows))"

definition chain :: "db \<Rightarrow> ContentAddress \<Rightarrow> blob \<Rightarrow> ContentAddress \<Rightarrow> chain_row list" where
  "chain d c k a = chain_levels (next_rowid (map blk_id (t_block d))) d c k (chain_base d c k a)"

text \<open>The scalar subquery: the last write of the key in the block, up to a solution set.\<close>

definition block_writes :: "db \<Rightarrow> ContentAddress \<Rightarrow> blob \<Rightarrow> nat \<Rightarrow> (nat \<times> blob) list" where [stmt_defs]:
  "block_writes d c k bid =
     [(bss_index l, mu_value m). l \<leftarrow> t_block_solution_set d, bss_block_id l = bid,
        s \<leftarrow> t_solution d, sol_set_id s = bss_set_id l \<and> sol_contract s = c,
        m \<leftarrow> t_mutation d, mu_solution_id m = sol_id s \<and> mu_key m = k]"

definition run_block_value ::
  "node_ext \<Rightarrow> db \<Rightarrow> ContentAddress \<Rightarrow> blob \<Rightarrow> nat \<Rightarrow> Word option \<Rightarrow> blob option" where [stmt_defs]:
  "run_block_value E d c k bid ix =
     map_option snd (first_row (order_by E d (QUERY_STATE_BLOCK_ADDRESS_VALUE c k bid ix)
       (\<lambda>(i, v). - int i)
       (filter (\<lambda>(i, v). case ix of None \<Rightarrow> True | Some j \<Rightarrow> int i \<le> sint j)
         (block_writes d c k bid))))"

definition run_QUERY_STATE_BLOCK_ADDRESS ::
  "node_ext \<Rightarrow> db \<Rightarrow> ContentAddress \<Rightarrow> blob \<Rightarrow> ContentAddress \<Rightarrow> Word option \<Rightarrow>
   (blob option \<times> Word) option" where [stmt_defs]:
  "run_QUERY_STATE_BLOCK_ADDRESS E d c k a ix =
     map_option (\<lambda>(b, v, depth). (run_block_value E d c k (blk_id b) ix, blk_number b))
       (first_row (order_by E d (QUERY_STATE_BLOCK_ADDRESS c k a ix) (\<lambda>(b, v, depth). depth)
         (filter (\<lambda>(b, v, depth). v \<noteq> None) (chain d c k a))))"

text \<open>The \<open>match\<close> on the row, shared by the two inclusive queries.\<close>

definition value_or_finalized ::
  "node_ext \<Rightarrow> db \<Rightarrow> ContentAddress \<Rightarrow> Key \<Rightarrow> (blob option \<times> Word) option \<Rightarrow>
   QueryError + Value option" where
  "value_or_finalized E d contract_ca key row =
     (case row of
        None \<Rightarrow> Ok None
      | Some (Some value_blob, _) \<Rightarrow> Ok (Some (words_from_blob E value_blob))
      | Some (None, block_number) \<Rightarrow> finalized_inclusive_block E d contract_ca key block_number)"

definition address_inclusive_block ::
  "node_ext \<Rightarrow> db \<Rightarrow> ContentAddress \<Rightarrow> Key \<Rightarrow> ContentAddress \<Rightarrow> QueryError + Value option" where
  "address_inclusive_block E d contract_ca key block_address =
     value_or_finalized E d contract_ca key
       (run_QUERY_STATE_BLOCK_ADDRESS E d contract_ca (blob_from_words E key) block_address None)"

definition address_exclusive_block ::
  "node_ext \<Rightarrow> db \<Rightarrow> ContentAddress \<Rightarrow> Key \<Rightarrow> ContentAddress \<Rightarrow> QueryError + Value option" where
  "address_exclusive_block E d contract_ca key block_address =
     bind_result (map_err Rusqlite (get_parent_block_address E d block_address)) (\<lambda>p. case p of
       None \<Rightarrow> Ok None
     | Some parent_addr \<Rightarrow> address_inclusive_block E d contract_ca key parent_addr)"

definition address_inclusive_solution_set ::
  "node_ext \<Rightarrow> db \<Rightarrow> ContentAddress \<Rightarrow> Key \<Rightarrow> ContentAddress \<Rightarrow> u64 \<Rightarrow> QueryError + Value option" where
  "address_inclusive_solution_set E d contract_ca key block_address solution_set_index =
     bind_result (map_err Rusqlite (to_sql_u64 solution_set_index)) (\<lambda>ix.
       value_or_finalized E d contract_ca key
         (run_QUERY_STATE_BLOCK_ADDRESS E d contract_ca (blob_from_words E key) block_address
           (Some ix)))"

definition address_exclusive_solution_set ::
  "node_ext \<Rightarrow> db \<Rightarrow> ContentAddress \<Rightarrow> Key \<Rightarrow> ContentAddress \<Rightarrow> u64 \<Rightarrow> QueryError + Value option" where
  "address_exclusive_solution_set E d contract_ca key block_address solution_set_index =
     (case u64_checked_sub1 solution_set_index of
        Some ix \<Rightarrow> address_inclusive_solution_set E d contract_ca key block_address ix
      | None \<Rightarrow> address_exclusive_block E d contract_ca key block_address)"

section \<open>Versioned stores\<close>

text \<open>
  The abstract reading of a history of positioned writes: replay them in the order of their
  positions and keep the last value.
\<close>

definition replay :: "('o::linorder \<times> 'v) list \<Rightarrow> 'v option" where
  "replay ws = fold (\<lambda>w _. Some (snd w)) (sort_key fst ws) None"

lemma fold_last: "fold (\<lambda>w _. Some (snd w)) ws a = (if ws = [] then a else Some (snd (last ws)))"
  by (induction ws arbitrary: a) auto

lemma replay_None [simp]: "replay ws = None \<longleftrightarrow> ws = []"
  unfolding replay_def fold_last by (auto dest: arg_cong [where f = length])

lemma replay_Some:
  assumes "distinct (map fst ws)"
  shows "replay ws = Some v \<longleftrightarrow> (\<exists>p. (p, v) \<in> set ws \<and> (\<forall>w \<in> set ws. fst w \<le> p))"
proof -
  have best: "last (sort_key fst ws) \<in> set ws" "\<forall>w \<in> set ws. fst w \<le> fst (last (sort_key fst ws))"
    if "ws \<noteq> []"
  proof -
    let ?ss = "sort_key fst ws"
    have ne: "?ss \<noteq> []" using that by (metis set_empty set_sort)
    then show "last ?ss \<in> set ws" by (metis last_in_set set_sort)
    have "sorted (map fst (butlast ?ss @ [last ?ss]))"
      using ne by simp
    then have "\<forall>w \<in> set (butlast ?ss @ [last ?ss]). fst w \<le> fst (last ?ss)"
      unfolding map_append sorted_append by auto
    with ne show "\<forall>w \<in> set ws. fst w \<le> fst (last ?ss)" by simp
  qed
  show ?thesis
  proof (cases "ws = []")
    case False
    define b where "b = last (sort_key fst ws)"
    have r: "replay ws = Some (snd b)"
      using False unfolding replay_def fold_last b_def by (metis set_empty set_sort)
    have b: "b \<in> set ws" "\<forall>w \<in> set ws. fst w \<le> fst b"
      using best [OF False] unfolding b_def by blast+
    have "v = snd b" if "(p, v) \<in> set ws" "\<forall>w \<in> set ws. fst w \<le> p" for p
    proof -
      have "fst (p, v) = fst b" using that b by (force intro: antisym)
      then have "(p, v) = b"
        by (rule distinct_map_inject [OF assms that(1) b(1)])
      then show ?thesis by (metis snd_conv)
    qed
    show ?thesis
    proof
      assume "replay ws = Some v"
      then have "(fst b, v) = b" using r by (cases b) simp
      then have "(fst b, v) \<in> set ws" using b(1) by simp
      with b(2) show "\<exists>p. (p, v) \<in> set ws \<and> (\<forall>w \<in> set ws. fst w \<le> p)" by blast
    next
      assume "\<exists>p. (p, v) \<in> set ws \<and> (\<forall>w \<in> set ws. fst w \<le> p)"
      with \<open>\<And>p. (p, v) \<in> set ws \<Longrightarrow> \<forall>w \<in> set ws. fst w \<le> p \<Longrightarrow> v = snd b\<close> r
      show "replay ws = Some v" by blast
    qed
  qed (simp add: replay_def)
qed

locale versioned_store =
  fixes ok :: "'s \<Rightarrow> 'k \<Rightarrow> bool" and covers :: "'c \<Rightarrow> 'o::linorder \<Rightarrow> bool"
    and history :: "'s \<Rightarrow> 'k \<Rightarrow> ('o \<times> 'v) list" and read :: "'s \<Rightarrow> 'k \<Rightarrow> 'c \<Rightarrow> 'v option"
  assumes distinct_history: "ok s k \<Longrightarrow> distinct (map fst (history s k))"
    and read_replay: "ok s k \<Longrightarrow> read s k c = replay (filter (\<lambda>w. covers c (fst w)) (history s k))"
begin

lemma distinct_covered: "ok s k \<Longrightarrow> distinct (map fst (filter P (history s k)))"
  using distinct_history by (simp add: distinct_map_filter)

lemma read_Some:
  "ok s k \<Longrightarrow> read s k c = Some v \<longleftrightarrow>
    (\<exists>p. (p, v) \<in> set (history s k) \<and> covers c p \<and>
      (\<forall>w \<in> set (history s k). covers c (fst w) \<longrightarrow> fst w \<le> p))"
proof -
  assume "ok s k"
  have "(\<forall>w \<in> {x \<in> set (history s k). covers c (fst x)}. Q w) \<longleftrightarrow>
      (\<forall>w \<in> set (history s k). covers c (fst w) \<longrightarrow> Q w)" for Q
    by auto
  then show ?thesis
    by (simp only: read_replay [OF \<open>ok s k\<close>] replay_Some [OF distinct_covered [OF \<open>ok s k\<close>]]
        set_filter mem_Collect_eq fst_conv conj_assoc)
qed

lemma read_None:
  "ok s k \<Longrightarrow> read s k c = None \<longleftrightarrow> (\<forall>w \<in> set (history s k). \<not> covers c (fst w))"
  by (simp add: read_replay filter_empty_conv)

text \<open>Two cuts with the same writes read the same value.\<close>

lemma read_cong:
  assumes "ok s k" and "ok s' k"
    and "\<And>w. (w \<in> set (history s k) \<and> covers c (fst w)) = (w \<in> set (history s' k) \<and> covers c' (fst w))"
  shows "read s k c = read s' k c'"
proof (cases "read s k c")
  case None
  then have "read s' k c' = None"
    using assms by (meson read_None)
  with None show ?thesis by simp
next
  case (Some v)
  then obtain p where p: "(p, v) \<in> set (history s k)" "covers c p"
    "\<forall>w \<in> set (history s k). covers c (fst w) \<longrightarrow> fst w \<le> p"
    using read_Some [OF assms(1)] by blast
  have "(p, v) \<in> set (history s' k)" "covers c' p"
    using assms(3) [of "(p, v)"] p by simp_all
  moreover have "\<forall>w \<in> set (history s' k). covers c' (fst w) \<longrightarrow> fst w \<le> p"
    using assms(3) p(3) by blast
  ultimately have "read s' k c' = Some v"
    using read_Some [OF assms(2)] by blast
  with Some show ?thesis by simp
qed

text \<open>A cut that covers one more position, above the others, reads the write at that position.\<close>

lemma read_extend:
  assumes "ok s k" and "\<And>q. covers c' q \<longleftrightarrow> covers c q \<or> q = p" and "\<And>q. covers c q \<Longrightarrow> q < p"
  shows "read s k c' = (case map_of (history s k) p of Some v \<Rightarrow> Some v | None \<Rightarrow> read s k c)"
proof (cases "map_of (history s k) p")
  case None
  then have "p \<notin> fst ` set (history s k)"
    by (simp add: map_of_eq_None_iff)
  then have "read s k c' = read s k c"
    using assms(2) by (intro read_cong [OF assms(1) assms(1)]) auto
  with None show ?thesis by simp
next
  case (Some v)
  then have "(p, v) \<in> set (history s k)"
    by (rule map_of_SomeD)
  then have "read s k c' = Some v"
    unfolding read_Some [OF assms(1)] using assms(2,3) by (intro exI [of _ p]) (auto intro: less_imp_le)
  with Some show ?thesis by simp
qed

end

section \<open>Finalized queries read a versioned store\<close>

text \<open>The four finalized queries, and the part of the history each covers.\<close>

datatype cut =
    InclusiveBlock Word
  | ExclusiveBlock Word
  | InclusiveSolutionSet Word u64
  | ExclusiveSolutionSet Word u64

fun cut_covers :: "cut \<Rightarrow> int \<times> nat \<Rightarrow> bool" where
  "cut_covers (InclusiveBlock n) p \<longleftrightarrow> fst p \<le> sint n"
| "cut_covers (ExclusiveBlock n) p \<longleftrightarrow> fst p < sint n"
| "cut_covers (InclusiveSolutionSet n ix) p \<longleftrightarrow> p \<le> (sint n, unat ix)"
| "cut_covers (ExclusiveSolutionSet n ix) p \<longleftrightarrow> p < (sint n, unat ix)"

fun finalized_query ::
  "node_ext \<Rightarrow> db \<Rightarrow> ContentAddress \<Rightarrow> Key \<Rightarrow> cut \<Rightarrow> QueryError + Value option" where
  "finalized_query E d c k (InclusiveBlock n) = finalized_inclusive_block E d c k n"
| "finalized_query E d c k (ExclusiveBlock n) = finalized_exclusive_block E d c k n"
| "finalized_query E d c k (InclusiveSolutionSet n ix) = finalized_inclusive_solution_set E d c k n ix"
| "finalized_query E d c k (ExclusiveSolutionSet n ix) = finalized_exclusive_solution_set E d c k n ix"

text \<open>A position in a block is below \<open>2^63\<close>, as SQLite keeps it in an \<open>i64\<close>.\<close>

fun cut_index_ok :: "cut \<Rightarrow> bool" where
  "cut_index_ok (InclusiveSolutionSet n ix) \<longleftrightarrow> fits_i64 ix"
| "cut_index_ok (ExclusiveSolutionSet n ix) \<longleftrightarrow> fits_i64 ix"
| "cut_index_ok _ \<longleftrightarrow> True"

definition finalized_history ::
  "node_ext \<Rightarrow> db \<Rightarrow> ContentAddress \<Rightarrow> Key \<Rightarrow> ((int \<times> nat) \<times> Value) list" where
  "finalized_history E d c k =
     map (\<lambda>(n, i, v). ((sint n, i), words_from_blob E v)) (finalized_writes d c (blob_from_words E k))"

text \<open>
  At most one write of the key in each finalized solution set, and at most one set at each
  position of a finalized block: what the checks on solution sets ensure.
\<close>

definition single_writes :: "node_ext \<Rightarrow> db \<Rightarrow> ContentAddress \<Rightarrow> Key \<Rightarrow> bool" where
  "single_writes E d c k \<longleftrightarrow> distinct (map fst (finalized_history E d c k))"

lemma latest_row:
  assumes plan: "plan_ok E" and dist: "distinct (map (\<lambda>(n, i, v). (sint n, i)) rows)"
  shows "map_option f (map_option (\<lambda>(_, _, v). v) (first_row (order_by E d q write_desc rows))) =
    replay (map (\<lambda>(n, i, v). ((sint n, i), f v)) rows)"
proof (cases "first_row (order_by E d q write_desc rows)")
  case None
  then have "rows = []"
    by (simp only: first_row_order_by_None [OF plan])
  with None show ?thesis by (simp add: replay_def)
next
  case (Some w)
  obtain n i v where w: "w = (n, i, v)" by (cases w)
  let ?ws = "map (\<lambda>(n, i, v). ((sint n, i), f v)) rows"
  note first = first_row_order_by [OF plan Some]
  have "map fst ?ws = map (\<lambda>(n, i, v). (sint n, i)) rows"
    by (induction rows) auto
  then have "distinct (map fst ?ws)"
    using dist by (simp only:)
  moreover have "((sint n, i), f v) \<in> set ?ws"
    using imageI [OF first(1), of "\<lambda>(n, i, v). ((sint n, i), f v)"] by (simp add: w)
  moreover have "fst x \<le> (sint n, i)" if "x \<in> set ?ws" for x
  proof -
    from that obtain n' i' v' where x: "(n', i', v') \<in> set rows" "x = ((sint n', i'), f v')"
      by auto
    show ?thesis
      using first(2) [OF x(1)] by (auto simp: w x(2) write_desc_def)
  qed
  ultimately have "replay ?ws = Some (f v)"
    using replay_Some [of ?ws "f v"] by blast
  with Some show ?thesis by (simp add: w)
qed

lemma filter_history:
  "filter (\<lambda>w. Q (fst w)) (finalized_history E d c k) =
   map (\<lambda>(n, i, v). ((sint n, i), words_from_blob E v))
     (filter (\<lambda>(n, i, v). Q (sint n, i)) (finalized_writes d c (blob_from_words E k)))"
  by (simp add: finalized_history_def filter_map comp_def case_prod_unfold)

lemma distinct_positions:
  assumes "single_writes E d c k"
  shows "distinct (map (\<lambda>(n, i, v). (sint n, i)) (filter P (finalized_writes d c (blob_from_words E k))))"
proof -
  have "map fst (map (\<lambda>(n, i, v). ((sint n, i), f v)) ws) = map (\<lambda>(n, i, v). (sint n, i)) ws"
    for f :: "blob \<Rightarrow> Value" and ws :: "(Word \<times> nat \<times> blob) list"
    by (induction ws) auto
  then have "map fst (finalized_history E d c k) =
      map (\<lambda>(n, i, v). (sint n, i)) (finalized_writes d c (blob_from_words E k))"
    by (simp only: finalized_history_def)
  with assms show ?thesis
    by (simp add: single_writes_def distinct_map_filter)
qed

lemma finalized_inclusive_block_replay:
  assumes "plan_ok E" and "single_writes E d c k"
  shows "finalized_inclusive_block E d c k n =
    Ok (replay (filter (\<lambda>w. fst (fst w) \<le> sint n) (finalized_history E d c k)))"
  unfolding finalized_inclusive_block_def run_QUERY_STATE_AT_BLOCK_FINALIZED_def
    filter_history [where Q = "\<lambda>p. fst p \<le> sint n"]
  by (subst latest_row [OF assms(1) distinct_positions [OF assms(2)]]) (simp add: case_prod_unfold)

lemma finalized_inclusive_solution_set_replay:
  assumes "plan_ok E" and "single_writes E d c k" and "unat ix < 2 ^ 63"
  shows "finalized_inclusive_solution_set E d c k n ix =
    Ok (replay (filter (\<lambda>w. fst w \<le> (sint n, unat ix)) (finalized_history E d c k)))"
proof -
  have ix: "to_sql_u64 ix = Ok ix" "sint ix = int (unat ix)"
    using assms(3) sint_i64_unat [of ix] by (simp_all add: to_sql_u64_def sint_i64_nonneg)
  have le: "((sint m, int i) \<le> (sint n, sint ix)) = ((sint m, i) \<le> (sint n, unat ix))" for m :: Word and i :: nat
    unfolding less_eq_prod_simp ix(2) of_nat_le_iff by (rule refl)
  have "(\<lambda>(m :: Word, i, v :: blob). (sint m, int i) \<le> (sint n, sint ix)) =
      (\<lambda>(m, i, v). (sint m, i) \<le> (sint n, unat ix))"
    unfolding le ..
  then show ?thesis
    unfolding finalized_inclusive_solution_set_def run_QUERY_STATE_AT_SOLUTION_SET_FINALIZED_def
      filter_history [where Q = "\<lambda>p. p \<le> (sint n, unat ix)"] ix(1)
    by (simp only: latest_row [OF assms(1) distinct_positions [OF assms(2)]] bind_result.simps
        map_err.simps)
qed

lemma cut_covers_exclusive:
  "n \<noteq> i64_min \<Longrightarrow> fst p \<le> sint (n - 1) \<longleftrightarrow> fst p < sint n"
  by (simp add: sint_i64_dec)

lemma finalized_exclusive_block_replay:
  assumes "plan_ok E" and "single_writes E d c k"
  shows "finalized_exclusive_block E d c k n =
    Ok (replay (filter (\<lambda>w. fst (fst w) < sint n) (finalized_history E d c k)))"
proof (cases "n = i64_min")
  case True
  have "\<not> fst (fst w) < sint n" if "w \<in> set (finalized_history E d c k)" for w
    using that sint_i64_bounds(1) by (auto simp: finalized_history_def True not_less)
  then have "filter (\<lambda>w. fst (fst w) < sint n) (finalized_history E d c k) = []"
    by (simp add: filter_empty_conv)
  then show ?thesis
    by (simp add: finalized_exclusive_block_def i64_checked_sub1_def True replay_def)
next
  case False
  then show ?thesis
    by (simp add: finalized_exclusive_block_def i64_checked_sub1_def cut_covers_exclusive
        finalized_inclusive_block_replay [OF assms])
qed

lemma finalized_exclusive_solution_set_replay:
  assumes "plan_ok E" and "single_writes E d c k" and "unat ix < 2 ^ 63"
  shows "finalized_exclusive_solution_set E d c k n ix =
    Ok (replay (filter (\<lambda>w. fst w < (sint n, unat ix)) (finalized_history E d c k)))"
proof (cases "u64_checked_sub1 ix")
  case None
  then have "unat ix = 0"
    by (simp add: u64_checked_sub1_def split: if_splits)
  then have "p < (sint n, unat ix) \<longleftrightarrow> fst p < sint n" for p
    by (cases p) auto
  with None show ?thesis
    by (simp add: finalized_exclusive_solution_set_def finalized_exclusive_block_replay [OF assms(1,2)])
next
  case (Some jx)
  have jx: "unat jx = unat ix - 1" "0 < unat ix"
    using u64_checked_sub1_Some [OF Some] by blast+
  have "p \<le> (sint n, unat jx) \<longleftrightarrow> p < (sint n, unat ix)" for p :: "int \<times> nat"
    unfolding jx(1) using jx(2) by (cases p) auto
  moreover have "unat jx < 2 ^ 63"
    using jx assms(3) by linarith
  ultimately show ?thesis
    by (simp add: finalized_exclusive_solution_set_def Some
        finalized_inclusive_solution_set_replay [OF assms(1,2)])
qed

lemma finalized_query_replay:
  assumes "plan_ok E" and "single_writes E d c k" and "cut_index_ok q"
  shows "finalized_query E d c k q =
    Ok (replay (filter (\<lambda>w. cut_covers q (fst w)) (finalized_history E d c k)))"
  using assms by (cases q)
    (simp_all add: finalized_inclusive_block_replay finalized_exclusive_block_replay
       finalized_inclusive_solution_set_replay finalized_exclusive_solution_set_replay
       del: less_eq_prod_simp less_prod_simp)

text \<open>
  The interpretation of the interface: a cut whose index SQLite cannot hold, which
  \<open>finalized_query\<close> rejects, is read as the history says.
\<close>

definition finalized_read ::
  "node_ext \<times> db \<Rightarrow> ContentAddress \<times> Key \<Rightarrow> cut \<Rightarrow> Value option" where
  "finalized_read s ck q = (case (s, ck) of ((E, d), (c, k)) \<Rightarrow>
     if cut_index_ok q then (case finalized_query E d c k q of Inr v \<Rightarrow> v | Inl e \<Rightarrow> None)
     else replay (filter (\<lambda>w. cut_covers q (fst w)) (finalized_history E d c k)))"

interpretation finalized_store: versioned_store
  "\<lambda>(E, d) (c, k). plan_ok E \<and> single_writes E d c k" cut_covers
  "\<lambda>(E, d) (c, k). finalized_history E d c k" finalized_read
proof unfold_locales
  fix s :: "node_ext \<times> db" and ck :: "ContentAddress \<times> Key" and q
  assume ok: "(case s of (E, d) \<Rightarrow> \<lambda>(c, k). plan_ok E \<and> single_writes E d c k) ck"
  obtain E d c k where s: "s = (E, d)" "ck = (c, k)" by (cases s; cases ck)
  show "distinct (map fst ((case s of (E, d) \<Rightarrow> \<lambda>(c, k). finalized_history E d c k) ck))"
    using ok by (simp add: s single_writes_def)
  show "finalized_read s ck q = replay (filter (\<lambda>w. cut_covers q (fst w))
      ((case s of (E, d) \<Rightarrow> \<lambda>(c, k). finalized_history E d c k) ck))"
    using ok by (simp add: s finalized_read_def finalized_query_replay)
qed

lemma finalized_query_read:
  assumes "plan_ok E" and "single_writes E d c k" and "cut_index_ok q"
  shows "finalized_query E d c k q = Ok (finalized_read (E, d) (c, k) q)"
  using assms by (simp add: finalized_read_def finalized_query_replay)

section \<open>The recursive statement ends\<close>

lemma chain_levels_Nil [simp]: "chain_levels n d c k [] = []"
  by (induction n) auto

lemma chain_step_parent:
  "(b, v, depth) \<in> set (chain_step d c k (cb, cv, cdepth)) \<Longrightarrow>
     b \<in> set (t_block d) \<and> blk_id b = blk_parent_id cb"
  by (auto simp: chain_step_def split: if_splits)

lemma chain_levels_enough:
  assumes "block_table_wf d"
    and "\<And>b v depth. (b, v, depth) \<in> set rows \<Longrightarrow> b \<in> set (t_block d) \<and> blk_id b < fuel"
  shows "chain_levels (fuel + n) d c k rows = chain_levels fuel d c k rows"
  using assms(2)
proof (induction fuel arbitrary: rows)
  case 0
  then have "rows = []" by (cases rows) fastforce+
  then show ?case by simp
next
  case (Suc fuel)
  let ?next = "concat (map (chain_step d c k) rows)"
  have "b \<in> set (t_block d) \<and> blk_id b < fuel" if next_row: "(b, v, depth) \<in> set ?next" for b v depth
  proof -
    obtain cb cv cdepth where c: "(cb, cv, cdepth) \<in> set rows"
      "(b, v, depth) \<in> set (chain_step d c k (cb, cv, cdepth))"
      using next_row by auto
    have "blk_parent_id cb < blk_id cb" "blk_id cb < Suc fuel"
      using assms(1) Suc.prems [OF c(1)] by (auto simp: block_table_wf_def)
    with chain_step_parent [OF c(2)] show ?thesis by simp
  qed
  then have "chain_levels (fuel + n) d c k ?next = chain_levels fuel d c k ?next"
    by (rule Suc.IH)
  then show ?case by simp
qed

lemma chain_fuel_enough:
  assumes "db_wf d"
  shows "chain_levels (next_rowid (map blk_id (t_block d)) + n) d c k (chain_base d c k a) = chain d c k a"
  unfolding chain_def
  by (rule chain_levels_enough [OF db_wf_D(1) [OF assms]])
    (auto simp: chain_base_def intro: next_rowid_greater)

section \<open>Parents\<close>

text \<open>Without a block at the zero address no block has a parent.\<close>

definition no_parents :: "db \<Rightarrow> bool" where
  "no_parents d \<longleftrightarrow> (\<forall>r \<in> set (t_block d). blk_parent_id r = 0 \<and> blk_address r \<noteq> ContentAddress 0)"

lemma t_block_insert_solution_set: "t_block (insert_solution_set E a ix s ca d) = t_block d"
proof -
  have mu: "t_block (insert_mutations E ca j ms x) = t_block d" if "t_block x = t_block d" for j ms x
    unfolding insert_mutations_def using that
    by (rule fold_invariant [rotated]) (auto simp: INSERT_MUTATION_def split: option.splits)
  have pd: "t_block (insert_pred_data E ca j vs x) = t_block d" if "t_block x = t_block d" for j vs x
    unfolding insert_pred_data_def using that
    by (rule fold_invariant [rotated]) (auto simp: INSERT_PRED_DATA_def split: option.splits)
  have sol: "t_block (insert_solution E ca j sol x) = t_block d" if "t_block x = t_block d" for j sol x
    unfolding insert_solution_def using that
    by (intro pd mu) (simp add: INSERT_SOLUTION_def split: option.split)
  have "t_block (INSERT_BLOCK_SOLUTION_SET a ca ix (INSERT_SOLUTION_SET ca d)) = t_block d"
    by (simp add: INSERT_BLOCK_SOLUTION_SET_def INSERT_SOLUTION_SET_def split: option.split)
  then show ?thesis
    unfolding insert_solution_set_def
    by (rule fold_invariant [rotated, where P = "\<lambda>x. t_block x = t_block d"]) (auto simp: sol)
qed

lemma no_parents_insert_block:
  assumes "no_parents d" and "content_addr_block E b \<noteq> ContentAddress 0"
  shows "no_parents (snd (insert_block E b d))"
proof (cases rule: insert_block_cases [of b E d])
  case inserted
  let ?d = "INSERT_BLOCK (content_addr_block E b) (ContentAddress 0) (number (header b))
      (as_secs (timestamp (header b))) (ucast (subsec_nanos (timestamp (header b)))) d"
  have "ContentAddress 0 \<notin> blk_address ` set (t_block d)"
    using assms(1) by (auto simp: no_parents_def)
  then have "no_parents ?d"
    using assms by (auto simp: no_parents_def INSERT_BLOCK_def insert_or_ignore_def
        block_id_of_None [THEN iffD2])
  moreover have "t_block (fold (\<lambda>(ix, (sset, ca)). insert_solution_set E a ix sset ca) xs x) = t_block ?d"
    if "t_block x = t_block ?d" for a xs x
    using that by (rule fold_invariant [rotated, where P = "\<lambda>x. t_block x = t_block ?d"])
      (auto simp: t_block_insert_solution_set)
  ultimately show ?thesis
    unfolding inserted(2) no_parents_def by simp
qed (simp add: assms(1))

lemma no_parents_step:
  assumes "db_step E d d'" and "no_parents d" and "\<And>b. content_addr_block E b \<noteq> ContentAddress 0"
  shows "no_parents d'"
  using assms(1)
proof cases
  case (step_insert_block bg cm h b)
  then show ?thesis
    using with_tx_cases [of bg cm h "insert_block E b" d] no_parents_insert_block [OF assms(2,3)] assms(2)
    by (metis snd_conv)
qed (use assms(2) in \<open>simp add: no_parents_def finalize_block_def insert_failed_block_def
      update_state_def delete_state_def update_validation_progress_def of_stmt_def FINALIZE_BLOCK_def
      INSERT_FAILED_BLOCK_def UPDATE_STATE_def DELETE_STATE_def INSERT_VALIDATION_PROGRESS_def
      split: option.split sum.split\<close>)+

lemma reachable_no_parents:
  assumes "reachable (\<lambda>d. d = create_tables) (db_step E) d"
    and "\<And>b. content_addr_block E b \<noteq> ContentAddress 0"
  shows "no_parents d"
  using assms(1)
proof (induction rule: reachable.induct)
  case (reach_start s)
  then show ?case by (simp add: no_parents_def create_tables_def)
next
  case (reach_step s t)
  then show ?case using no_parents_step [OF _ _ assms(2)] by blast
qed

section \<open>Properties\<close>

text \<open>
  C3. Each of the four finalized queries (inclusive or exclusive of a block, or of a solution
  set within a block) returns the value that replaying the finalized writes of the key up to
  the queried position ends with, and \<open>None\<close> if there is no such write, where every solution set writes
  the key at most once.
\<close>

theorem finalized_query_refines_history:
  assumes "plan_ok E" and "single_writes E d c k" and "cut_index_ok q"
  shows "finalized_query E d c k q =
    Ok (replay (filter (\<lambda>w. cut_covers q (fst w)) (finalized_history E d c k)))"
  using assms by (rule finalized_query_replay)

definition sample_db :: db where
  "sample_db = snd (finalize_block (content_addr_block sample_ext (sample_block 1 [[(1, 2)], [(1, 4)]]))
     (snd (insert_block sample_ext (sample_block 1 [[(1, 2)], [(1, 4)]]) create_tables)))"

lemma finalized_query_refines_history_witness:
  "finalized_query sample_ext sample_db sample_contract [1] (ExclusiveSolutionSet 1 1) = Ok (Some [2])"
proof -
  have hyps: "single_writes sample_ext sample_db sample_contract [1]"
    "cut_index_ok (ExclusiveSolutionSet 1 1)"
    and val: "replay (filter (\<lambda>w. cut_covers (ExclusiveSolutionSet 1 1) (fst w))
       (finalized_history sample_ext sample_db sample_contract [1])) = Some [2]"
    by code_simp+
  show ?thesis
    unfolding finalized_query_refines_history [OF sample_plan_ok hyps] val ..
qed

text \<open>
  C21. If no block hashes to zero, then in every state the writes of the node reach, no block has a
  parent, as \<open>insert_block\<close> records the zero address as the parent of each block: the address query
  exclusive of a block finds no value, whatever the blocks before it have written.
\<close>

theorem address_exclusive_block_none:
  assumes "reachable (\<lambda>d. d = create_tables) (db_step E) d" and "plan_ok E"
    and "\<And>b. content_addr_block E b \<noteq> ContentAddress 0"
  shows "address_exclusive_block E d c k a = Ok None"
proof -
  have np: "no_parents d" and wf: "db_wf d"
    using reachable_no_parents [OF assms(1,3)] node_db.reachable_inv [OF assms(1)] by blast+
  have "filter (\<lambda>b'. blk_id b' = blk_parent_id b) (t_block d) = []" if "b \<in> set (t_block d)" for b
    using np db_wf_D(1) [OF wf] that by (auto simp: no_parents_def block_table_wf_def filter_empty_conv)
  moreover have "b \<in> set (t_block d)" if "block_of_address d a = Some b" for b
    using that by (auto simp: block_of_address_def dest: first_row_SomeD)
  ultimately have "get_parent_block_address E d a = Ok None"
    using assms(2) by (auto simp: get_parent_block_address_def run_GET_PARENT_BLOCK_ADDRESS_def
        split: option.split)
  then show ?thesis
    by (simp add: address_exclusive_block_def)
qed

lemma address_exclusive_block_none_witness:
  "let E = sample_ext\<lparr>hash_block_parts := \<lambda>_. 1\<rparr>;
       d = snd (with_tx (Ok ()) (Ok ()) id (insert_block E (sample_block 1 [[(1, 2)]])) create_tables)
   in address_exclusive_block E d sample_contract [1] (content_addr_block E (sample_block 1 [[(1, 2)]])) = Ok None"
proof -
  let ?E = "sample_ext\<lparr>hash_block_parts := \<lambda>_. 1\<rparr>"
  have "plan_ok ?E"
    using sample_plan_ok by (simp add: plan_ok_def)
  moreover have "content_addr_block ?E b \<noteq> ContentAddress 0" for b
    by (simp add: content_addr_block_parts from_header_and_solution_set_addrs_slice_def)
  ultimately show ?thesis
    unfolding Let_def
    by (intro address_exclusive_block_none db_step.step_insert_block
        reach_step [OF reach_start, where s = create_tables]) auto
qed

end
