(* ===== verification/FinalizedState.thy ===== *)
theory FinalizedState
  imports QueryRange
begin

text \<open>
  How inserting and finalizing a block changes the finalized state: the history gains the
  writes of the block at its number, and a query at that number reads the block's last write
  or, if the block does not write the key, what it read before.
\<close>

section \<open>Writes of a block\<close>

definition set_writes :: "SolutionSet \<Rightarrow> ContentAddress \<Rightarrow> Key \<Rightarrow> Value list" where
  "set_writes s c k =
     [mut_value m. sol \<leftarrow> solutions s, contract (predicate_to_solve sol) = c,
        m \<leftarrow> state_mutations sol, mut_key m = k]"

text \<open>The value of a key after the solution sets of a block, if they write it.\<close>

definition last_value :: "Value list \<Rightarrow> Value option" where
  "last_value vs = (if vs = [] then None else Some (last vs))"

definition sets_value :: "SolutionSet list \<Rightarrow> ContentAddress \<Rightarrow> Key \<Rightarrow> Value option" where
  "sets_value sets c k = last_value (concat (map (\<lambda>s. set_writes s c k) sets))"

lemma set_writes_iff:
  "v \<in> set (set_writes s c k) \<longleftrightarrow>
     (\<exists>sol \<in> set (solutions s). contract (predicate_to_solve sol) = c \<and>
        \<lparr>mut_key = k, mut_value = v\<rparr> \<in> set (state_mutations sol))"
proof -
  have eq: "(\<exists>m \<in> set ms. mut_key m = k \<and> v = mut_value m) \<longleftrightarrow>
      \<lparr>mut_key = k, mut_value = v\<rparr> \<in> set ms" for ms
  proof
    assume "\<exists>m \<in> set ms. mut_key m = k \<and> v = mut_value m"
    then obtain m where m: "m \<in> set ms" "mut_key m = k" "v = mut_value m" by blast
    obtain k' v' where "m = \<lparr>mut_key = k', mut_value = v'\<rparr>" by (cases m)
    with m show "\<lparr>mut_key = k, mut_value = v\<rparr> \<in> set ms" by simp
  next
    assume "\<lparr>mut_key = k, mut_value = v\<rparr> \<in> set ms"
    then show "\<exists>m \<in> set ms. mut_key m = k \<and> v = mut_value m"
      by (intro bexI [of _ "\<lparr>mut_key = k, mut_value = v\<rparr>"]) simp_all
  qed
  have "v \<in> set (set_writes s c k) \<longleftrightarrow>
     (\<exists>sol \<in> set (solutions s). contract (predicate_to_solve sol) = c \<and>
        (\<exists>m \<in> set (state_mutations sol). mut_key m = k \<and> v = mut_value m))"
    unfolding set_writes_def by (simp add: image_iff) blast
  then show ?thesis
    by (simp only: eq)
qed

lemma set_block_writes:
  "set (block_writes d c k bid) =
     {(bss_index l, mu_value m) | l s m. l \<in> set (t_block_solution_set d) \<and> bss_block_id l = bid \<and>
        s \<in> set (t_solution d) \<and> sol_set_id s = bss_set_id l \<and> sol_contract s = c \<and>
        m \<in> set (t_mutation d) \<and> mu_solution_id m = sol_id s \<and> mu_key m = k}"
  unfolding block_writes_def by auto

lemma set_finalized_writes:
  "set (finalized_writes d c k) =
     {(fin_number f, i, v) | f i v. f \<in> set (t_finalized_block d) \<and>
        (i, v) \<in> set (block_writes d c k (fin_block_id f))}"
proof -
  have "w \<in> set (finalized_writes d c k) \<longleftrightarrow>
      (\<exists>m s l f. m \<in> set (t_mutation d) \<and> mu_key m = k \<and> s \<in> set (t_solution d) \<and>
         sol_id s = mu_solution_id m \<and> sol_contract s = c \<and> l \<in> set (t_block_solution_set d) \<and>
         bss_set_id l = sol_set_id s \<and> f \<in> set (t_finalized_block d) \<and>
         fin_block_id f = bss_block_id l \<and> w = (fin_number f, bss_index l, mu_value m))" for w
    unfolding finalized_writes_def by auto
  then show ?thesis
    unfolding set_block_writes
    by (intro set_eqI)
      (simp only: mem_Collect_eq eq_commute [of "sol_id _" "mu_solution_id _"]
        eq_commute [of "bss_set_id _" "sol_set_id _"] eq_commute [of "fin_block_id _" "bss_block_id _"],
       blast)
qed

lemma stored_set_writes:
  assumes codec: "codec_ok E" and stored: "set_stored E d ca s" and sid: "set_id_of d ca = Some j"
  shows "(\<exists>r m. r \<in> set (t_solution d) \<and> sol_set_id r = j \<and> sol_contract r = c \<and>
      m \<in> set (t_mutation d) \<and> mu_solution_id m = sol_id r \<and> mu_key m = blob_from_words E k \<and>
      mu_value m = v) \<longleftrightarrow>
    (\<exists>w \<in> set (set_writes s c k). v = blob_from_words E w)" (is "?l \<longleftrightarrow> ?r")
proof -
  from stored sid obtain base where
    sols: "filter (\<lambda>r. sol_set_id r = j) (t_solution d) = solution_rows base j (solutions s)"
    and rows: "\<And>ix. ix < length (solutions s) \<Longrightarrow>
        map (\<lambda>m. (mu_key m, mu_value m)) (filter (\<lambda>m. mu_solution_id m = base + ix) (t_mutation d)) =
          map (\<lambda>m. (blob_from_words E (mut_key m), blob_from_words E (mut_value m)))
            (state_mutations (solutions s ! ix))"
    unfolding set_stored_def by fastforce
  have row: "r \<in> set (t_solution d) \<and> sol_set_id r = j \<longleftrightarrow> r \<in> set (solution_rows base j (solutions s))" for r
    unfolding sols [symmetric] by auto
  have mrow: "(\<exists>m. m \<in> set (t_mutation d) \<and> mu_solution_id m = base + ix \<and> mu_key m = bk \<and> mu_value m = bv)
      \<longleftrightarrow> (\<exists>mu \<in> set (state_mutations (solutions s ! ix)).
        bk = blob_from_words E (mut_key mu) \<and> bv = blob_from_words E (mut_value mu))"
    if "ix < length (solutions s)" for ix bk bv
  proof -
    have "(\<exists>m. m \<in> set (t_mutation d) \<and> mu_solution_id m = base + ix \<and> mu_key m = bk \<and> mu_value m = bv)
      \<longleftrightarrow> (bk, bv) \<in> set (map (\<lambda>m. (mu_key m, mu_value m)) (filter (\<lambda>m. mu_solution_id m = base + ix) (t_mutation d)))"
      by auto
    then show ?thesis
      unfolding rows [OF that] by auto
  qed
  show ?thesis
  proof
    assume ?l
    then obtain r m where r: "r \<in> set (solution_rows base j (solutions s))" "sol_contract r = c"
      and m: "m \<in> set (t_mutation d)" "mu_solution_id m = sol_id r" "mu_key m = blob_from_words E k"
        "mu_value m = v"
      using row by blast
    from r(1) obtain ix where ix: "ix < length (solutions s)" "sol_id r = base + ix"
        "sol_contract r = contract (predicate_to_solve (solutions s ! ix))"
      by (auto simp: solution_rows_def in_set_enumerate0)
    with m mrow [OF ix(1), of "mu_key m" "mu_value m"] obtain mu where
      mu: "mu \<in> set (state_mutations (solutions s ! ix))"
      "mu_key m = blob_from_words E (mut_key mu)" "mu_value m = blob_from_words E (mut_value mu)"
      by auto
    have "mu = \<lparr>mut_key = k, mut_value = mut_value mu\<rparr>"
      using m(3) mu(2)
      by (intro Mutation.equality) (simp_all add: blob_from_words_inject [OF codec])
    then have "mut_value mu \<in> set (set_writes s c k)"
      unfolding set_writes_iff using mu(1) ix r(2) by (metis nth_mem)
    with mu(3) m(4) show ?r by auto
  next
    assume ?r
    then obtain w where "v = blob_from_words E w" "w \<in> set (set_writes s c k)"
      by blast
    then obtain sol where w: "v = blob_from_words E w" "sol \<in> set (solutions s)"
      "contract (predicate_to_solve sol) = c" "\<lparr>mut_key = k, mut_value = w\<rparr> \<in> set (state_mutations sol)"
      unfolding set_writes_iff by blast
    then obtain ix where ix: "ix < length (solutions s)" "solutions s ! ix = sol"
      by (metis in_set_conv_nth)
    have "\<exists>mu \<in> set (state_mutations (solutions s ! ix)).
        blob_from_words E k = blob_from_words E (mut_key mu) \<and> v = blob_from_words E (mut_value mu)"
      using w(1,4) unfolding ix(2) by (intro bexI [of _ "\<lparr>mut_key = k, mut_value = w\<rparr>"]) simp_all
    then obtain m where m: "m \<in> set (t_mutation d)" "mu_solution_id m = base + ix"
      "mu_key m = blob_from_words E k" "mu_value m = v"
      using mrow [OF ix(1), of "blob_from_words E k" v] by blast
    let ?r = "\<lparr>sol_id = base + ix, sol_set_id = j, sol_index = ix, sol_contract = c,
        sol_predicate = predicate (predicate_to_solve sol)\<rparr>"
    have "?r \<in> set (solution_rows base j (solutions s))"
      unfolding solution_rows_def set_map using ix w(3)
      by (intro image_eqI [of _ _ "(ix, sol)"]) (simp_all add: in_set_enumerate0)
    then have "?r \<in> set (t_solution d)"
      using row by blast
    with m show ?l
      by (intro exI [of _ ?r] exI [of _ m]) simp
  qed
qed

lemma link_rows_upt:
  "link_rows bid ks =
     map (\<lambda>i. \<lparr>bss_block_id = bid, bss_set_id = ks ! i, bss_index = i\<rparr>) [0..<length ks]"
  by (rule nth_equalityI) (simp_all add: link_rows_def enumerate0_def)

lemma block_writes_stored:
  assumes codec: "codec_ok E" and stored: "block_stored d r h cas" and len: "length ss = length cas"
    and sets: "\<And>i. i < length cas \<Longrightarrow> set_stored E d (cas ! i) (ss ! i)"
  shows "(i, v) \<in> set (block_writes d c (blob_from_words E k) (blk_id r)) \<longleftrightarrow>
    i < length cas \<and> (\<exists>w \<in> set (set_writes (ss ! i) c k). v = blob_from_words E w)"
proof -
  from stored obtain ks where ks: "map (set_id_of d) cas = map Some ks"
    and links: "block_links d (blk_id r) = link_rows (blk_id r) ks"
    unfolding block_stored_def by blast
  have klen: "length ks = length cas"
    using ks map_eq_imp_length_eq by metis
  have kid: "set_id_of d (cas ! i) = Some (ks ! i)" if "i < length cas" for i
    using ks that klen by (metis nth_map)
  have link: "l \<in> set (t_block_solution_set d) \<and> bss_block_id l = blk_id r \<longleftrightarrow>
      (\<exists>i < length cas. l = \<lparr>bss_block_id = blk_id r, bss_set_id = ks ! i, bss_index = i\<rparr>)" for l
  proof -
    have "l \<in> set (t_block_solution_set d) \<and> bss_block_id l = blk_id r \<longleftrightarrow> l \<in> set (block_links d (blk_id r))"
      by (auto simp: block_links_def)
    also have "\<dots> \<longleftrightarrow> (\<exists>i < length cas. l = \<lparr>bss_block_id = blk_id r, bss_set_id = ks ! i, bss_index = i\<rparr>)"
      unfolding links link_rows_upt klen by auto
    finally show ?thesis .
  qed
  let ?P = "\<lambda>j. \<exists>s m. s \<in> set (t_solution d) \<and> sol_set_id s = j \<and> sol_contract s = c \<and>
      m \<in> set (t_mutation d) \<and> mu_solution_id m = sol_id s \<and> mu_key m = blob_from_words E k \<and>
      mu_value m = v"
  have "(i, v) \<in> set (block_writes d c (blob_from_words E k) (blk_id r)) \<longleftrightarrow>
      (\<exists>l. (l \<in> set (t_block_solution_set d) \<and> bss_block_id l = blk_id r) \<and> i = bss_index l \<and>
         ?P (bss_set_id l))"
    unfolding set_block_writes mem_Collect_eq prod.inject by blast
  also have "\<dots> \<longleftrightarrow> i < length cas \<and> ?P (ks ! i)"
  proof -
    have "(\<exists>l. (\<exists>i < n. l = \<lparr>bss_block_id = b, bss_set_id = ks ! i, bss_index = i\<rparr>) \<and>
        i = bss_index l \<and> P (bss_set_id l)) \<longleftrightarrow> i < n \<and> P (ks ! i)" for P n b
    proof
      assume "i < n \<and> P (ks ! i)"
      then show "\<exists>l. (\<exists>i < n. l = \<lparr>bss_block_id = b, bss_set_id = ks ! i, bss_index = i\<rparr>) \<and>
        i = bss_index l \<and> P (bss_set_id l)"
        by (intro exI [of _ "\<lparr>bss_block_id = b, bss_set_id = ks ! i, bss_index = i\<rparr>"]) auto
    qed auto
    then show ?thesis
      unfolding link .
  qed
  also have "\<dots> \<longleftrightarrow> i < length cas \<and> (\<exists>w \<in> set (set_writes (ss ! i) c k). v = blob_from_words E w)"
    using stored_set_writes [OF codec sets kid] by blast
  finally show ?thesis .
qed

section \<open>Inserting a block leaves the finalized history unchanged\<close>

lemma set_block_writes_links:
  "set (block_writes d c k bid) =
     {(bss_index l, mu_value m) | l s m. l \<in> set (block_links d bid) \<and>
        s \<in> set (t_solution d) \<and> sol_set_id s = bss_set_id l \<and> sol_contract s = c \<and>
        m \<in> set (t_mutation d) \<and> mu_solution_id m = sol_id s \<and> mu_key m = k}"
  unfolding set_block_writes block_links_def by auto

lemma insert_solution_set_old_writes:
  assumes wf: "db_wf d" and bid: "block_id_of d a = Some bid"
    and fresh: "ca \<notin> ss_addr ` set (t_solution_set d)" and other: "bid' \<noteq> bid"
  shows "set (block_writes (insert_solution_set E a ix s ca d) c k bid') = set (block_writes d c k bid')"
proof -
  define j where "j = next_rowid (map ss_id (t_solution_set d))"
  define base where "base = next_rowid (map sol_id (t_solution d))"
  let ?d = "insert_solution_set E a ix s ca d"
  note eq = insert_solution_set_eq [OF wf bid fresh j_def base_def, of E ix s]
  note below = references_below [OF db_wf_D(2) [OF wf], folded j_def base_def]
  have links: "block_links ?d bid' = block_links d bid'"
    using other by (simp add: block_links_def eq)
  have "bss_set_id l \<noteq> j" if "l \<in> set (block_links d bid')" for l
  proof -
    have "bss_set_id l \<in> ss_id ` set (t_solution_set d)"
      using that db_wf_D(3) [OF wf] by (auto simp: block_links_def block_solution_set_wf_def)
    then show ?thesis
      unfolding j_def by (metis next_rowid_fresh_image)
  qed
  then have sol: "s' \<in> set (t_solution ?d) \<and> sol_set_id s' = bss_set_id l \<longleftrightarrow>
      s' \<in> set (t_solution d) \<and> sol_set_id s' = bss_set_id l"
    if "l \<in> set (block_links d bid')" for s' l
    using that set_rows_bounds(3) [of s' base j "solutions s"] by (auto simp: eq)
  have mu: "m \<in> set (t_mutation ?d) \<and> mu_solution_id m = sol_id s' \<longleftrightarrow>
      m \<in> set (t_mutation d) \<and> mu_solution_id m = sol_id s'"
    if "s' \<in> set (t_solution d)" for s' m
  proof -
    have "sol_id s' < base"
      unfolding base_def using that by (intro next_rowid_greater) simp
    then show ?thesis
      using set_rows_bounds(1) [of m E base "solutions s"] by (auto simp: eq)
  qed
  show ?thesis
    unfolding set_block_writes_links links
  proof (intro set_eqI iffI)
    fix w
    assume "w \<in> {(bss_index l, mu_value m) | l s m. l \<in> set (block_links d bid') \<and>
        s \<in> set (t_solution ?d) \<and> sol_set_id s = bss_set_id l \<and> sol_contract s = c \<and>
        m \<in> set (t_mutation ?d) \<and> mu_solution_id m = sol_id s \<and> mu_key m = k}"
    with sol mu show "w \<in> {(bss_index l, mu_value m) | l s m. l \<in> set (block_links d bid') \<and>
        s \<in> set (t_solution d) \<and> sol_set_id s = bss_set_id l \<and> sol_contract s = c \<and>
        m \<in> set (t_mutation d) \<and> mu_solution_id m = sol_id s \<and> mu_key m = k}"
      unfolding mem_Collect_eq by metis
  next
    fix w
    assume "w \<in> {(bss_index l, mu_value m) | l s m. l \<in> set (block_links d bid') \<and>
        s \<in> set (t_solution d) \<and> sol_set_id s = bss_set_id l \<and> sol_contract s = c \<and>
        m \<in> set (t_mutation d) \<and> mu_solution_id m = sol_id s \<and> mu_key m = k}"
    with sol mu show "w \<in> {(bss_index l, mu_value m) | l s m. l \<in> set (block_links d bid') \<and>
        s \<in> set (t_solution ?d) \<and> sol_set_id s = bss_set_id l \<and> sol_contract s = c \<and>
        m \<in> set (t_mutation ?d) \<and> mu_solution_id m = sol_id s \<and> mu_key m = k}"
      unfolding mem_Collect_eq by metis
  qed
qed

lemma insert_solution_set_finalized:
  assumes "db_wf d" and "block_id_of d a = Some bid" and "ca \<notin> ss_addr ` set (t_solution_set d)"
  shows "t_finalized_block (insert_solution_set E a ix s ca d) = t_finalized_block d"
  by (simp add: insert_solution_set_eq [OF assms refl refl])

lemma insert_sets_old_writes:
  assumes "db_wf d" and "block_id_of d a = Some bid" and "bid' \<noteq> bid"
    and "distinct (map snd xs)" and "\<forall>x \<in> set xs. snd x \<notin> ss_addr ` set (t_solution_set d)"
  shows "set (block_writes (insert_sets E a xs d) c k bid') = set (block_writes d c k bid') \<and>
    t_finalized_block (insert_sets E a xs d) = t_finalized_block d"
  using assms(4,5)
proof (induction xs rule: rev_induct)
  case (snoc x xs)
  obtain s ca where x: "x = (s, ca)" by (cases x)
  let ?d = "insert_sets E a xs d"
  have ins: "sets_inserted E d bid xs ?d"
    using snoc.prems by (intro insert_sets_inserted assms(1,2)) simp_all
  note frame = sets_inserted_D(1,2) [OF ins]
  have wf: "db_wf ?d" and bid: "block_id_of ?d a = Some bid"
    using assms(1,2) frame(1) by (simp_all add: insert_sets_wf block_id_of_def block_of_address_def)
  have fresh: "ca \<notin> ss_addr ` set (t_solution_set ?d)"
    unfolding frame(2) using snoc.prems by (auto simp: x)
  show ?case
    using snoc insert_solution_set_old_writes [OF wf bid fresh assms(3), of E "length xs" s c k]
      insert_solution_set_finalized [OF wf bid fresh, of E "length xs" s]
    by (simp add: enumerate0_snoc x)
qed simp

section \<open>Finalizing an inserted block\<close>

lemma header_of_row_number: "header_of_row r = Ok h \<Longrightarrow> number h = blk_number r"
  by (auto simp: header_of_row_def bind_result_Ok_iff)

lemma finalize_block_Ok:
  assumes "db_wf d" and "finalize_block (blk_address r) d = (Ok (), d')" and "r \<in> set (t_block d)"
  shows "blk_number r \<notin> fin_number ` set (t_finalized_block d)"
    and "d' = d\<lparr>t_finalized_block := t_finalized_block d @
            [\<lparr>fin_number = blk_number r, fin_block_id = blk_id r\<rparr>]\<rparr>"
proof -
  have find: "block_of_address d (blk_address r) = Some r"
    using assms(3) db_wf_D(1) [OF assms(1)] by (simp add: block_of_address_Some)
  have "FINALIZE_BLOCK (blk_address r) d = Ok d'"
    using assms(2) by (auto simp: finalize_block_def of_stmt_def split: sum.splits)
  then show "blk_number r \<notin> fin_number ` set (t_finalized_block d)"
    "d' = d\<lparr>t_finalized_block := t_finalized_block d @
            [\<lparr>fin_number = blk_number r, fin_block_id = blk_id r\<rparr>]\<rparr>"
    using find by (auto simp: FINALIZE_BLOCK_def split: if_splits)
qed

lemma insert_block_fresh:
  assumes wf: "db_wf d" and fresh: "fresh_block E d b"
  obtains r where
    "block_stored (snd (insert_block E b d)) r (header b) (map (content_addr_solution_set E) (solution_sets b))"
    "blk_address r = content_addr_block E b" "blk_id r \<notin> blk_id ` set (t_block d)"
    "insert_block E b d = (Ok (content_addr_block E b), snd (insert_block E b d))"
    "\<forall>s \<in> set (solution_sets b). set_stored E (snd (insert_block E b d)) (content_addr_solution_set E s) s"
    "t_finalized_block (snd (insert_block E b d)) = t_finalized_block d"
    "\<And>j c k. j \<noteq> blk_id r \<Longrightarrow>
      set (block_writes (snd (insert_block E b d)) c k j) = set (block_writes d c k j)"
proof -
  let ?d = "snd (insert_block E b d)" and ?cas = "map (content_addr_solution_set E) (solution_sets b)"
  have f: "content_addr_block E b \<notin> blk_address ` set (t_block d)" "distinct ?cas"
    "\<forall>ca \<in> set ?cas. ca \<notin> ss_addr ` set (t_solution_set d)" "duration_ok (timestamp (header b))"
    "unat (as_secs (timestamp (header b))) < 2 ^ 63"
    using fresh by (simp_all add: fresh_block_def)
  have ins: "insert_block E b d = (Ok (content_addr_block E b), ?d)"
    using f(5) by (cases rule: insert_block_cases [of b E d]) simp_all
  note res = insert_block_stored [OF wf ins f(1) refl f(2,3,4)]
  from res(2) obtain r where r: "block_stored ?d r (header b) ?cas"
      "blk_address r = content_addr_block E b" "blk_id r \<notin> blk_id ` set (t_block d)"
    and wf0: "db_wf (d\<lparr>t_block := t_block d @ [r]\<rparr>)"
    and d: "?d = insert_sets E (content_addr_block E b) (zip (solution_sets b) ?cas)
        (d\<lparr>t_block := t_block d @ [r]\<rparr>)"
    by blast
  have bid: "block_id_of (d\<lparr>t_block := t_block d @ [r]\<rparr>) (content_addr_block E b) = Some (blk_id r)"
    using db_wf_D(1) [OF wf0] r(2) by (auto simp: block_id_of_Some)
  have frame: "set (block_writes ?d c k j) = set (block_writes d c k j)"
    "t_finalized_block ?d = t_finalized_block d" if "j \<noteq> blk_id r" for j c k
  proof -
    have "map snd (zip (solution_sets b) ?cas) = ?cas"
      by simp
    moreover have "snd x \<in> set ?cas" if "x \<in> set (zip (solution_sets b) ?cas)" for x
      using set_zip_rightD [of "fst x" "snd x" "solution_sets b" ?cas] that
      by (simp only: prod.collapse)
    with f(3) have "\<forall>x \<in> set (zip (solution_sets b) ?cas). snd x \<notin> ss_addr ` set (t_solution_set d)"
      by blast
    ultimately have "set (block_writes ?d c k j) = set (block_writes (d\<lparr>t_block := t_block d @ [r]\<rparr>) c k j) \<and>
        t_finalized_block ?d = t_finalized_block (d\<lparr>t_block := t_block d @ [r]\<rparr>)"
      unfolding d using f(2)
      by (intro insert_sets_old_writes [OF wf0 bid that]) simp_all
    then show "set (block_writes ?d c k j) = set (block_writes d c k j)"
      "t_finalized_block ?d = t_finalized_block d"
      by (simp_all add: set_block_writes)
  qed
  have fins: "t_finalized_block ?d = t_finalized_block d"
    by (rule frame(2) [of "Suc (blk_id r)"]) simp
  show ?thesis
    by (rule that [OF r ins res(3) fins frame(1)])
qed

text \<open>Finalizing an inserted block succeeds if its number is free.\<close>

lemma finalize_inserted:
  assumes wf: "db_wf d" and fresh: "fresh_block E d b"
    and free: "number (header b) \<notin> fin_number ` set (t_finalized_block d)"
  shows "\<exists>d'. finalize_block (content_addr_block E b) (snd (insert_block E b d)) = (Ok (), d')"
proof -
  obtain r where r: "block_stored (snd (insert_block E b d)) r (header b)
      (map (content_addr_solution_set E) (solution_sets b))"
    "blk_address r = content_addr_block E b" "blk_id r \<notin> blk_id ` set (t_block d)"
    and fins: "t_finalized_block (snd (insert_block E b d)) = t_finalized_block d"
    by (rule insert_block_fresh [OF wf fresh], rule that)
  have "block_of_address (snd (insert_block E b d)) (content_addr_block E b) = Some r"
    using r(1,2) db_wf_D(1) [OF insert_block_wf [OF wf]]
    by (simp add: block_of_address_Some block_stored_def)
  moreover have "blk_number r \<notin> fin_number ` set (t_finalized_block d)"
    using free header_of_row_number r(1) by (auto simp: block_stored_def)
  moreover have "fin_block_id ` set (t_finalized_block d) \<subseteq> blk_id ` set (t_block d)"
    using db_wf_D(4) [OF wf] by (force simp: finalized_wf_def)
  then have "blk_id r \<notin> fin_block_id ` set (t_finalized_block d)"
    using r(3) by blast
  ultimately show ?thesis
    by (simp add: finalize_block_def of_stmt_def FINALIZE_BLOCK_def fins)
qed

lemma insert_finalize_writes:
  assumes wf: "db_wf d" and codec: "codec_ok E" and fresh: "fresh_block E d b"
    and fin: "finalize_block (content_addr_block E b) (snd (insert_block E b d)) = (Ok (), d')"
  shows "set (finalized_writes d' c (blob_from_words E k)) =
      set (finalized_writes d c (blob_from_words E k)) \<union>
      {(number (header b), i, blob_from_words E v) | i v. i < length (solution_sets b) \<and>
         v \<in> set (set_writes (solution_sets b ! i) c k)}"
    and "number (header b) \<notin> fin_number ` set (t_finalized_block d)"
proof -
  let ?d = "snd (insert_block E b d)" and ?cas = "map (content_addr_solution_set E) (solution_sets b)"
  let ?k = "blob_from_words E k"
  obtain r where r: "block_stored ?d r (header b) ?cas"
      "blk_address r = content_addr_block E b" "blk_id r \<notin> blk_id ` set (t_block d)"
    and stored: "\<forall>s \<in> set (solution_sets b). set_stored E ?d (content_addr_solution_set E s) s"
    and fins: "t_finalized_block ?d = t_finalized_block d"
    and frame: "\<And>j c k. j \<noteq> blk_id r \<Longrightarrow> set (block_writes ?d c k j) = set (block_writes d c k j)"
    by (rule insert_block_fresh [OF wf fresh], rule that)
  have rin: "r \<in> set (t_block ?d)" and num: "number (header b) = blk_number r"
    using r(1) header_of_row_number by (auto simp: block_stored_def)
  note final = finalize_block_Ok [OF insert_block_wf [OF wf] fin [folded r(2)] rin]
  show "number (header b) \<notin> fin_number ` set (t_finalized_block d)"
    using final(1) by (simp add: num fins)
  have old: "set (block_writes d' c ?k (fin_block_id f)) = set (block_writes d c ?k (fin_block_id f))"
    if "f \<in> set (t_finalized_block d)" for f
  proof -
    have "fin_block_id f \<in> blk_id ` set (t_block d)"
      using db_wf_D(4) [OF wf] that by (force simp: finalized_wf_def)
    then have "fin_block_id f \<noteq> blk_id r"
      using r(3) by metis
    from frame [OF this] show ?thesis
      by (simp add: final(2) set_block_writes)
  qed
  have new: "(i, v) \<in> set (block_writes d' c ?k (blk_id r)) \<longleftrightarrow>
      i < length (solution_sets b) \<and> (\<exists>w \<in> set (set_writes (solution_sets b ! i) c k). v = blob_from_words E w)"
    for i v
  proof -
    have "(i, v) \<in> set (block_writes ?d c ?k (blk_id r)) \<longleftrightarrow>
        i < length ?cas \<and> (\<exists>w \<in> set (set_writes (solution_sets b ! i) c k). v = blob_from_words E w)"
      using stored by (intro block_writes_stored [OF codec r(1)]) simp_all
    then show ?thesis
      by (simp add: final(2) set_block_writes)
  qed
  have mem: "(n, i, v) \<in> set (finalized_writes x c ?k) \<longleftrightarrow> (\<exists>f \<in> set (t_finalized_block x).
      n = fin_number f \<and> (i, v) \<in> set (block_writes x c ?k (fin_block_id f)))" for n i v x
    unfolding set_finalized_writes by blast
  have fins': "t_finalized_block d' =
      t_finalized_block d @ [\<lparr>fin_number = blk_number r, fin_block_id = blk_id r\<rparr>]"
    by (simp add: final(2) fins)
  have "(n, i, v) \<in> set (finalized_writes d' c ?k) \<longleftrightarrow>
      (\<exists>f \<in> set (t_finalized_block d). n = fin_number f \<and> (i, v) \<in> set (block_writes d' c ?k (fin_block_id f))) \<or>
      n = blk_number r \<and> (i, v) \<in> set (block_writes d' c ?k (blk_id r))" for n i v
    unfolding mem fins' by auto
  moreover have "(\<exists>f \<in> set (t_finalized_block d). n = fin_number f \<and> (i, v) \<in> set (block_writes d' c ?k (fin_block_id f)))
      \<longleftrightarrow> (n, i, v) \<in> set (finalized_writes d c ?k)" for n i v
    unfolding mem using old by (intro bex_cong refl) blast
  ultimately have "(n, i, v) \<in> set (finalized_writes d' c ?k) \<longleftrightarrow> (n, i, v) \<in> set (finalized_writes d c ?k) \<or>
      n = blk_number r \<and> i < length (solution_sets b) \<and>
      (\<exists>w \<in> set (set_writes (solution_sets b ! i) c k). v = blob_from_words E w)" for n i v
    by (simp only: new)
  then show "set (finalized_writes d' c ?k) = set (finalized_writes d c ?k) \<union>
      {(number (header b), i, blob_from_words E v) | i v. i < length (solution_sets b) \<and>
         v \<in> set (set_writes (solution_sets b ! i) c k)}"
    unfolding num by (intro set_eqI) (auto split: prod.splits)
qed

lemma insert_finalize_history:
  assumes "db_wf d" and "codec_ok E" and "fresh_block E d b"
    and "finalize_block (content_addr_block E b) (snd (insert_block E b d)) = (Ok (), d')"
  shows "((n, i), v) \<in> set (finalized_history E d' c k) \<longleftrightarrow>
      ((n, i), v) \<in> set (finalized_history E d c k) \<or>
      n = sint (number (header b)) \<and> i < length (solution_sets b) \<and>
        v \<in> set (set_writes (solution_sets b ! i) c k)"
  unfolding finalized_history_def set_map insert_finalize_writes(1) [OF assms] image_Un Un_iff
proof (intro disj_cong refl)
  let ?new = "{(number (header b), i, blob_from_words E v) | i v. i < length (solution_sets b) \<and>
      v \<in> set (set_writes (solution_sets b ! i) c k)}"
  let ?f = "\<lambda>(n, i, v). ((sint n, i), words_from_blob E v)"
  have "?f ` ?new = {((sint (number (header b)), i), v) | i v. i < length (solution_sets b) \<and>
      v \<in> set (set_writes (solution_sets b ! i) c k)}"
  proof (intro set_eqI iffI)
    fix w
    assume "w \<in> {((sint (number (header b)), i), v) | i v. i < length (solution_sets b) \<and>
      v \<in> set (set_writes (solution_sets b ! i) c k)}"
    then obtain i v where w: "w = ((sint (number (header b)), i), v)" "i < length (solution_sets b)"
      "v \<in> set (set_writes (solution_sets b ! i) c k)" by blast
    then show "w \<in> ?f ` ?new"
      by (intro image_eqI [of _ _ "(number (header b), i, blob_from_words E v)"])
        (auto simp: words_from_blob_from_words [OF assms(2)])
  qed (auto simp: words_from_blob_from_words [OF assms(2)])
  then show "((n, i), v) \<in> ?f ` ?new \<longleftrightarrow> n = sint (number (header b)) \<and>
      i < length (solution_sets b) \<and> v \<in> set (set_writes (solution_sets b ! i) c k)"
    by auto
qed

section \<open>Queries after finalization\<close>

lemma history_number:
  assumes "n \<notin> fin_number ` set (t_finalized_block d)"
  shows "((sint n, i), v) \<notin> set (finalized_history E d c k)"
proof
  assume "((sint n, i), v) \<in> set (finalized_history E d c k)"
  then obtain m j w where "(m, j, w) \<in> set (finalized_writes d c (blob_from_words E k))" "sint m = sint n"
    unfolding finalized_history_def by auto
  then show False
    using assms unfolding set_finalized_writes sint_i64_inject by auto
qed

lemma map_of_single:
  assumes "distinct (map fst xs)" and "\<And>v. (p, v) \<in> set xs \<longleftrightarrow> v \<in> set vs"
  shows "map_of xs p = last_value vs"
proof (cases "vs = []")
  case True
  then show ?thesis
    using assms(2) by (force simp: last_value_def map_of_eq_None_iff)
next
  case False
  then have "(p, last vs) \<in> set xs"
    using assms(2) by simp
  then show ?thesis
    using assms(1) False by (simp add: last_value_def)
qed

lemma history_at_new_block:
  assumes "db_wf d" and "codec_ok E" and "fresh_block E d b"
    and "finalize_block (content_addr_block E b) (snd (insert_block E b d)) = (Ok (), d')"
    and "single_writes E d' c k" and "i < length (solution_sets b)"
  shows "map_of (finalized_history E d' c k) (sint (number (header b)), i) =
    last_value (set_writes (solution_sets b ! i) c k)"
proof (rule map_of_single)
  show "distinct (map fst (finalized_history E d' c k))"
    using assms(5) by (simp add: single_writes_def)
  fix v
  show "((sint (number (header b)), i), v) \<in> set (finalized_history E d' c k) \<longleftrightarrow>
      v \<in> set (set_writes (solution_sets b ! i) c k)"
    unfolding insert_finalize_history [OF assms(1-4)]
    using history_number [OF insert_finalize_writes(2) [OF assms(1-4)]] assms(6) by blast
qed

lemma sets_value_None: "sets_value sets c k = None \<longleftrightarrow> (\<forall>s \<in> set sets. set_writes s c k = [])"
  by (simp add: sets_value_def last_value_def)

lemma sets_value_Some:
  "sets_value sets c k = Some v \<Longrightarrow> \<exists>i < length sets. v \<in> set (set_writes (sets ! i) c k) \<and>
     (\<forall>j < length sets. i < j \<longrightarrow> set_writes (sets ! j) c k = [])"
proof (induction sets rule: rev_induct)
  case (snoc s sets)
  show ?case
  proof (cases "set_writes s c k = []")
    case True
    with snoc obtain i where "i < length sets" "v \<in> set (set_writes (sets ! i) c k)"
      "\<forall>j < length sets. i < j \<longrightarrow> set_writes (sets ! j) c k = []"
      by (auto simp: sets_value_def)
    with True show ?thesis
      by (intro exI [of _ i]) (auto simp: nth_append less_Suc_eq)
  next
    case False
    with snoc.prems have "v \<in> set (set_writes s c k)"
      by (auto simp: sets_value_def last_value_def)
    then show ?thesis
      by (intro exI [of _ "length sets"]) (simp add: nth_append)
  qed
qed (simp add: sets_value_def last_value_def)

text \<open>The sample block writes the keys 1 and 3 in its two solution sets.\<close>

definition sample_final :: "Block \<Rightarrow> db \<Rightarrow> db" where
  "sample_final b d =
     snd (finalize_block (content_addr_block sample_ext b) (snd (insert_block sample_ext b d)))"

definition sample_block1 :: Block where
  "sample_block1 = sample_block 1 [[(1, 2)], [(3, 4)]]"

lemma sample_hyps:
  "db_wf create_tables" "codec_ok sample_ext" "plan_ok sample_ext"
  "fresh_block sample_ext create_tables sample_block1"
  "finalize_block (content_addr_block sample_ext sample_block1)
     (snd (insert_block sample_ext sample_block1 create_tables)) = (Ok (), sample_final sample_block1 create_tables)"
proof -
  show "fresh_block sample_ext create_tables sample_block1"
    by code_simp
  have "fst (finalize_block (content_addr_block sample_ext sample_block1)
     (snd (insert_block sample_ext sample_block1 create_tables))) = Ok ()"
    by code_simp
  then show "finalize_block (content_addr_block sample_ext sample_block1)
     (snd (insert_block sample_ext sample_block1 create_tables)) = (Ok (), sample_final sample_block1 create_tables)"
    by (simp add: sample_final_def prod_eq_iff)
qed (fact create_tables_wf sample_codec_ok sample_plan_ok)+

lemma sample_single_writes:
  "single_writes sample_ext create_tables sample_contract [1]"
  "single_writes sample_ext (sample_final sample_block1 create_tables) sample_contract [1]"
  "single_writes sample_ext (sample_final sample_block1 create_tables) sample_contract [3]"
  by code_simp+

lemma read_before_new_block:
  assumes "db_wf d" and "codec_ok E" and "plan_ok E" and "fresh_block E d b"
    and "finalize_block (content_addr_block E b) (snd (insert_block E b d)) = (Ok (), d')"
    and "single_writes E d c k" and "single_writes E d' c k"
    and "\<And>i. \<not> cut_covers q (sint (number (header b)), i)"
  shows "finalized_read (E, d') (c, k) q = finalized_read (E, d) (c, k) q"
proof (rule finalized_store.read_cong)
  fix w :: "(int \<times> nat) \<times> Value"
  obtain n i v where w: "w = ((n, i), v)" by (metis surj_pair)
  show "(w \<in> set ((case (E, d') of (E, d) \<Rightarrow> \<lambda>(c, k). finalized_history E d c k) (c, k)) \<and>
      cut_covers q (fst w)) =
    (w \<in> set ((case (E, d) of (E, d) \<Rightarrow> \<lambda>(c, k). finalized_history E d c k) (c, k)) \<and>
      cut_covers q (fst w))"
    using assms(8) [of i] insert_finalize_history [OF assms(1,2,4,5), of n i v c k]
    by (auto simp: w)
qed (use assms in simp_all)

text \<open>
  C7. Finalizing a new block does not change a query that does not reach the block's number:
  whatever the block writes, the state at earlier blocks stays what it was.
\<close>

theorem finalize_keeps_earlier_state:
  assumes "db_wf d" and "codec_ok E" and "plan_ok E" and "fresh_block E d b"
    and "finalize_block (content_addr_block E b) (snd (insert_block E b d)) = (Ok (), d')"
    and "single_writes E d c k" and "single_writes E d' c k" and "cut_index_ok q"
    and "\<And>i. \<not> cut_covers q (sint (number (header b)), i)"
  shows "finalized_query E d' c k q = finalized_query E d c k q"
  using read_before_new_block [OF assms(1-7,9)] assms by (simp add: finalized_query_read)

lemma finalize_keeps_earlier_state_witness:
  "finalized_query sample_ext (sample_final sample_block1 create_tables) sample_contract [1]
     (ExclusiveBlock 1) = finalized_query sample_ext create_tables sample_contract [1] (ExclusiveBlock 1)"
  using finalize_keeps_earlier_state [OF sample_hyps(1,2,3,4,5) sample_single_writes(1,2), of "ExclusiveBlock 1"]
  by (simp add: sample_block1_def sample_block_def)

lemma read_at_new_block:
  assumes "db_wf d" and "codec_ok E" and "plan_ok E" and "fresh_block E d b"
    and "finalize_block (content_addr_block E b) (snd (insert_block E b d)) = (Ok (), d')"
    and "single_writes E d' c k" and "sets_value (solution_sets b) c k = Some v"
  shows "finalized_read (E, d') (c, k) (InclusiveBlock (number (header b))) = Some v"
proof -
  let ?n = "number (header b)" and ?q = "InclusiveBlock (number (header b))"
  note hist = insert_finalize_history [OF assms(1,2,4,5)]
  obtain i where i: "i < length (solution_sets b)" "v \<in> set (set_writes (solution_sets b ! i) c k)"
    "\<forall>j < length (solution_sets b). i < j \<longrightarrow> set_writes (solution_sets b ! j) c k = []"
    using sets_value_Some [OF assms(7)] by blast
  have latest: "fst w \<le> (sint ?n, i)" if "w \<in> set (finalized_history E d' c k)" "fst (fst w) \<le> sint ?n" for w
  proof -
    obtain m j u where w: "w = ((m, j), u)" by (metis surj_pair)
    have "j \<le> i" if "m = sint ?n"
      using \<open>w \<in> _\<close> hist [of m j u c k] i(3) that
        history_number [OF insert_finalize_writes(2) [OF assms(1,2,4,5)], of j u E c k]
      by (cases "j \<le> i") (auto simp: w not_le)
    with that(2) show ?thesis
      by (cases "m = sint ?n") (auto simp: w)
  qed
  show ?thesis
  proof (subst finalized_store.read_Some)
    show "(case (E, d') of (E, d) \<Rightarrow> \<lambda>(c, k). plan_ok E \<and> single_writes E d c k) (c, k)"
      using assms by simp
    show "\<exists>p. (p, v) \<in> set ((case (E, d') of (E, d) \<Rightarrow> \<lambda>(c, k). finalized_history E d c k) (c, k)) \<and>
        cut_covers ?q p \<and>
        (\<forall>w \<in> set ((case (E, d') of (E, d) \<Rightarrow> \<lambda>(c, k). finalized_history E d c k) (c, k)).
           cut_covers ?q (fst w) \<longrightarrow> fst w \<le> p)"
      using hist [of "sint ?n" i v c k] i latest by (intro exI [of _ "(sint ?n, i)"]) simp
  qed
qed

lemma read_without_writes:
  assumes "db_wf d" and "codec_ok E" and "plan_ok E" and "fresh_block E d b"
    and "finalize_block (content_addr_block E b) (snd (insert_block E b d)) = (Ok (), d')"
    and "single_writes E d c k" and "single_writes E d' c k" and "sets_value (solution_sets b) c k = None"
  shows "finalized_read (E, d') (c, k) q = finalized_read (E, d) (c, k) q"
proof -
  have "set_writes (solution_sets b ! i) c k = []" if "i < length (solution_sets b)" for i
    using assms(8) that by (simp add: sets_value_None)
  then have "w \<in> set (finalized_history E d' c k) \<longleftrightarrow> w \<in> set (finalized_history E d c k)" for w
    using insert_finalize_history [OF assms(1,2,4,5), of "fst (fst w)" "snd (fst w)" "snd w"] by (cases w) auto
  then show ?thesis
    using assms by (intro finalized_store.read_cong) simp_all
qed

text \<open>
  C5. After a new block is inserted and finalized, whose solution sets write the key at most once each, the
  state at its number is the value its
  solution sets write last; a key the block does not write keeps the value it had there
  before.
\<close>

theorem finalized_block_state:
  assumes "db_wf d" and "codec_ok E" and "plan_ok E" and "fresh_block E d b"
    and "finalize_block (content_addr_block E b) (snd (insert_block E b d)) = (Ok (), d')"
    and "single_writes E d c k" and "single_writes E d' c k"
  shows "finalized_inclusive_block E d' c k (number (header b)) =
    (case sets_value (solution_sets b) c k of
       Some v \<Rightarrow> Ok (Some v)
     | None \<Rightarrow> finalized_inclusive_block E d c k (number (header b)))"
proof -
  have "finalized_inclusive_block E x c k (number (header b)) =
      Ok (finalized_read (E, x) (c, k) (InclusiveBlock (number (header b))))" if "single_writes E x c k" for x
    using finalized_query_read [OF assms(3) that, of "InclusiveBlock (number (header b))"] by simp
  then show ?thesis
    using assms(6,7) read_at_new_block [OF assms(1-5,7)] read_without_writes [OF assms]
    by (simp split: option.split)
qed

lemma finalized_block_state_witness:
  "finalized_inclusive_block sample_ext (sample_final sample_block1 create_tables) sample_contract [1] 1
     = Ok (Some [2])"
proof -
  have "number (header sample_block1) = 1" "sets_value (solution_sets sample_block1) sample_contract [1] = Some [2]"
    by code_simp+
  then show ?thesis
    using finalized_block_state [OF sample_hyps sample_single_writes(1,2)] by simp
qed

lemma read_at_solution_set:
  assumes "db_wf d" and "codec_ok E" and "plan_ok E" and "fresh_block E d b"
    and "finalize_block (content_addr_block E b) (snd (insert_block E b d)) = (Ok (), d')"
    and "single_writes E d' c k" and "unat ix < length (solution_sets b)"
  shows "finalized_read (E, d') (c, k) (InclusiveSolutionSet (number (header b)) ix) =
    (case last_value (set_writes (solution_sets b ! unat ix) c k) of
       Some v \<Rightarrow> Some v
     | None \<Rightarrow> finalized_read (E, d') (c, k) (ExclusiveSolutionSet (number (header b)) ix))"
proof -
  let ?n = "number (header b)"
  have ok: "(case (E, d') of (E, d) \<Rightarrow> \<lambda>(c, k). plan_ok E \<and> single_writes E d c k) (c, k)"
    using assms by simp
  have "finalized_read (E, d') (c, k) (InclusiveSolutionSet ?n ix) =
      (case map_of ((case (E, d') of (E, d) \<Rightarrow> \<lambda>(c, k). finalized_history E d c k) (c, k)) (sint ?n, unat ix) of
        Some v \<Rightarrow> Some v
      | None \<Rightarrow> finalized_read (E, d') (c, k) (ExclusiveSolutionSet ?n ix))"
    by (rule finalized_store.read_extend [OF ok]) auto
  then show ?thesis
    using history_at_new_block [OF assms(1,2,4,5,6,7)] by simp
qed

text \<open>
  C6. Within a finalized block, the state at a solution set is the value the set writes or,
  if it writes none, the state just before the set.
\<close>

theorem finalized_solution_set_state:
  assumes "db_wf d" and "codec_ok E" and "plan_ok E" and "fresh_block E d b"
    and "finalize_block (content_addr_block E b) (snd (insert_block E b d)) = (Ok (), d')"
    and "single_writes E d' c k" and "fits_i64 ix" and "unat ix < length (solution_sets b)"
  shows "finalized_inclusive_solution_set E d' c k (number (header b)) ix =
    (case last_value (set_writes (solution_sets b ! unat ix) c k) of
       Some v \<Rightarrow> Ok (Some v)
     | None \<Rightarrow> finalized_exclusive_solution_set E d' c k (number (header b)) ix)"
  using finalized_query_read [OF assms(3,6), of "InclusiveSolutionSet (number (header b)) ix"]
    finalized_query_read [OF assms(3,6), of "ExclusiveSolutionSet (number (header b)) ix"] assms(7)
    read_at_solution_set [OF assms(1-6,8)]
  by (auto split: option.splits)

lemma finalized_solution_set_state_witness:
  "finalized_inclusive_solution_set sample_ext (sample_final sample_block1 create_tables)
     sample_contract [3] 1 1 = Ok (Some [4])"
proof -
  have "number (header sample_block1) = 1" "length (solution_sets sample_block1) = 2"
    "last_value (set_writes (solution_sets sample_block1 ! 1) sample_contract [3]) = Some [4]"
    by code_simp+
  then show ?thesis
    using finalized_solution_set_state [OF sample_hyps sample_single_writes(3), of 1] by simp
qed

end
