(* ===== verification/Validate.thy ===== *)
theory Validate
  imports FinalizedState "HOL-Library.AList"
begin

text \<open>
  \<open>node/src/validate.rs\<close>: the state a block is validated against (a connection pool, or the
  cascade of an in-memory database over it), the reads of a range of keys, the retrieval of
  predicates and programs from their registries, and the validation of the solution sets of a
  block.  The checker \<open>check_set_predicates\<close> and the iteration order of a \<open>HashMap\<close> are
  parameters; faults of the pool and of SQLite, and what other tasks write meanwhile, are the argument
  \<open>faults\<close>.
\<close>

section \<open>Keys\<close>

text \<open>The loop of \<open>next_key\<close> runs over the words from the last to the first.\<close>

fun next_key_rev :: "Word list \<Rightarrow> Word list option" where
  "next_key_rev [] = None"
| "next_key_rev (w # ws) =
     (if w = i64_max then map_option (\<lambda>ws'. i64_min # ws') (next_key_rev ws) else Some ((w + 1) # ws))"

definition next_key :: "Key \<Rightarrow> Key option" where
  "next_key key = map_option rev (next_key_rev (rev key))"

section \<open>The database of a validation\<close>

text \<open>A pool, or the memory database of a dry run that cascades to one.\<close>

datatype Db = ConnectionPool db | DryRun db db

text \<open>What is acquired from it, and the transactions on that.\<close>

datatype Conn = Cascade db db | Handle db

datatype Transaction = TxCascade db db | TxHandle db

text \<open>
  Where a connection is acquired or a transaction begun, on which of the two databases, and what
  may go wrong there: the pool is closed, the blocking task does not finish, or SQLite fails to
  begin.  The memory database may also fail to open, and to commit its block.  A transaction on the
  node's database sees what other tasks have written to it since the validation began (\<open>sees\<close>).
\<close>

datatype store = InMemory | OnDisk

datatype site =
    AtState bool nat ContentAddress Key nat
  | AtPredicates nat
  | AtPredicate nat PredicateAddress
  | AtPrograms nat
  | AtProgram nat ContentAddress
  | AtMemory
  | AtNumber

record faults =
  pool_open :: "store \<Rightarrow> site \<Rightarrow> bool"
  task_joins :: "site \<Rightarrow> bool"
  tx_begins :: "store \<Rightarrow> site \<Rightarrow> rusqlite_error + unit"
  sees :: "site \<Rightarrow> db \<Rightarrow> db"
  memory_opens :: "rusqlite_error + unit"
  memory_commits :: "rusqlite_error + unit"

definition no_faults :: faults where
  "no_faults = \<lparr>pool_open = (\<lambda>_ _. True), task_joins = (\<lambda>_. True), tx_begins = (\<lambda>_ _. Ok ()),
     sees = (\<lambda>_ d. d), memory_opens = Ok (), memory_commits = Ok ()\<rparr>"

text \<open>\<open>Db::acquire\<close> and \<open>Conn::transaction\<close>: the memory database first, then the node's.\<close>

fun acquire_conn :: "faults \<Rightarrow> site \<Rightarrow> Db \<Rightarrow> unit + Conn" where
  "acquire_conn F at (DryRun memory disk) =
     (if \<not> pool_open F InMemory at then Err ()
      else if \<not> pool_open F OnDisk at then Err ()
      else Ok (Cascade memory disk))"
| "acquire_conn F at (ConnectionPool d) = (if \<not> pool_open F OnDisk at then Err () else Ok (Handle d))"

fun transaction :: "faults \<Rightarrow> site \<Rightarrow> Conn \<Rightarrow> rusqlite_error + Transaction" where
  "transaction F at (Cascade memory disk) =
     bind_result (tx_begins F InMemory at) (\<lambda>_.
     bind_result (tx_begins F OnDisk at) (\<lambda>_. Ok (TxCascade memory (sees F at disk))))"
| "transaction F at (Handle d) = bind_result (tx_begins F OnDisk at) (\<lambda>_. Ok (TxHandle (sees F at d)))"

definition cascade ::
  "db \<Rightarrow> db \<Rightarrow> (db \<Rightarrow> QueryError + Value option) \<Rightarrow> QueryError + Value option" where
  "cascade memory disk f =
     bind_result (f memory) (\<lambda>v. case v of Some val \<Rightarrow> Ok (Some val) | None \<Rightarrow> f disk)"

fun query_db :: "Transaction \<Rightarrow> (db \<Rightarrow> QueryError + Value option) \<Rightarrow> QueryError + Value option" where
  "query_db (TxCascade memory disk) f = cascade memory disk f"
| "query_db (TxHandle d) f = f d"

definition query_state_at ::
  "node_ext \<Rightarrow> db \<Rightarrow> ContentAddress \<Rightarrow> Key \<Rightarrow> Word \<Rightarrow> u64 \<Rightarrow> bool \<Rightarrow> QueryError + Value option" where
  "query_state_at E d contract_ca key block_number solution_set_ix pre_state =
     (if pre_state
      then finalized_exclusive_solution_set E d contract_ca key block_number solution_set_ix
      else finalized_inclusive_solution_set E d contract_ca key block_number solution_set_ix)"

section \<open>Reading state\<close>

datatype StateReadError =
    SR_Query QueryError
  | SR_DbPoolClosed
  | SR_Rusqlite rusqlite_error
  | SR_Join
  | KeyRangeError

record State =
  block_number :: Word
  solution_set_index :: nat
  pre_state :: bool
  conn_pool :: Db

fun key_range_loop ::
  "(Key \<Rightarrow> QueryError + Value option) \<Rightarrow> nat \<Rightarrow> Key \<Rightarrow> StateReadError + Value list" where
  "key_range_loop query 0 key = Ok []"
| "key_range_loop query (Suc n) key =
     bind_result (map_err SR_Query (query key)) (\<lambda>v.
       case next_key key of
         None \<Rightarrow> Err KeyRangeError
       | Some key' \<Rightarrow> bind_result (key_range_loop query n key') (\<lambda>vs.
           Ok ((case v of Some val \<Rightarrow> val | None \<Rightarrow> []) # vs)))"

definition state_query ::
  "node_ext \<Rightarrow> State \<Rightarrow> Transaction \<Rightarrow> ContentAddress \<Rightarrow> Key \<Rightarrow> QueryError + Value option" where
  "state_query E s tx contract_addr key =
     query_db tx (\<lambda>d. query_state_at E d contract_addr key (block_number s)
       (word_of_nat (solution_set_index s)) (pre_state s))"

definition key_range ::
  "node_ext \<Rightarrow> faults \<Rightarrow> State \<Rightarrow> ContentAddress \<Rightarrow> Key \<Rightarrow> nat \<Rightarrow> StateReadError + Value list" where
  "key_range E F s contract_addr key num_values =
     (let at = AtState (pre_state s) (solution_set_index s) contract_addr key num_values in
      bind_result (map_err (\<lambda>_. SR_DbPoolClosed) (acquire_conn F at (conn_pool s))) (\<lambda>conn.
      if \<not> task_joins F at then Err SR_Join
      else bind_result (map_err SR_Rusqlite (transaction F at conn)) (\<lambda>tx.
        key_range_loop (state_query E s tx contract_addr) num_values key)))"

section \<open>Predicates and programs\<close>

datatype QueryPredicateError =
    QP_Query QueryError
  | QP_MissingLenBytes
  | QP_InvalidLenBytes
  | QP_Decode PredicateDecodeError

datatype QueryProgramError =
    QG_Query QueryError
  | QG_MissingLenBytes
  | QG_InvalidLenBytes

datatype SolutionSetPredicatesError =
    SP_Acquire
  | SP_QueryPredicate PredicateAddress QueryPredicateError
  | SP_MissingPredicate PredicateAddress

datatype PredicatesProgramsError =
    PP_Acquire
  | PP_QueryProgram ContentAddress QueryProgramError
  | PP_MissingProgram ContentAddress

text \<open>The length word at the front, and as many bytes of the words behind it.\<close>

definition len_prefixed_bytes ::
  "('d, 'q) ext \<Rightarrow> 'e \<Rightarrow> 'e \<Rightarrow> Word list \<Rightarrow> 'e + u8 list" where
  "len_prefixed_bytes E missing invalid ws =
     (case ws of
        [] \<Rightarrow> Err missing
      | len_bytes # ws' \<Rightarrow>
          if sint len_bytes < 0 then Err invalid
          else Ok (take (nat (sint len_bytes)) (bytes_of_words E ws')))"

definition query_predicate ::
  "node_ext \<Rightarrow> rusqlite_error + Transaction \<Rightarrow> ContentAddress \<Rightarrow> PredicateAddress \<Rightarrow> Word \<Rightarrow> u64 \<Rightarrow>
   QueryPredicateError + Predicate option" where
  "query_predicate E begun registry pred_addr block_no set_ix =
     bind_result (map_err (\<lambda>e. QP_Query (Rusqlite e)) begun) (\<lambda>tx.
       let get = (\<lambda>key. map_err QP_Query
             (query_db tx (\<lambda>d. query_state_at E d registry key block_no set_ix False)))
       in bind_result (get (contract_predicate_key E pred_addr)) (\<lambda>registered.
           case registered of
             None \<Rightarrow> Ok None
           | Some _ \<Rightarrow>
               bind_result (get (predicate_key E (predicate pred_addr))) (\<lambda>words.
                 case words of
                   None \<Rightarrow> Ok None
                 | Some pred_words \<Rightarrow>
                     bind_result (len_prefixed_bytes E QP_MissingLenBytes QP_InvalidLenBytes pred_words)
                       (\<lambda>pred_bytes. bind_result (map_err QP_Decode (predicate_decode E pred_bytes))
                         (\<lambda>p. Ok (Some p))))))"

definition query_program ::
  "node_ext \<Rightarrow> rusqlite_error + Transaction \<Rightarrow> ContentAddress \<Rightarrow> ContentAddress \<Rightarrow> Word \<Rightarrow> u64 \<Rightarrow>
   QueryProgramError + Program option" where
  "query_program E begun registry prog_addr block_no set_ix =
     bind_result (map_err (\<lambda>e. QG_Query (Rusqlite e)) begun) (\<lambda>tx.
     bind_result (map_err QG_Query
         (query_db tx (\<lambda>d. query_state_at E d registry (program_key E prog_addr) block_no set_ix False)))
       (\<lambda>words. case words of
          None \<Rightarrow> Ok None
        | Some prog_words \<Rightarrow>
            bind_result (len_prefixed_bytes E QG_MissingLenBytes QG_InvalidLenBytes prog_words)
              (\<lambda>prog_bytes. Ok (Some (Program prog_bytes)))))"

text \<open>The maps of predicates and programs: a later \<open>insert\<close> replaces an entry of the same key.\<close>

fun solution_set_predicates_loop ::
  "(PredicateAddress \<Rightarrow> QueryPredicateError + Predicate option) \<Rightarrow> Solution list \<Rightarrow>
   (PredicateAddress \<times> Predicate) list \<Rightarrow>
   SolutionSetPredicatesError + (PredicateAddress \<times> Predicate) list" where
  "solution_set_predicates_loop get [] m = Ok m"
| "solution_set_predicates_loop get (s # ss) m =
     bind_result (map_err (SP_QueryPredicate (predicate_to_solve s)) (get (predicate_to_solve s)))
       (\<lambda>p. case p of
          None \<Rightarrow> Err (SP_MissingPredicate (predicate_to_solve s))
        | Some pred \<Rightarrow> solution_set_predicates_loop get ss (AList.update (predicate_to_solve s) pred m))"

definition query_solution_set_predicates ::
  "node_ext \<Rightarrow> faults \<Rightarrow> State \<Rightarrow> ContentAddress \<Rightarrow> Solution list \<Rightarrow>
   SolutionSetPredicatesError + (PredicateAddress \<times> Predicate) list" where
  "query_solution_set_predicates E F s registry ss =
     bind_result (map_err (\<lambda>_. SP_Acquire) (acquire_conn F (AtPredicates (solution_set_index s)) (conn_pool s))) (\<lambda>conn.
       solution_set_predicates_loop
        (\<lambda>pa. query_predicate E (transaction F (AtPredicate (solution_set_index s) pa) conn)
           registry pa (block_number s) (word_of_nat (solution_set_index s))) ss [])"

fun predicates_programs_loop ::
  "(ContentAddress \<Rightarrow> QueryProgramError + Program option) \<Rightarrow> ContentAddress list \<Rightarrow>
   (ContentAddress \<times> Program) list \<Rightarrow>
   PredicatesProgramsError + (ContentAddress \<times> Program) list" where
  "predicates_programs_loop get [] m = Ok m"
| "predicates_programs_loop get (a # addrs) m =
     bind_result (map_err (PP_QueryProgram a) (get a))
       (\<lambda>p. case p of
          None \<Rightarrow> Err (PP_MissingProgram a)
        | Some prog \<Rightarrow> predicates_programs_loop get addrs (AList.update a prog m))"

definition query_predicates_programs ::
  "node_ext \<Rightarrow> faults \<Rightarrow> State \<Rightarrow> ContentAddress \<Rightarrow> Predicate list \<Rightarrow>
   PredicatesProgramsError + (ContentAddress \<times> Program) list" where
  "query_predicates_programs E F s registry preds =
     bind_result (map_err (\<lambda>_. PP_Acquire) (acquire_conn F (AtPrograms (solution_set_index s)) (conn_pool s))) (\<lambda>conn.
       predicates_programs_loop
        (\<lambda>a. query_program E (transaction F (AtProgram (solution_set_index s) a) conn)
           registry a (block_number s) (word_of_nat (solution_set_index s)))
        (concat (map (\<lambda>p. map program_address (nodes p)) preds)) [])"

section \<open>Validating the solution sets of a block\<close>

datatype ValidationError =
    VE_SolutionSetPredicates SolutionSetPredicatesError
  | VE_Query QueryError
  | VE_DbPoolClosed
  | VE_Rusqlite rusqlite_error
  | VE_Join

text \<open>The failures; \<open>'pe\<close> is the error of the third-party checker.\<close>

datatype 'pe ValidateFailure =
    MissingPredicate PredicateAddress
  | InvalidPredicate PredicateAddress
  | MissingProgram ContentAddress
  | InvalidProgram ContentAddress
  | PredicatesError 'pe
  | GasOverflow

datatype 'pe ValidateOutcome = Valid (total_gas: u64) | Invalid "'pe ValidateFailure" nat

text \<open>
  \<open>check_set_predicates\<close> with what it is given: the reads of the pre-state and the
  post-state, the solution set, and the maps of predicates and programs (a missing entry is a
  panic of the closure).  \<open>values_order\<close> is the order of \<open>HashMap::values\<close>.
\<close>

type_synonym state_read = "ContentAddress \<Rightarrow> Key \<Rightarrow> nat \<Rightarrow> StateReadError + Value list"

record 'pe checker =
  check_set_predicates :: "state_read \<Rightarrow> state_read \<Rightarrow> SolutionSet \<Rightarrow>
    (PredicateAddress \<Rightarrow> Predicate option) \<Rightarrow> (ContentAddress \<Rightarrow> Program option) \<Rightarrow> 'pe + u64"
  values_order :: "(PredicateAddress \<times> Predicate) list \<Rightarrow> Predicate list"

fun predicates_failure ::
  "SolutionSetPredicatesError \<Rightarrow> ValidationError + 'pe ValidateFailure" where
  "predicates_failure SP_Acquire = Err VE_DbPoolClosed"
| "predicates_failure (SP_QueryPredicate addr (QP_Query e)) = Err (VE_Query e)"
| "predicates_failure (SP_QueryPredicate addr _) = Ok (InvalidPredicate addr)"
| "predicates_failure (SP_MissingPredicate addr) = Ok (MissingPredicate addr)"

fun programs_failure ::
  "PredicatesProgramsError \<Rightarrow> ValidationError + 'pe ValidateFailure" where
  "programs_failure PP_Acquire = Err VE_DbPoolClosed"
| "programs_failure (PP_QueryProgram addr (QG_Query e)) = Err (VE_Query e)"
| "programs_failure (PP_QueryProgram addr _) = Ok (InvalidProgram addr)"
| "programs_failure (PP_MissingProgram addr) = Ok (MissingProgram addr)"

text \<open>One round of the loop: an error, a failure of the set, or the new total of gas.\<close>

definition validate_set ::
  "node_ext \<Rightarrow> 'pe checker \<Rightarrow> faults \<Rightarrow> Db \<Rightarrow> ContentAddress \<Rightarrow> ContentAddress \<Rightarrow> Word \<Rightarrow> nat \<Rightarrow>
   SolutionSet \<Rightarrow> u64 \<Rightarrow> ValidationError + ('pe ValidateFailure + u64)" where
  "validate_set E C F conn contract_reg program_reg block_no ix s gas =
     (let pre = \<lparr>block_number = block_no, solution_set_index = ix, pre_state = True, conn_pool = conn\<rparr>;
          post = \<lparr>block_number = block_no, solution_set_index = ix, pre_state = False, conn_pool = conn\<rparr>
      in case query_solution_set_predicates E F post contract_reg (solutions s) of
           Inl e \<Rightarrow> bind_result (predicates_failure e) (\<lambda>f. Ok (Inl f))
         | Inr preds \<Rightarrow>
             (case query_predicates_programs E F post program_reg (values_order C preds) of
                Inl e \<Rightarrow> bind_result (programs_failure e) (\<lambda>f. Ok (Inl f))
              | Inr progs \<Rightarrow>
                  (case check_set_predicates C (key_range E F pre) (key_range E F post) s
                          (map_of preds) (map_of progs) of
                     Inl err \<Rightarrow> Ok (Inl (PredicatesError err))
                   | Inr g \<Rightarrow>
                       (case u64_checked_add gas g of
                          Some g' \<Rightarrow> Ok (Inr g')
                        | None \<Rightarrow> Ok (Inl GasOverflow)))))"

fun validate_sets ::
  "(nat \<Rightarrow> SolutionSet \<Rightarrow> u64 \<Rightarrow> ValidationError + ('pe ValidateFailure + u64)) \<Rightarrow> nat \<Rightarrow>
   SolutionSet list \<Rightarrow> u64 \<Rightarrow> ValidationError + 'pe ValidateOutcome" where
  "validate_sets step ix [] gas = Ok (Valid gas)"
| "validate_sets step ix (s # ss) gas =
     bind_result (step ix s gas) (\<lambda>r. case r of
       Inl failure \<Rightarrow> Ok (Invalid failure ix)
     | Inr gas' \<Rightarrow> validate_sets step (Suc ix) ss gas')"

definition validate_inner ::
  "node_ext \<Rightarrow> 'pe checker \<Rightarrow> faults \<Rightarrow> Db \<Rightarrow> ContentAddress \<Rightarrow> ContentAddress \<Rightarrow> Block \<Rightarrow>
   ValidationError + 'pe ValidateOutcome" where
  "validate_inner E C F conn contract_reg program_reg b =
     validate_sets (validate_set E C F conn contract_reg program_reg (number (header b)))
       0 (solution_sets b) 0"

definition validate ::
  "node_ext \<Rightarrow> 'pe checker \<Rightarrow> faults \<Rightarrow> db \<Rightarrow> ContentAddress \<Rightarrow> ContentAddress \<Rightarrow> Block \<Rightarrow>
   ValidationError + 'pe ValidateOutcome" where
  "validate E C F d contract_reg program_reg b =
     validate_inner E C F (ConnectionPool d) contract_reg program_reg b"

section \<open>Dry runs\<close>

text \<open>
  \<open>Memory::new\<close>: a fresh database that holds the block, inserted and finalized in one
  transaction; \<open>DryRun::new\<close> puts it before the node's.
\<close>

definition memory_block :: "node_ext \<Rightarrow> Block \<Rightarrow> (rusqlite_error, unit) tx" where
  "memory_block E b d =
     (case insert_block E b d of
        (Inl e, d') \<Rightarrow> (Err e, d')
      | (Inr hash, d') \<Rightarrow> finalize_block hash d')"

definition memory_new :: "node_ext \<Rightarrow> faults \<Rightarrow> Block \<Rightarrow> rusqlite_error + db" where
  "memory_new E F b =
     bind_result (memory_opens F) (\<lambda>_.
       case with_tx (tx_begins F InMemory AtMemory) (memory_commits F) id (memory_block E b) create_tables of
         (Inl e, _) \<Rightarrow> Err e
       | (Inr _, d) \<Rightarrow> Ok d)"

definition dry_run_new :: "node_ext \<Rightarrow> faults \<Rightarrow> db \<Rightarrow> Block \<Rightarrow> rusqlite_error + Db" where
  "dry_run_new E F d b = bind_result (memory_new E F b) (\<lambda>memory. Ok (DryRun memory d))"

definition validate_dry_run ::
  "node_ext \<Rightarrow> 'pe checker \<Rightarrow> faults \<Rightarrow> db \<Rightarrow> ContentAddress \<Rightarrow> ContentAddress \<Rightarrow> Block \<Rightarrow>
   ValidationError + 'pe ValidateOutcome" where
  "validate_dry_run E C F d contract_reg program_reg b =
     bind_result (map_err VE_Rusqlite (dry_run_new E F d b)) (\<lambda>db_type.
       validate_inner E C F db_type contract_reg program_reg b)"

text \<open>
  The block of a solution set: at the number of the latest finalized block, or at 1 if there
  is none.  The current time is an argument.
\<close>

definition dry_run_number :: "node_ext \<Rightarrow> db \<Rightarrow> rusqlite_error + Word" where
  "dry_run_number E d =
     bind_result (get_latest_finalized_block_address E d) (\<lambda>a. case a of
       None \<Rightarrow> Ok 1
     | Some address \<Rightarrow>
         bind_result (get_block_header E d address) (\<lambda>h. case h of
           None \<Rightarrow> Ok 1
         | Some h \<Rightarrow> Ok (number h)))"

definition validate_solution_set_dry_run ::
  "node_ext \<Rightarrow> 'pe checker \<Rightarrow> faults \<Rightarrow> Duration \<Rightarrow> db \<Rightarrow> ContentAddress \<Rightarrow> ContentAddress \<Rightarrow>
   SolutionSet \<Rightarrow> ValidationError + 'pe ValidateOutcome" where
  "validate_solution_set_dry_run E C F now d contract_reg program_reg s =
     (if \<not> pool_open F OnDisk AtNumber then Err VE_DbPoolClosed
      else bind_result (map_err VE_Rusqlite (tx_begins F OnDisk AtNumber)) (\<lambda>_.
           bind_result (map_err VE_Rusqlite (dry_run_number E (sees F AtNumber d))) (\<lambda>n.
             validate_dry_run E C F d contract_reg program_reg
               \<lparr>header = \<lparr>number = n, timestamp = now\<rparr>, solution_sets = [s]\<rparr>)))"

end
