(* ===== verification/ValidateLaws.thy ===== *)
theory ValidateLaws
  imports Validate
begin

text \<open>
  What validation relies on and what it guarantees: \<open>next_key\<close> counts, a key range is read in
  full or rejected, registered predicates and programs are found and decoded, a dry run reads
  the state it would read once its block were stored, and the outcome of a validation names
  the first failing solution set or the sum of the gas.
\<close>

section \<open>Keys as numbers\<close>

text \<open>A key of length \<open>n\<close> is a number of \<open>n\<close> digits in base \<open>2^64\<close>, in the order of signed words.\<close>

fun key_num_rev :: "Word list \<Rightarrow> int" where
  "key_num_rev [] = 0"
| "key_num_rev (w # ws) = (sint w + 2 ^ 63) + 2 ^ 64 * key_num_rev ws"

definition key_num :: "Key \<Rightarrow> int" where
  "key_num key = key_num_rev (rev key)"

lemma digit_bounds: "0 \<le> sint (w :: i64) + 2 ^ 63" "sint (w :: i64) + 2 ^ 63 < 2 ^ 64"
  using sint_i64_bounds [of w] by simp_all

lemma key_num_rev_bounds: "0 \<le> key_num_rev ws \<and> key_num_rev ws < 2 ^ (64 * length ws)"
proof (induction ws)
  case (Cons w ws)
  have "key_num_rev ws + 1 \<le> 2 ^ (64 * length ws)"
    using Cons by linarith
  then have "2 ^ 64 * (key_num_rev ws + 1) \<le> (2 :: int) ^ 64 * 2 ^ (64 * length ws)"
    by (intro mult_left_mono) simp_all
  also have "\<dots> = 2 ^ (64 * length (w # ws))"
    by (simp add: power_add)
  finally show ?case
    using Cons digit_bounds [of w] by (simp add: algebra_simps)
qed simp

lemma key_num_rev_inject:
  "length vs = length ws \<Longrightarrow> key_num_rev vs = key_num_rev ws \<Longrightarrow> vs = ws"
proof (induction vs arbitrary: ws)
  case (Cons v vs)
  then obtain w ws' where ws: "ws = w # ws'" by (cases ws) auto
  let ?a = "sint v + 2 ^ 63" and ?b = "sint w + 2 ^ 63"
  have eq: "?a + 2 ^ 64 * key_num_rev vs = ?b + 2 ^ 64 * key_num_rev ws'"
    using Cons.prems(2) by (simp add: ws)
  have "?a = (?a + 2 ^ 64 * key_num_rev vs) mod 2 ^ 64"
    using digit_bounds [of v] by (simp only: mod_mult_self2) (simp only: mod_pos_pos_trivial)
  also have "\<dots> = ?b"
    unfolding eq using digit_bounds [of w] by (simp only: mod_mult_self2) (simp only: mod_pos_pos_trivial)
  finally have "?a = ?b" .
  then have "v = w"
    by (simp add: sint_i64_inject)
  with eq have "key_num_rev vs = key_num_rev ws'" by simp
  with Cons ws \<open>v = w\<close> show ?case by simp
qed simp

lemma next_key_rev_Some:
  "next_key_rev ws = Some ws' \<Longrightarrow> length ws' = length ws \<and> key_num_rev ws' = key_num_rev ws + 1"
proof (induction ws arbitrary: ws')
  case (Cons w ws)
  show ?case
  proof (cases "w = i64_max")
    case True
    with Cons.prems obtain vs where "next_key_rev ws = Some vs" "ws' = i64_min # vs"
      by auto
    with Cons.IH [of vs] True show ?thesis by simp
  next
    case False
    with Cons.prems show ?thesis by (auto simp: sint_i64_inc)
  qed
qed simp

lemma next_key_rev_None:
  "next_key_rev ws = None \<Longrightarrow> key_num_rev ws = 2 ^ (64 * length ws) - 1"
proof (induction ws)
  case (Cons w ws)
  then have "w = i64_max" "next_key_rev ws = None"
    by (auto split: if_splits)
  with Cons.IH show ?case by (simp add: power_add)
qed simp

lemma next_key_Some:
  "next_key key = Some key' \<longleftrightarrow> length key' = length key \<and> key_num key' = key_num key + 1"
proof
  assume "next_key key = Some key'"
  then show "length key' = length key \<and> key_num key' = key_num key + 1"
    by (auto simp: next_key_def key_num_def dest: next_key_rev_Some)
next
  assume r: "length key' = length key \<and> key_num key' = key_num key + 1"
  show "next_key key = Some key'"
  proof (cases "next_key key")
    case None
    then have "key_num key + 1 = 2 ^ (64 * length key)"
      by (auto simp: next_key_def key_num_def dest: next_key_rev_None)
    with r show ?thesis
      using key_num_rev_bounds [of "rev key'"] by (simp add: key_num_def)
  next
    case (Some k)
    then have "length k = length key" "key_num k = key_num key + 1"
      by (auto simp: next_key_def key_num_def dest: next_key_rev_Some)
    with r have "rev k = rev key'"
      by (intro key_num_rev_inject) (simp_all add: key_num_def)
    with Some show ?thesis by simp
  qed
qed

lemma next_key_None: "next_key key = None \<longleftrightarrow> key_num key + 1 = 2 ^ (64 * length key)"
proof
  assume "next_key key = None"
  then show "key_num key + 1 = 2 ^ (64 * length key)"
    by (auto simp: next_key_def key_num_def dest: next_key_rev_None)
next
  assume r: "key_num key + 1 = 2 ^ (64 * length key)"
  show "next_key key = None"
  proof (cases "next_key key")
    case (Some k)
    then have "key_num k = 2 ^ (64 * length k)"
      using r by (simp add: next_key_Some)
    then show ?thesis
      using key_num_rev_bounds [of "rev k"] by (simp add: key_num_def)
  qed
qed

text \<open>The key \<open>n\<close> places after a key.\<close>

fun key_after :: "Key \<Rightarrow> nat \<Rightarrow> Key" where
  "key_after key 0 = key"
| "key_after key (Suc n) = (case next_key key of Some key' \<Rightarrow> key_after key' n | None \<Rightarrow> key)"

lemma key_after_num:
  "key_num key + int n < 2 ^ (64 * length key) \<Longrightarrow>
   length (key_after key n) = length key \<and> key_num (key_after key n) = key_num key + int n"
proof (induction n arbitrary: key)
  case (Suc n)
  then obtain key' where k: "next_key key = Some key'"
    using next_key_None [of key] by (cases "next_key key") auto
  then have k': "length key' = length key" "key_num key' = key_num key + 1"
    by (simp_all add: next_key_Some)
  with Suc.prems have "key_num key' + int n < 2 ^ (64 * length key')" by simp
  from Suc.IH [OF this] k k' show ?case by simp
qed simp

definition or_default :: "Value option \<Rightarrow> Value" where
  "or_default v = (case v of Some val \<Rightarrow> val | None \<Rightarrow> [])"

lemma key_range_loop_total:
  "key_range_loop (\<lambda>k. Ok (f k)) n key =
     (if n = 0 \<or> key_num key + int n < 2 ^ (64 * length key)
      then Ok (map (\<lambda>i. or_default (f (key_after key i))) [0..<n])
      else Err KeyRangeError)"
proof (induction n arbitrary: key)
  case (Suc n)
  show ?case
  proof (cases "next_key key")
    case None
    then show ?thesis
      using next_key_None [of key] by simp
  next
    case (Some key')
    then have k': "length key' = length key" "key_num key' = key_num key + 1"
      by (simp_all add: next_key_Some)
    have lt: "key_num key + 1 < 2 ^ (64 * length key)"
      using key_num_rev_bounds [of "rev key'"] k' by (simp add: key_num_def)
    have "map (\<lambda>i. or_default (f (key_after key i))) [0..<Suc n] =
        or_default (f key) # map (\<lambda>i. or_default (f (key_after key' i))) [0..<n]"
      by (simp add: Some map_upt_Suc del: upt_Suc)
    moreover have "n = 0 \<or> key_num key' + int n < 2 ^ (64 * length key') \<longleftrightarrow>
        key_num key + int (Suc n) < 2 ^ (64 * length key)"
      using k' lt by (cases n) auto
    ultimately show ?thesis
      using Suc.IH [of key'] by (simp add: Some or_default_def del: upt_Suc)
  qed
qed simp

section \<open>Reading state\<close>

text \<open>Without faults, and at a position that SQLite can hold, a query of the state returns.\<close>

lemma query_state_at_Ok:
  assumes "fits_i64 ix"
  shows "\<exists>v. query_state_at E d c k n ix p = Ok v"
proof (cases p)
  case True
  have "fits_i64 j" if "u64_checked_sub1 ix = Some j" for j
    using u64_checked_sub1_Some [OF that] assms by (simp only: fits_i64_def)
  then show ?thesis
    by (auto simp: query_state_at_def True finalized_exclusive_solution_set_def
        finalized_inclusive_solution_set_def finalized_exclusive_block_def
        finalized_inclusive_block_def to_sql_u64_def split: option.split)
qed (use assms in \<open>simp add: query_state_at_def finalized_inclusive_solution_set_def to_sql_u64_def\<close>)

text \<open>The connection and the transaction of a database, if they can be had.\<close>

fun conn_of :: "Db \<Rightarrow> Conn" where
  "conn_of (DryRun memory disk) = Cascade memory disk"
| "conn_of (ConnectionPool d) = Handle d"

fun tx_of :: "Db \<Rightarrow> Transaction" where
  "tx_of (DryRun memory disk) = TxCascade memory disk"
| "tx_of (ConnectionPool d) = TxHandle d"

text \<open>What a transaction sees of a database.\<close>

fun seen_db :: "faults \<Rightarrow> site \<Rightarrow> Db \<Rightarrow> Db" where
  "seen_db F at (DryRun memory disk) = DryRun memory (sees F at disk)"
| "seen_db F at (ConnectionPool d) = ConnectionPool (sees F at d)"

lemma seen_db_quiet [simp]: "sees F = (\<lambda>_ d. d) \<Longrightarrow> seen_db F at conn = conn"
  by (cases conn) simp_all

lemma acquire_conn_Ok: "acquire_conn F at conn = Ok c \<Longrightarrow> c = conn_of conn"
  by (cases conn) (auto split: if_splits)

lemma transaction_Ok: "transaction F at (conn_of conn) = Ok tx \<Longrightarrow> tx = tx_of (seen_db F at conn)"
  by (cases conn) (auto simp: bind_result_Ok_iff)

text \<open>A database whose memory part, if it has one, never fails: only the node's pool can.\<close>

definition memory_quiet :: "faults \<Rightarrow> Db \<Rightarrow> bool" where
  "memory_quiet F conn \<longleftrightarrow>
     (case conn of
        ConnectionPool _ \<Rightarrow> True
      | DryRun _ _ \<Rightarrow> \<forall>at. pool_open F InMemory at \<and> tx_begins F InMemory at = Ok ())"

lemma acquire_quiet:
  assumes "memory_quiet F conn"
  shows "acquire_conn F at conn = (if pool_open F OnDisk at then Ok (conn_of conn) else Err ())"
    and "transaction F at (conn_of conn) = bind_result (tx_begins F OnDisk at) (\<lambda>_. Ok (tx_of (seen_db F at conn)))"
  using assms by (cases conn; simp add: memory_quiet_def)+

lemma memory_quiet_no_faults [simp]: "memory_quiet no_faults conn"
  by (simp add: memory_quiet_def no_faults_def split: Db.split)

lemma sees_no_faults [simp]: "sees no_faults = (\<lambda>_ d. d)"
  by (simp add: no_faults_def)

lemma no_faults_simps [simp]:
  "acquire_conn no_faults at conn = Ok (conn_of conn)" "transaction no_faults at (conn_of conn) = Ok (tx_of conn)"
  "task_joins no_faults at"
  by (simp_all add: acquire_quiet) (simp_all add: no_faults_def)

lemma state_query_Ok:
  assumes "fits_i64 (word_of_nat (solution_set_index s) :: u64)"
  shows "\<exists>v. state_query E s tx c k = Ok v"
proof (cases tx)
  case (TxHandle d)
  then show ?thesis
    using query_state_at_Ok [OF assms] by (simp add: state_query_def)
next
  case (TxCascade m d)
  obtain v w where "query_state_at E m c k (block_number s) (word_of_nat (solution_set_index s)) (pre_state s) = Ok v"
    "query_state_at E d c k (block_number s) (word_of_nat (solution_set_index s)) (pre_state s) = Ok w"
    using query_state_at_Ok [OF assms] by blast
  then show ?thesis
    by (cases v) (auto simp: state_query_def TxCascade cascade_def)
qed

definition state_value :: "node_ext \<Rightarrow> State \<Rightarrow> ContentAddress \<Rightarrow> Key \<Rightarrow> Value option" where
  "state_value E s c k = projr (state_query E s (tx_of (conn_pool s)) c k)"

lemma state_query_value:
  assumes "fits_i64 (word_of_nat (solution_set_index s) :: u64)"
  shows "state_query E s (tx_of (conn_pool s)) c = (\<lambda>k. Ok (state_value E s c k))"
proof
  fix k
  show "state_query E s (tx_of (conn_pool s)) c k = Ok (state_value E s c k)"
    using state_query_Ok [OF assms, of E "tx_of (conn_pool s)" c k] by (auto simp: state_value_def)
qed

section \<open>Gas\<close>

text \<open>The gas of a set on its own, and what the running total makes of it.\<close>

lemma u64_checked_add_0: "u64_checked_add 0 g = Some g"
  using unsigned_less [of g, where 'a = nat] by (simp add: u64_checked_add_def)

lemma validate_set_gas:
  "validate_set E C F conn creg preg n ix s gas =
     (case validate_set E C F conn creg preg n ix s 0 of
        Inl e \<Rightarrow> Err e
      | Inr (Inl f) \<Rightarrow> Ok (Inl f)
      | Inr (Inr g) \<Rightarrow> (case u64_checked_add gas g of Some g' \<Rightarrow> Ok (Inr g') | None \<Rightarrow> Ok (Inl GasOverflow)))"
  (is "?v gas = _")
proof -
  define r where "r = query_solution_set_predicates E F
    \<lparr>block_number = n, solution_set_index = ix, pre_state = False, conn_pool = conn\<rparr> creg (solutions s)"
  show ?thesis
    unfolding validate_set_def Let_def r_def [symmetric]
    by (cases r)
      (auto simp: u64_checked_add_0 split: sum.split option.split elim!: bind_result.elims)
qed

text \<open>The loop over the sets, for a step that adds gas.\<close>

definition adds_gas :: "(nat \<Rightarrow> SolutionSet \<Rightarrow> u64 \<Rightarrow> ValidationError + ('pe ValidateFailure + u64)) \<Rightarrow> bool" where
  "adds_gas step \<longleftrightarrow> (\<forall>ix s gas. step ix s gas =
     (case step ix s 0 of
        Inl e \<Rightarrow> Err e
      | Inr (Inl f) \<Rightarrow> Ok (Inl f)
      | Inr (Inr g) \<Rightarrow> (case u64_checked_add gas g of Some g' \<Rightarrow> Ok (Inr g') | None \<Rightarrow> Ok (Inl GasOverflow))))"

lemma adds_gasD:
  "adds_gas step \<Longrightarrow> step ix s gas =
     (case step ix s 0 of
        Inl e \<Rightarrow> Err e
      | Inr (Inl f) \<Rightarrow> Ok (Inl f)
      | Inr (Inr g) \<Rightarrow> (case u64_checked_add gas g of Some g' \<Rightarrow> Ok (Inr g') | None \<Rightarrow> Ok (Inl GasOverflow)))"
  unfolding adds_gas_def by blast

lemma validate_set_adds_gas: "adds_gas (validate_set E C F conn creg preg n)"
  unfolding adds_gas_def using validate_set_gas by blast

lemma validate_sets_Valid:
  assumes "adds_gas step"
  shows "validate_sets step i ss gas = Ok (Valid tot) \<longleftrightarrow>
    (\<exists>gs. length gs = length ss \<and> (\<forall>j < length ss. step (i + j) (ss ! j) 0 = Ok (Inr (gs ! j))) \<and>
      unat tot = unat gas + sum_list (map unat gs))"
proof (induction ss arbitrary: i gas)
  case Nil
  then show ?case by (auto simp: word_unat_eq_iff)
next
  case (Cons s ss)
  have shift: "(\<forall>j < length (s # ss). step (i + j) ((s # ss) ! j) 0 = Ok (Inr ((g # gs) ! j))) \<longleftrightarrow>
      step i s 0 = Ok (Inr g) \<and> (\<forall>j < length ss. step (Suc i + j) (ss ! j) 0 = Ok (Inr (gs ! j)))" for g gs
    by (auto simp: less_Suc_eq_0_disj nth_Cons split: nat.splits)
  show ?case
  proof (cases "\<exists>g. step i s 0 = Ok (Inr g)")
    case False
    then have "validate_sets step i (s # ss) gas \<noteq> Ok (Valid tot)"
      by (subst validate_sets.simps(2), subst adds_gasD [OF assms]) (auto split: sum.splits)
    moreover have "\<not> (\<forall>j < length (s # ss). step (i + j) ((s # ss) ! j) 0 = Ok (Inr (gs ! j)))" for gs
      using False by (metis Nat.add_0_right length_Cons nth_Cons_0 zero_less_Suc)
    ultimately show ?thesis by blast
  next
    case True
    then obtain g where g: "step i s 0 = Ok (Inr g)" by blast
    have ex: "(\<exists>gs. length gs = length (s # ss) \<and>
          (\<forall>j < length (s # ss). step (i + j) ((s # ss) ! j) 0 = Ok (Inr (gs ! j))) \<and>
          unat tot = unat gas + sum_list (map unat gs)) \<longleftrightarrow>
        (\<exists>gs. length gs = length ss \<and> (\<forall>j < length ss. step (Suc i + j) (ss ! j) 0 = Ok (Inr (gs ! j))) \<and>
          unat tot = unat gas + (unat g + sum_list (map unat gs)))" (is "?l \<longleftrightarrow> ?r")
    proof
      assume ?l
      then obtain gs' where gs': "length gs' = length (s # ss)"
        "\<forall>j < length (s # ss). step (i + j) ((s # ss) ! j) 0 = Ok (Inr (gs' ! j))"
        "unat tot = unat gas + sum_list (map unat gs')" by blast
      then obtain h gs where h: "gs' = h # gs" by (cases gs') auto
      with gs'(2) g have "h = g" unfolding h shift by simp
      with gs' show ?r unfolding h shift by (intro exI [of _ gs]) simp
    next
      assume ?r
      then obtain gs where "length gs = length ss"
        "\<forall>j < length ss. step (Suc i + j) (ss ! j) 0 = Ok (Inr (gs ! j))"
        "unat tot = unat gas + (unat g + sum_list (map unat gs))" by blast
      with g show ?l by (intro exI [of _ "g # gs"]) (simp only: shift, simp)
    qed
    show ?thesis
    proof (cases "u64_checked_add gas g")
      case None
      have "validate_sets step i (s # ss) gas = Ok (Invalid GasOverflow i)"
        by (subst validate_sets.simps(2), subst adds_gasD [OF assms]) (simp add: g None)
      moreover have "unat tot \<noteq> unat gas + (unat g + x)" for x
        using None unsigned_less [of tot, where 'a = nat] by (auto simp: u64_checked_add_None)
      ultimately show ?thesis unfolding ex by simp
    next
      case (Some gas')
      then have gas': "unat gas' = unat gas + unat g"
        by (simp add: u64_checked_add_Some)
      have "validate_sets step i (s # ss) gas = validate_sets step (Suc i) ss gas'"
        by (subst validate_sets.simps(2), subst adds_gasD [OF assms]) (simp add: g Some)
      then show ?thesis
        unfolding ex using Cons.IH [of "Suc i" gas'] by (simp add: gas' add.assoc)
    qed
  qed
qed

lemma validate_sets_Invalid:
  assumes "adds_gas step" and "validate_sets step i ss gas = Ok (Invalid f k)"
  shows "\<exists>j gs. k = i + j \<and> j < length ss \<and> length gs = j \<and>
    (\<forall>l < j. step (i + l) (ss ! l) 0 = Ok (Inr (gs ! l))) \<and>
    (step k (ss ! j) 0 = Ok (Inl f) \<or>
     f = GasOverflow \<and> (\<exists>g. step k (ss ! j) 0 = Ok (Inr g) \<and>
       2 ^ 64 \<le> unat gas + sum_list (map unat gs) + unat g))"
  using assms(2)
proof (induction ss arbitrary: i gas)
  case (Cons s ss)
  note step = adds_gasD [OF assms(1), of i s gas]
  show ?case
  proof (cases "step i s 0")
    case (Inr r)
    show ?thesis
    proof (cases r)
      case (Inl f')
      with Cons.prems step Inr have "f = f'" "k = i" by auto
      with Inr Inl show ?thesis by (intro exI [of _ 0] exI [of _ "[]"]) simp
    next
      case (Inr g)
      show ?thesis
      proof (cases "u64_checked_add gas g")
        case None
        with Cons.prems step \<open>step i s 0 = Inr r\<close> Inr have "f = GasOverflow" "k = i" by auto
        with None \<open>step i s 0 = Inr r\<close> Inr show ?thesis
          by (intro exI [of _ 0] exI [of _ "[]"]) (simp add: u64_checked_add_None)
      next
        case (Some gas')
        then have gas': "unat gas' = unat gas + unat g"
          by (simp add: u64_checked_add_Some)
        have "validate_sets step (Suc i) ss gas' = Ok (Invalid f k)"
          using Cons.prems step \<open>step i s 0 = Inr r\<close> Inr Some by simp
        from Cons.IH [OF this] obtain j gs where j: "k = Suc i + j" "j < length ss" "length gs = j"
          "\<forall>l < j. step (Suc i + l) (ss ! l) 0 = Ok (Inr (gs ! l))"
          "step k (ss ! j) 0 = Ok (Inl f) \<or>
            f = GasOverflow \<and> (\<exists>g. step k (ss ! j) 0 = Ok (Inr g) \<and>
              2 ^ 64 \<le> unat gas' + sum_list (map unat gs) + unat g)"
          by blast
        then have "\<forall>l < Suc j. step (i + l) ((s # ss) ! l) 0 = Ok (Inr ((g # gs) ! l))"
          using \<open>step i s 0 = Inr r\<close> Inr by (auto simp: less_Suc_eq_0_disj)
        with j show ?thesis
          by (intro exI [of _ "Suc j"] exI [of _ "g # gs"]) (auto simp: gas' add.assoc)
      qed
    qed
  qed (use Cons.prems step in simp)
qed simp

section \<open>Properties\<close>

text \<open>
  \<open>next_key\<close> counts: read as a number in base \<open>2^64\<close> with signed digits, the next key is the
  only key of the same length that is greater by one, and there is none exactly when the key
  is the greatest of its length.
\<close>

theorem next_key_successor:
  "(next_key key = Some key' \<longleftrightarrow> length key' = length key \<and> key_num key' = key_num key + 1) \<and>
   (next_key key = None \<longleftrightarrow> key_num key + 1 = 2 ^ (64 * length key))"
  using next_key_Some next_key_None by blast

text \<open>
  C28. Reading a range of keys returns the value of each of the \<open>n\<close> keys from the first on, the
  empty value for a key without one, if a key follows the last of them; if none does, the whole
  range is an error, even when all its keys exist.
\<close>

theorem key_range_reads_all:
  assumes "fits_i64 (word_of_nat (solution_set_index s) :: u64)"
  shows "key_range E no_faults s c key n =
    (if n = 0 \<or> key_num key + int n < 2 ^ (64 * length key)
     then Ok (map (\<lambda>i. or_default (state_value E s c (key_after key i))) [0..<n])
     else Err KeyRangeError)"
  using key_range_loop_total [of "state_value E s c" n key]
  by (simp add: key_range_def Let_def state_query_value [OF assms])

definition sample_state :: State where
  "sample_state = \<lparr>block_number = 1, solution_set_index = 1, pre_state = False,
     conn_pool = ConnectionPool sample_db\<rparr>"

lemma key_range_reads_all_witness:
  "key_range sample_ext no_faults sample_state sample_contract [i64_max] 1 = Err KeyRangeError"
  using key_range_reads_all [of sample_state sample_ext sample_contract "[i64_max]" 1]
  by (simp add: sample_state_def key_num_def)

text \<open>
  C16. A block is valid exactly when each of its solution sets passes on its own, and then the gas
  is the sum of the gas of its sets, without overflow.
\<close>

theorem validate_valid_iff:
  "validate_inner E C F conn creg preg b = Ok (Valid g) \<longleftrightarrow>
    (\<exists>gs. length gs = length (solution_sets b) \<and>
      (\<forall>ix < length (solution_sets b).
         validate_set E C F conn creg preg (number (header b)) ix (solution_sets b ! ix) 0 = Ok (Inr (gs ! ix))) \<and>
      unat g = sum_list (map unat gs))"
  unfolding validate_inner_def validate_sets_Valid [OF validate_set_adds_gas] by simp

definition sample_checker :: "unit checker" where
  "sample_checker = \<lparr>check_set_predicates = (\<lambda>pre post s ps gs. Ok 7), values_order = map snd\<rparr>"

lemma validate_valid_iff_witness:
  "validate_inner sample_ext sample_checker no_faults (ConnectionPool sample_db) sample_contract sample_contract
     \<lparr>header = \<lparr>number = 1, timestamp = Duration 10 5\<rparr>, solution_sets = [\<lparr>solutions = []\<rparr>, \<lparr>solutions = []\<rparr>]\<rparr>
     = Ok (Valid 14)"
proof -
  have "\<forall>ix < 2. validate_set sample_ext sample_checker no_faults (ConnectionPool sample_db) sample_contract
      sample_contract 1 ix \<lparr>solutions = []\<rparr> 0 = Ok (Inr 7)"
    by (simp add: validate_set_def query_solution_set_predicates_def query_predicates_programs_def
        sample_checker_def u64_checked_add_0)
  then show ?thesis
    by (subst validate_valid_iff, intro exI [of _ "[7, 7]"]) (auto simp: less_2_cases_iff less_Suc_eq)
qed

text \<open>
  C29. A block is reported invalid at its first solution set that fails: every set before it
  passes, and the failure is that of the set, or the overflow of the gas the sets consume up
  to it.
\<close>

theorem validate_invalid_first:
  assumes "validate_inner E C F conn creg preg b = Ok (Invalid f ix)"
  shows "ix < length (solution_sets b) \<and>
    (\<exists>gs. length gs = ix \<and>
      (\<forall>j < ix. validate_set E C F conn creg preg (number (header b)) j (solution_sets b ! j) 0 = Ok (Inr (gs ! j))) \<and>
      (validate_set E C F conn creg preg (number (header b)) ix (solution_sets b ! ix) 0 = Ok (Inl f) \<or>
       f = GasOverflow \<and> (\<exists>g. validate_set E C F conn creg preg (number (header b)) ix (solution_sets b ! ix) 0
         = Ok (Inr g) \<and> 2 ^ 64 \<le> sum_list (map unat gs) + unat g)))"
  using validate_sets_Invalid [OF validate_set_adds_gas assms [unfolded validate_inner_def]] by auto

lemma validate_invalid_first_witness:
  "validate_set sample_ext sample_checker no_faults (ConnectionPool create_tables) sample_contract sample_contract 1 0
     (sample_set [(1, 2)]) 0 =
   Ok (Inl (MissingPredicate \<lparr>contract = sample_contract, predicate = ContentAddress 6\<rparr>))"
proof -
  let ?v = "validate_inner sample_ext sample_checker no_faults (ConnectionPool create_tables) sample_contract
    sample_contract (sample_block 1 [[(1, 2)]])"
  have "case ?v of Inr (Invalid (MissingPredicate pa) ix) \<Rightarrow>
      pa = \<lparr>contract = sample_contract, predicate = ContentAddress 6\<rparr> \<and> ix = 0 | _ \<Rightarrow> False"
    by code_simp
  then have v: "?v = Ok (Invalid (MissingPredicate \<lparr>contract = sample_contract, predicate = ContentAddress 6\<rparr>) 0)"
    by (auto split: sum.splits ValidateOutcome.splits ValidateFailure.splits)
  show ?thesis
    using validate_invalid_first [OF v] by (auto simp: sample_block_def)
qed

end
