(* ===== verification/Registry.thy ===== *)
theory Registry
  imports ValidateLaws
begin

text \<open>
  The registries end to end: what \<open>register_contract_solution\<close> and \<open>register_program_solution\<close>
  write into a block is what \<open>query_predicate\<close> and \<open>query_program\<close> find and decode from the
  finalized state.
\<close>

section \<open>Registered mutations\<close>

lemma len_prefixed_round_trip:
  assumes "codec_ok E" and "length bs < 2 ^ 63"
  shows "len_prefixed_bytes E missing invalid (len_prefixed_words E bs) = Ok bs"
proof -
  have "sint (word_of_nat (length bs) :: i64) = int (length bs)"
    using assms(2) sint_i64_of_int [of "int (length bs)"] by simp
  then show ?thesis
    by (simp add: len_prefixed_bytes_def len_prefixed_words_def take_bytes_of_padded_words [OF assms(1)])
qed

lemma registered_mutations:
  assumes "register_contract_solution E reg cont = Ok sol" and "p \<in> set (predicates cont)"
  shows "\<exists>bs. predicate_encode E p = Ok bs \<and>
    \<lparr>mut_key = contract_predicate_key E \<lparr>contract = content_addr_contract E cont,
        predicate = content_addr_predicate E p\<rparr>, mut_value = [1]\<rparr> \<in> set (state_mutations sol) \<and>
    \<lparr>mut_key = predicate_key E (content_addr_predicate E p), mut_value = len_prefixed_words E bs\<rparr>
      \<in> set (state_mutations sol) \<and>
    predicate_to_solve sol = reg"
proof -
  let ?ca = "content_addr_contract E cont"
  obtain mss where mss: "collect_results (map (register_predicate_mutations E ?ca) (predicates cont)) = Ok mss"
    and sol: "set (concat mss) \<subseteq> set (state_mutations sol)" "predicate_to_solve sol = reg"
  proof -
    obtain ms where ms: "register_contract_mutations E cont = Ok ms"
      and sol: "sol = \<lparr>predicate_to_solve = reg, predicate_data = [], state_mutations = ms\<rparr>"
      using assms(1) by (auto simp: register_contract_solution_def bind_result_Ok_iff)
    from ms obtain mss where "collect_results (map (register_predicate_mutations E ?ca) (predicates cont)) = Ok mss"
      and "ms = \<lparr>mut_key = contract_salt_key E ?ca, mut_value = word_4_from_u8_32 E (salt cont)\<rparr> # concat mss"
      by (auto simp: register_contract_mutations_def bind_result_Ok_iff Let_def)
    with sol show thesis by (intro that) auto
  qed
  from mss have "map (register_predicate_mutations E ?ca) (predicates cont) = map Inr mss"
    by (simp only: collect_results_Ok_iff)
  then have "register_predicate_mutations E ?ca p \<in> Inr ` set mss"
    using assms(2) by (metis image_set imageI)
  then obtain ms where ms: "register_predicate_mutations E ?ca p = Ok ms" "ms \<in> set mss"
    by blast
  from ms(1) obtain bs where "predicate_encode E p = Ok bs"
    and "ms = [\<lparr>mut_key = contract_predicate_key E \<lparr>contract = ?ca, predicate = content_addr_predicate E p\<rparr>,
                mut_value = [1]\<rparr>,
              \<lparr>mut_key = predicate_key E (content_addr_predicate E p), mut_value = len_prefixed_words E bs\<rparr>]"
    by (auto simp: register_predicate_mutations_def bind_result_Ok_iff Let_def)
  moreover have "set ms \<subseteq> set (state_mutations sol)"
    using sol(1) ms(2) by auto
  ultimately show ?thesis
    using sol(2) by auto
qed

section \<open>Written values are found\<close>

text \<open>
  A value that a set of a stored, finalized block writes once is the value at that set.
\<close>

lemma written_value_found:
  assumes "db_wf d" and "codec_ok E" and "plan_ok E" and "fresh_block E d b"
    and "finalize_block (content_addr_block E b) (snd (insert_block E b d)) = (Ok (), d')"
    and "single_writes E d' c k" and "fits_i64 ix" and "unat ix < length (solution_sets b)"
    and "sol \<in> set (solutions (solution_sets b ! unat ix))" and "contract (predicate_to_solve sol) = c"
    and "\<lparr>mut_key = k, mut_value = v\<rparr> \<in> set (state_mutations sol)"
  shows "query_state_at E d' c k (number (header b)) ix False = Ok (Some v)"
proof -
  let ?ws = "set_writes (solution_sets b ! unat ix) c k"
  have v: "v \<in> set ?ws"
    unfolding set_writes_iff using assms(9-11) by blast
  have "u = v" if u: "u \<in> set ?ws" for u
  proof -
    have "((sint (number (header b)), unat ix), x) \<in> set (finalized_history E d' c k)" if "x \<in> set ?ws" for x
      using insert_finalize_history [OF assms(1,2,4,5)] that assms(8) by simp
    from eq_key_imp_eq_value [OF assms(6) [unfolded single_writes_def] this [OF u] this [OF v]]
    show ?thesis .
  qed
  moreover have ne: "?ws \<noteq> []"
    using v by (metis empty_iff empty_set)
  ultimately have "last_value ?ws = Some v"
    using last_in_set [OF ne] by (simp add: last_value_def)
  then show ?thesis
    using finalized_query_read [OF assms(3,6), of "InclusiveSolutionSet (number (header b)) ix"] assms(7)
      read_at_solution_set [OF assms(1-6,8)] by (simp add: query_state_at_def)
qed

section \<open>Properties\<close>

text \<open>
  C30. A contract registered in a finalized block can be used from the registering solution set
  on: for each of its predicates, \<open>query_predicate\<close> finds the address registered and decodes the
  predicate itself.
\<close>

theorem registered_predicate_found:
  assumes "db_wf d" and "codec_ok E" and "plan_ok E" and "predicate_codec_ok E" and "fresh_block E d b"
    and "finalize_block (content_addr_block E b) (snd (insert_block E b d)) = (Ok (), d')"
    and "fits_i64 ix" and "unat ix < length (solution_sets b)"
    and "sol \<in> set (solutions (solution_sets b ! unat ix))"
    and "register_contract_solution E reg cont = Ok sol" and "p \<in> set (predicates cont)"
    and "pa = \<lparr>contract = content_addr_contract E cont, predicate = content_addr_predicate E p\<rparr>"
    and "single_writes E d' (contract reg) (contract_predicate_key E pa)"
    and "single_writes E d' (contract reg) (predicate_key E (predicate pa))"
    and "\<And>bs. predicate_encode E p = Ok bs \<Longrightarrow> length bs < 2 ^ 63"
  shows "query_predicate E (Ok (TxHandle d')) (contract reg) pa (number (header b)) ix = Ok (Some p)"
proof -
  obtain bs where bs: "predicate_encode E p = Ok bs"
    and reg: "\<lparr>mut_key = contract_predicate_key E pa, mut_value = [1]\<rparr> \<in> set (state_mutations sol)"
    and pred: "\<lparr>mut_key = predicate_key E (predicate pa), mut_value = len_prefixed_words E bs\<rparr>
        \<in> set (state_mutations sol)"
    and solve: "contract (predicate_to_solve sol) = contract reg"
    using registered_mutations [OF assms(10,11)] assms(12) by auto
  note found = written_value_found [OF assms(1-3,5,6) _ assms(7-9) solve]
  have "predicate_decode E bs = Ok p"
    using assms(4) bs by (simp add: predicate_codec_ok_def)
  then show ?thesis
    using found [OF assms(13) reg] found [OF assms(14) pred]
    by (simp add: query_predicate_def len_prefixed_round_trip [OF assms(2) assms(15) [OF bs]])
qed

text \<open>
  A program registered in a finalized block is found from the registering solution set on,
  with exactly its bytes.
\<close>

theorem registered_program_found:
  assumes "db_wf d" and "codec_ok E" and "plan_ok E" and "fresh_block E d b"
    and "finalize_block (content_addr_block E b) (snd (insert_block E b d)) = (Ok (), d')"
    and "fits_i64 ix" and "unat ix < length (solution_sets b)"
    and "register_program_solution E reg prog \<in> set (solutions (solution_sets b ! unat ix))"
    and "single_writes E d' (contract reg) (program_key E (content_addr_program E prog))"
    and "length (program_bytes prog) < 2 ^ 63"
  shows "query_program E (Ok (TxHandle d')) (contract reg) (content_addr_program E prog)
    (number (header b)) ix = Ok (Some prog)"
proof -
  have "query_state_at E d' (contract reg) (program_key E (content_addr_program E prog)) (number (header b)) ix False
      = Ok (Some (len_prefixed_words E (program_bytes prog)))"
    by (rule written_value_found [OF assms(1-5,9,6-8)])
      (simp_all add: register_program_solution_def register_program_mutations_def)
  then show ?thesis
    by (simp add: query_program_def len_prefixed_round_trip [OF assms(2,10)])
qed

section \<open>Witnesses\<close>

definition sample_registry :: PredicateAddress where
  "sample_registry = \<lparr>contract = sample_contract, predicate = ContentAddress 6\<rparr>"

definition sample_deployed :: Contract where
  "sample_deployed = \<lparr>predicates = [sample_predicate], salt = 3\<rparr>"

definition sample_program :: Program where
  "sample_program = Program [1, 2, 3]"

definition sample_deployment :: Block where
  "sample_deployment = \<lparr>header = \<lparr>number = 1, timestamp = Duration 10 5\<rparr>,
     solution_sets = [\<lparr>solutions = [projr (register_contract_solution sample_ext sample_registry sample_deployed),
       register_program_solution sample_ext sample_registry sample_program]\<rparr>]\<rparr>"

lemma sample_registered:
  "register_contract_solution sample_ext sample_registry sample_deployed =
     Ok (projr (register_contract_solution sample_ext sample_registry sample_deployed))"
proof -
  have "case register_contract_solution sample_ext sample_registry sample_deployed of Inr _ \<Rightarrow> True | Inl _ \<Rightarrow> False"
    by code_simp
  then show ?thesis by (auto split: sum.splits)
qed

lemma sample_deployment_stored:
  "fresh_block sample_ext create_tables sample_deployment"
  "finalize_block (content_addr_block sample_ext sample_deployment)
     (snd (insert_block sample_ext sample_deployment create_tables)) =
   (Ok (), sample_final sample_deployment create_tables)"
proof -
  show "fresh_block sample_ext create_tables sample_deployment"
    by code_simp
  have "fst (finalize_block (content_addr_block sample_ext sample_deployment)
     (snd (insert_block sample_ext sample_deployment create_tables))) = Ok ()"
    by code_simp
  then show "finalize_block (content_addr_block sample_ext sample_deployment)
     (snd (insert_block sample_ext sample_deployment create_tables)) =
   (Ok (), sample_final sample_deployment create_tables)"
    by (simp add: sample_final_def prod_eq_iff)
qed

lemma registered_predicate_found_witness:
  "query_predicate sample_ext (Ok (TxHandle (sample_final sample_deployment create_tables))) sample_contract
     \<lparr>contract = content_addr_contract sample_ext sample_deployed,
      predicate = content_addr_predicate sample_ext sample_predicate\<rparr> 1 0 = Ok (Some sample_predicate)"
proof -
  let ?pa = "\<lparr>contract = content_addr_contract sample_ext sample_deployed,
    predicate = content_addr_predicate sample_ext sample_predicate\<rparr>"
  have single: "single_writes sample_ext (sample_final sample_deployment create_tables) sample_contract
      (contract_predicate_key sample_ext ?pa)"
    "single_writes sample_ext (sample_final sample_deployment create_tables) sample_contract
      (predicate_key sample_ext (predicate ?pa))"
    by code_simp+
  have len: "length bs < 2 ^ 63" if "predicate_encode sample_ext sample_predicate = Ok bs" for bs
    using that by (auto simp: sample_ext_def)
  show ?thesis
    using registered_predicate_found [OF create_tables_wf sample_codec_ok sample_plan_ok sample_predicate_codec_ok
        sample_deployment_stored, of 0, OF _ _ _ sample_registered, of sample_predicate ?pa] single len
    by (simp add: sample_deployment_def sample_deployed_def sample_registry_def)
qed

lemma registered_program_found_witness:
  "query_program sample_ext (Ok (TxHandle (sample_final sample_deployment create_tables))) sample_contract
     (content_addr_program sample_ext sample_program) 1 0 = Ok (Some sample_program)"
proof -
  have "single_writes sample_ext (sample_final sample_deployment create_tables) sample_contract
      (program_key sample_ext (content_addr_program sample_ext sample_program))"
    by code_simp
  then show ?thesis
    using registered_program_found [OF create_tables_wf sample_codec_ok sample_plan_ok
        sample_deployment_stored, of 0 sample_registry sample_program]
    by (simp add: sample_deployment_def sample_registry_def sample_program_def)
qed

end
