(* ===== verification/DryRun.thy ===== *)
theory DryRun
  imports ValidateLaws
begin

text \<open>
  Dry runs: the cascade of a memory database that holds the block over the node's database
  reads the state that the node would have if the block were stored and finalized, so that a
  dry run has the outcome the validation of the stored block would have.  For the same reason a
  validation is not affected by blocks that are finalized behind its block while it runs.
\<close>

section \<open>Cascading reads\<close>

context versioned_store
begin

text \<open>
  A history split in two, the second of which the cut covers only above the first, is read by
  reading the second and falling back to the first.
\<close>

lemma read_union:
  assumes "ok s k" and "ok m k" and "ok t k"
    and "\<And>w. w \<in> set (history t k) \<longleftrightarrow> w \<in> set (history s k) \<or> w \<in> set (history m k)"
    and "\<And>u w. u \<in> set (history s k) \<Longrightarrow> w \<in> set (history m k) \<Longrightarrow> covers c (fst u) \<Longrightarrow>
      covers c (fst w) \<Longrightarrow> fst u \<le> fst w"
  shows "read t k c = (case read m k c of Some v \<Rightarrow> Some v | None \<Rightarrow> read s k c)"
proof (cases "read m k c")
  case None
  then have "read t k c = read s k c"
    using assms(4) by (intro read_cong [OF assms(3,1)]) (auto simp: read_None [OF assms(2)])
  with None show ?thesis by simp
next
  case (Some v)
  then obtain p where p: "(p, v) \<in> set (history m k)" "covers c p"
    "\<And>w. w \<in> set (history m k) \<Longrightarrow> covers c (fst w) \<Longrightarrow> fst w \<le> p"
    using read_Some [OF assms(2)] by blast
  have "fst w \<le> p" if w: "w \<in> set (history t k)" "covers c (fst w)" for w
  proof (cases "w \<in> set (history m k)")
    case True
    then show ?thesis using p(3) w(2) by blast
  next
    case False
    with w(1) assms(4) have "w \<in> set (history s k)" by blast
    from assms(5) [OF this p(1) w(2)] p(2) show ?thesis by simp
  qed
  then have "read t k c = Some v"
    using p(1,2) assms(4) by (subst read_Some [OF assms(3)]) blast
  with Some show ?thesis by simp
qed

end

section \<open>The memory database\<close>

lemma fresh_empty: "fresh_block E d b \<Longrightarrow> fresh_block E create_tables b"
  by (simp add: fresh_block_def create_tables_def)

lemma create_tables_history: "finalized_history E create_tables c k = []"
  by (simp add: finalized_history_def finalized_writes_def create_tables_def)

lemma memory_new_Ok:
  assumes "fresh_block E d b" and "memory_opens F = Ok ()" and "tx_begins F InMemory AtMemory = Ok ()"
    and "memory_commits F = Ok ()"
  obtains m where "memory_new E F b = Ok m"
    "finalize_block (content_addr_block E b) (snd (insert_block E b create_tables)) = (Ok (), m)"
proof -
  note fresh = fresh_empty [OF assms(1)]
  obtain m where m: "finalize_block (content_addr_block E b) (snd (insert_block E b create_tables)) = (Ok (), m)"
    using finalize_inserted [OF create_tables_wf fresh] by (auto simp: create_tables_def)
  have "insert_block E b create_tables = (Ok (content_addr_block E b), snd (insert_block E b create_tables))"
    by (rule insert_block_fresh [OF create_tables_wf fresh])
  then obtain x where "insert_block E b create_tables = (Ok (content_addr_block E b), x)"
    by blast
  with m have "memory_new E F b = Ok m"
    by (simp add: memory_new_def memory_block_def with_tx_def assms(2-4))
  from this m show thesis by (rule that)
qed

lemma memory_new_stored:
  assumes "fresh_block E d b" and "memory_new E F b = Ok m"
  shows "finalize_block (content_addr_block E b) (snd (insert_block E b create_tables)) = (Ok (), m)"
proof -
  have "memory_opens F = Ok ()" "tx_begins F InMemory AtMemory = Ok ()" "memory_commits F = Ok ()"
    using assms(2) by (auto simp: memory_new_def with_tx_def bind_result_Ok_iff split: sum.splits prod.splits)
  from memory_new_Ok [OF assms(1) this] assms(2) show ?thesis by (metis Inr_inject)
qed

text \<open>The cut a state is read at.\<close>

definition read_cut :: "Word \<Rightarrow> u64 \<Rightarrow> bool \<Rightarrow> cut" where
  "read_cut n ix pre = (if pre then ExclusiveSolutionSet n ix else InclusiveSolutionSet n ix)"

lemma query_state_at_read:
  assumes "plan_ok E" and "single_writes E d c k" and "fits_i64 ix"
  shows "query_state_at E d c k n ix pre = Ok (finalized_read (E, d) (c, k) (read_cut n ix pre))"
proof -
  have "cut_index_ok (read_cut n ix pre)"
    using assms(3) by (simp add: read_cut_def)
  from finalized_query_read [OF assms(1,2) this] show ?thesis
    by (simp add: query_state_at_def read_cut_def split: if_splits)
qed

lemma cascade_read:
  assumes "db_wf d" and "codec_ok E" and "plan_ok E" and "fresh_block E d b"
    and "finalize_block (content_addr_block E b) (snd (insert_block E b d)) = (Ok (), d')"
    and "finalize_block (content_addr_block E b) (snd (insert_block E b create_tables)) = (Ok (), m)"
    and "single_writes E d c k" and "single_writes E m c k" and "single_writes E d' c k" and "fits_i64 ix"
  shows "query_db (TxCascade m d) (\<lambda>x. query_state_at E x c k (number (header b)) ix pre) =
    query_db (TxHandle d') (\<lambda>x. query_state_at E x c k (number (header b)) ix pre)"
proof -
  let ?n = "number (header b)" and ?q = "read_cut (number (header b)) ix pre"
  let ?ok = "\<lambda>(E, d) (c, k). plan_ok E \<and> single_writes E d c k"
  note hist = insert_finalize_history [OF assms(1,2,4,5)]
  note mem = insert_finalize_history [OF create_tables_wf assms(2) fresh_empty [OF assms(4)] assms(6)]
  have "finalized_read (E, d') (c, k) ?q =
      (case finalized_read (E, m) (c, k) ?q of Some v \<Rightarrow> Some v | None \<Rightarrow> finalized_read (E, d) (c, k) ?q)"
  proof (rule finalized_store.read_union)
    show "?ok (E, d) (c, k)" "?ok (E, m) (c, k)" "?ok (E, d') (c, k)"
      using assms by simp_all
    show "w \<in> set ((case (E, d') of (E, d) \<Rightarrow> \<lambda>(c, k). finalized_history E d c k) (c, k)) \<longleftrightarrow>
        w \<in> set ((case (E, d) of (E, d) \<Rightarrow> \<lambda>(c, k). finalized_history E d c k) (c, k)) \<or>
        w \<in> set ((case (E, m) of (E, d) \<Rightarrow> \<lambda>(c, k). finalized_history E d c k) (c, k))" for w
      using hist [of "fst (fst w)" "snd (fst w)" "snd w"] mem [of "fst (fst w)" "snd (fst w)" "snd w"]
      by (simp add: create_tables_history)
    fix u w
    assume u: "u \<in> set ((case (E, d) of (E, d) \<Rightarrow> \<lambda>(c, k). finalized_history E d c k) (c, k))"
        "cut_covers ?q (fst u)"
      and w: "w \<in> set ((case (E, m) of (E, d) \<Rightarrow> \<lambda>(c, k). finalized_history E d c k) (c, k))"
    obtain l i x where u': "u = ((l, i), x)" by (metis surj_pair)
    obtain l' j y where w': "w = ((l', j), y)" by (metis surj_pair)
    have "l' = sint ?n"
      using w mem [of l' j y c k] by (simp add: w' create_tables_history)
    with u' w' have uw: "u = ((l, i), x)" "w = ((sint ?n, j), y)"
      by simp_all
    have "l \<noteq> sint ?n"
      using u(1) history_number [OF insert_finalize_writes(2) [OF assms(1,2,4,5)], of i x E c k]
      by (auto simp: uw)
    with u(2) show "fst u \<le> fst w"
      by (auto simp: uw read_cut_def split: if_splits)
  qed
  then show ?thesis
    using query_state_at_read [OF assms(3) _ assms(10)] assms(7-9)
    by (simp add: cascade_def split: option.split)
qed

section \<open>Validation depends on the reads only\<close>

definition same_reads :: "node_ext \<Rightarrow> Db \<Rightarrow> Db \<Rightarrow> Word \<Rightarrow> nat \<Rightarrow> bool" where
  "same_reads E conn conn' n ix \<longleftrightarrow>
     (\<forall>c k pre. query_db (tx_of conn) (\<lambda>x. query_state_at E x c k n (word_of_nat ix) pre) =
        query_db (tx_of conn') (\<lambda>x. query_state_at E x c k n (word_of_nat ix) pre))"

text \<open>Faults that answer alike, but for what other tasks write.\<close>

definition same_faults :: "faults \<Rightarrow> faults \<Rightarrow> bool" where
  "same_faults F F' \<longleftrightarrow> pool_open F OnDisk = pool_open F' OnDisk \<and> tx_begins F OnDisk = tx_begins F' OnDisk \<and>
     task_joins F = task_joins F'"

lemma same_reads_validate_set:
  assumes "\<And>at. same_reads E (seen_db F at conn) (seen_db F' at conn') n ix" and "same_faults F F'"
    and "memory_quiet F conn" and "memory_quiet F' conn'"
  shows "validate_set E C F conn creg preg n ix s gas = validate_set E C F' conn' creg preg n ix s gas"
proof -
  have q: "query_db (tx_of (seen_db F at conn)) (\<lambda>x. query_state_at E x c k n (word_of_nat ix) pre) =
      query_db (tx_of (seen_db F' at conn')) (\<lambda>x. query_state_at E x c k n (word_of_nat ix) pre)" for at c k pre
    using assms(1) by (simp add: same_reads_def)
  have same: "pool_open F OnDisk = pool_open F' OnDisk" "tx_begins F OnDisk = tx_begins F' OnDisk"
    "task_joins F = task_joins F'"
    using assms(2) by (simp_all add: same_faults_def)
  note acq = acquire_quiet [OF assms(3)] acquire_quiet [OF assms(4)]
  have "state_query E \<lparr>block_number = n, solution_set_index = ix, pre_state = pre, conn_pool = conn\<rparr> (tx_of (seen_db F at conn)) =
      state_query E \<lparr>block_number = n, solution_set_index = ix, pre_state = pre, conn_pool = conn'\<rparr> (tx_of (seen_db F' at conn'))" for pre at
    by (intro ext) (simp add: state_query_def q)
  then have "key_range E F \<lparr>block_number = n, solution_set_index = ix, pre_state = pre, conn_pool = conn\<rparr> c k m =
      key_range E F' \<lparr>block_number = n, solution_set_index = ix, pre_state = pre, conn_pool = conn'\<rparr> c k m" for pre c k m
    by (cases "tx_begins F' OnDisk (AtState pre ix c k m)") (simp_all add: key_range_def Let_def acq same)
  then have "key_range E F \<lparr>block_number = n, solution_set_index = ix, pre_state = pre, conn_pool = conn\<rparr> =
      key_range E F' \<lparr>block_number = n, solution_set_index = ix, pre_state = pre, conn_pool = conn'\<rparr>" for pre
    by (intro ext)
  moreover have "query_predicate E (transaction F at (conn_of conn)) reg pa n (word_of_nat ix) =
      query_predicate E (transaction F' at (conn_of conn')) reg pa n (word_of_nat ix)" for at reg pa
    by (cases "tx_begins F' OnDisk at") (simp_all add: query_predicate_def acq same q)
  moreover have "query_program E (transaction F at (conn_of conn)) reg a n (word_of_nat ix) =
      query_program E (transaction F' at (conn_of conn')) reg a n (word_of_nat ix)" for at reg a
    by (cases "tx_begins F' OnDisk at") (simp_all add: query_program_def acq same q)
  ultimately show ?thesis
    by (simp add: validate_set_def query_solution_set_predicates_def query_predicates_programs_def Let_def acq(1,3)
        same cong: sum.case_cong if_cong)
qed

lemma validate_sets_cong:
  "(\<And>j s gas. j < i + length ss \<Longrightarrow> step j s gas = step' j s gas) \<Longrightarrow>
   validate_sets step i ss gas = validate_sets step' i ss gas"
proof (induction ss arbitrary: i gas)
  case (Cons s ss)
  then have "validate_sets step (Suc i) ss g = validate_sets step' (Suc i) ss g" for g
    by simp
  then show ?case
    using Cons.prems [of i] by (cases "step' i s gas") (auto split: sum.split)
qed simp

lemma position_fits:
  assumes "ix < length xs" and "int (length xs) < 2 ^ 63"
  shows "fits_i64 (word_of_nat ix :: u64)"
proof -
  have "int ix < 2 ^ 63"
    using assms by linarith
  then show ?thesis
    by (simp add: unsigned_of_nat take_bit_nat_eq_self)
qed

section \<open>Properties\<close>

text \<open>
  C31. Let a block be new, and such that it can be inserted and finalized, its solution sets and those
  stored writing each key at most once.  When the in-memory database has no faults and no other blocks
  come in, \<open>validate_dry_run\<close> of the block has the outcome that validating it would have once it has been
  inserted and finalized: the same gas, the same failure at the same set, or the same error.
\<close>

theorem dry_run_outcome:
  assumes "db_wf d" and "codec_ok E" and "plan_ok E" and "fresh_block E d b"
    and "finalize_block (content_addr_block E b) (snd (insert_block E b d)) = (Ok (), d')"
    and "dry_run_new E F d b = Ok (DryRun m d)" and "memory_quiet F (DryRun m d)" and "sees F = (\<lambda>_ d. d)"
    and "\<And>c k. single_writes E d c k \<and> single_writes E m c k \<and> single_writes E d' c k"
    and "int (length (solution_sets b)) < 2 ^ 63"
  shows "validate_dry_run E C F d creg preg b = validate E C F d' creg preg b"
proof -
  have m: "finalize_block (content_addr_block E b) (snd (insert_block E b create_tables)) = (Ok (), m)"
    using assms(6) by (intro memory_new_stored [OF assms(4)]) (auto simp: dry_run_new_def bind_result_Ok_iff)
  have same: "same_reads E (DryRun m d) (ConnectionPool d') (number (header b)) ix"
    if "ix < length (solution_sets b)" for ix
    using cascade_read [OF assms(1-5) m] assms(9) position_fits [OF that assms(10)] by (simp add: same_reads_def)
  have "memory_quiet F (ConnectionPool d')" "same_faults F F"
    by (simp_all add: memory_quiet_def same_faults_def)
  then have "validate_inner E C F (DryRun m d) creg preg b = validate_inner E C F (ConnectionPool d') creg preg b"
    unfolding validate_inner_def
    by (intro validate_sets_cong same_reads_validate_set) (simp_all add: same assms(7,8))
  then show ?thesis
    by (simp add: validate_dry_run_def validate_def assms(6))
qed

text \<open>
  What others may write while a block of number \<open>n\<close> is validated: new blocks of greater numbers, each
  finalized, in which a key is written once at most by each solution set.
\<close>

inductive later_blocks :: "node_ext \<Rightarrow> Word \<Rightarrow> db \<Rightarrow> db \<Rightarrow> bool" for E n d where
  later_none: "later_blocks E n d d"
| later_block: "later_blocks E n d d1 \<Longrightarrow> fresh_block E d1 b \<Longrightarrow> sint n < sint (number (header b)) \<Longrightarrow>
    finalize_block (content_addr_block E b) (snd (insert_block E b d1)) = (Ok (), d2) \<Longrightarrow>
    \<forall>c k. single_writes E d2 c k \<Longrightarrow> later_blocks E n d d2"

lemma later_blocks_read:
  assumes "later_blocks E n d d'" and "db_wf d" and "codec_ok E" and "plan_ok E"
    and "\<forall>c k. single_writes E d c k" and "fits_i64 ix"
  shows "db_wf d' \<and> (\<forall>c k. single_writes E d' c k) \<and>
    finalized_read (E, d') (c, k) (read_cut n ix pre) = finalized_read (E, d) (c, k) (read_cut n ix pre)"
  using assms
proof (induction rule: later_blocks.induct)
  case (later_block d1 b d2)
  then have IH: "db_wf d1" "\<forall>c k. single_writes E d1 c k"
    "finalized_read (E, d1) (c, k) (read_cut n ix pre) = finalized_read (E, d) (c, k) (read_cut n ix pre)"
    by simp_all
  have "db_wf d2"
    using finalize_block_wf [OF insert_block_wf [OF IH(1)], of "content_addr_block E b" E b] later_block.hyps(4) by simp
  moreover have "finalized_read (E, d2) (c, k) (read_cut n ix pre) = finalized_read (E, d1) (c, k) (read_cut n ix pre)"
    using later_block.hyps(3,5) IH(2)
    by (intro read_before_new_block [OF IH(1) assms(3,4) later_block.hyps(2,4)]) (auto simp: read_cut_def)
  ultimately show ?case
    using IH(3) later_block.hyps(5) by simp
qed simp

text \<open>
  C32. The outcome of a validation does not depend on what is finalized behind the block meanwhile:
  if every transaction of the validation sees the database with some blocks of greater numbers added, each with
  others, the outcome is that of validating on the database as it was.
\<close>

theorem validation_unaffected:
  assumes "db_wf d" and "codec_ok E" and "plan_ok E" and "\<And>at. later_blocks E (number (header b)) d (sees F at d)"
    and "\<forall>c k. single_writes E d c k" and "int (length (solution_sets b)) < 2 ^ 63"
  shows "validate E C F d creg preg b = validate E C (F\<lparr>sees := \<lambda>_ d. d\<rparr>) d creg preg b"
proof -
  let ?n = "number (header b)" and ?F = "F\<lparr>sees := \<lambda>_ d. d\<rparr>"
  have same: "same_reads E (seen_db F at (ConnectionPool d)) (seen_db ?F at (ConnectionPool d)) ?n ix"
    if "ix < length (solution_sets b)" for ix at
    unfolding same_reads_def
  proof (intro allI)
    fix c k pre
    note fits = position_fits [OF that assms(6)]
    note later = later_blocks_read [OF assms(4) assms(1-3,5) fits]
    show "query_db (tx_of (seen_db F at (ConnectionPool d))) (\<lambda>x. query_state_at E x c k ?n (word_of_nat ix) pre) =
        query_db (tx_of (seen_db ?F at (ConnectionPool d))) (\<lambda>x. query_state_at E x c k ?n (word_of_nat ix) pre)"
      using query_state_at_read [OF assms(3) _ fits] later assms(5) by simp
  qed
  have "memory_quiet F (ConnectionPool d)" "memory_quiet ?F (ConnectionPool d)" "same_faults F ?F"
    by (simp_all add: memory_quiet_def same_faults_def)
  with same show ?thesis
    unfolding validate_def validate_inner_def
    by (intro validate_sets_cong same_reads_validate_set) simp_all
qed

text \<open>Tables with at most one row each hold at most one write.\<close>

lemma few_rows_single_writes:
  assumes "length (t_mutation d) \<le> 1" and "length (t_solution d) \<le> 1"
    and "length (t_block_solution_set d) \<le> 1" and "length (t_finalized_block d) \<le> 1"
  shows "single_writes E d c k"
proof -
  have one: "xs = [] \<or> (\<exists>x. xs = [x])" if "length xs \<le> 1" for xs :: "'z list"
    using that by (cases xs) auto
  have "length (finalized_writes d c (blob_from_words E k)) \<le> 1"
    using one [OF assms(1)] one [OF assms(2)] one [OF assms(3)] one [OF assms(4)]
    by (elim disjE exE) (simp_all add: finalized_writes_def)
  from one [OF this] show ?thesis
    by (elim disjE exE) (auto simp: single_writes_def finalized_history_def)
qed

lemma dry_run_outcome_witness:
  "validate_dry_run sample_ext sample_checker no_faults create_tables sample_contract sample_contract
     (sample_block 1 [[(1, 2)]]) =
   validate sample_ext sample_checker no_faults (sample_final (sample_block 1 [[(1, 2)]]) create_tables)
     sample_contract sample_contract (sample_block 1 [[(1, 2)]])"
proof -
  let ?b = "sample_block 1 [[(1, 2)]]"
  let ?d = "sample_final ?b create_tables"
  have fresh: "fresh_block sample_ext create_tables ?b"
    by code_simp
  have "fst (finalize_block (content_addr_block sample_ext ?b) (snd (insert_block sample_ext ?b create_tables))) = Ok ()"
    by code_simp
  then have fin: "finalize_block (content_addr_block sample_ext ?b) (snd (insert_block sample_ext ?b create_tables))
      = (Ok (), ?d)"
    by (simp add: sample_final_def prod_eq_iff)
  obtain m where m: "memory_new sample_ext no_faults ?b = Ok m"
    "finalize_block (content_addr_block sample_ext ?b) (snd (insert_block sample_ext ?b create_tables)) = (Ok (), m)"
    by (rule memory_new_Ok [OF fresh, of no_faults]) (simp_all add: no_faults_def)
  then have "m = ?d"
    using fin by simp
  have dry: "dry_run_new sample_ext no_faults create_tables ?b = Ok (DryRun m create_tables)"
    by (simp add: dry_run_new_def m(1))
  have "length (t_mutation ?d) \<le> 1 \<and> length (t_solution ?d) \<le> 1 \<and>
      length (t_block_solution_set ?d) \<le> 1 \<and> length (t_finalized_block ?d) \<le> 1"
    by code_simp
  then have "single_writes sample_ext create_tables c k \<and> single_writes sample_ext ?d c k \<and>
      single_writes sample_ext ?d c k" for c k
    by (intro conjI few_rows_single_writes) (simp_all add: create_tables_def)
  then show ?thesis
    by (intro dry_run_outcome [OF create_tables_wf sample_codec_ok sample_plan_ok fresh fin dry])
      (simp_all add: \<open>m = ?d\<close> sample_block_def)
qed

text \<open>The block of number 2 is finalized when the first program is queried.\<close>

lemma validation_unaffected_witness:
  "let sees_2 = (\<lambda>at d. case at of AtProgram _ _ \<Rightarrow> sample_final (sample_block 2 [[(1, 2)]]) d | _ \<Rightarrow> d) in
   validate sample_ext sample_checker (no_faults\<lparr>sees := sees_2\<rparr>) create_tables sample_contract sample_contract
     (sample_block 1 [[(1, 2)]]) =
   validate sample_ext sample_checker no_faults create_tables sample_contract sample_contract
     (sample_block 1 [[(1, 2)]])"
proof -
  let ?b = "sample_block 2 [[(1, 2)]]"
  let ?d = "sample_final ?b create_tables"
  let ?sees = "\<lambda>at d. case at of AtProgram _ _ \<Rightarrow> sample_final ?b d | _ \<Rightarrow> d"
  have fresh: "fresh_block sample_ext create_tables ?b"
    by code_simp
  have "fst (finalize_block (content_addr_block sample_ext ?b) (snd (insert_block sample_ext ?b create_tables))) = Ok ()"
    by code_simp
  then have fin: "finalize_block (content_addr_block sample_ext ?b) (snd (insert_block sample_ext ?b create_tables))
      = (Ok (), ?d)"
    by (simp add: sample_final_def prod_eq_iff)
  have "length (t_mutation ?d) \<le> 1 \<and> length (t_solution ?d) \<le> 1 \<and>
      length (t_block_solution_set ?d) \<le> 1 \<and> length (t_finalized_block ?d) \<le> 1"
    by code_simp
  then have single: "\<forall>c k. single_writes sample_ext ?d c k" "\<forall>c k. single_writes sample_ext create_tables c k"
    by (auto intro!: few_rows_single_writes simp: create_tables_def)
  have "later_blocks sample_ext 1 create_tables ?d"
    using fresh fin single(1) by (intro later_block [OF later_none]) (simp_all add: sample_block_def)
  then have later: "later_blocks sample_ext (number (header (sample_block 1 [[(1, 2)]]))) create_tables
      (sees (no_faults\<lparr>sees := ?sees\<rparr>) at create_tables)" for at
    by (auto simp: sample_block_def later_none split: site.split)
  have "no_faults\<lparr>sees := ?sees, sees := \<lambda>_ d. d\<rparr> = no_faults"
    by (simp add: no_faults_def)
  with validation_unaffected [OF create_tables_wf sample_codec_ok sample_plan_ok later single(2), of sample_checker
      sample_contract sample_contract]
  show ?thesis
    unfolding Let_def by (simp add: sample_block_def)
qed

end
