(* ===== verification/RusqlitePool.thy ===== *)
theory RusqlitePool
  imports Schema
begin

text \<open>
  The crate \<open>rusqlite-pool\<close>: the queue of idle connections (\<open>lib.rs\<close>), the semaphore that
  orders access to it (\<open>tokio.rs\<close>), and the steps that concurrent callers interleave.  A
  connection is the number under which it was opened.  \<open>None\<close> as the result of an operation
  is a panic of an \<open>expect\<close>.
\<close>

section \<open>The queue of idle connections\<close>

text \<open>
  What \<open>crossbeam\<close> documents of its \<open>ArrayQueue\<close>: a FIFO queue of a fixed capacity; creating one of
  capacity 0 panics, pushing to a full one gives the element back.
\<close>

type_synonym Connection = nat

record ArrayQueue =
  slots :: nat
  idle :: "Connection list"

definition queue_push :: "Connection \<Rightarrow> ArrayQueue \<Rightarrow> ArrayQueue option" where
  "queue_push c q = (if length (idle q) < slots q then Some (q\<lparr>idle := idle q @ [c]\<rparr>) else None)"

definition queue_pop :: "ArrayQueue \<Rightarrow> (Connection \<times> ArrayQueue) option" where
  "queue_pop q = (case idle q of [] \<Rightarrow> None | c # cs \<Rightarrow> Some (c, q\<lparr>idle := cs\<rparr>))"

record ConnectionPool =
  queue :: ArrayQueue

text \<open>The results of \<open>new_conn_fn\<close> are given by the number of the call.\<close>

fun pool_fill ::
  "nat \<Rightarrow> (nat \<Rightarrow> rusqlite_error + Connection) \<Rightarrow> nat \<Rightarrow> ArrayQueue \<Rightarrow> (rusqlite_error + ArrayQueue) option" where
  "pool_fill 0 new_conn i q = Some (Ok q)"
| "pool_fill (Suc n) new_conn i q =
     (case new_conn i of
        Inl e \<Rightarrow> Some (Err e)
      | Inr c \<Rightarrow> (case queue_push c q of
          None \<Rightarrow> None
        | Some q' \<Rightarrow> pool_fill n new_conn (Suc i) q'))"

definition pool_new ::
  "nat \<Rightarrow> (nat \<Rightarrow> rusqlite_error + Connection) \<Rightarrow> (rusqlite_error + ConnectionPool) option" where
  "pool_new cap new_conn =
     (if cap = 0 then None
      else map_option (\<lambda>r. bind_result r (\<lambda>q. Ok \<lparr>queue = q\<rparr>))
        (pool_fill cap new_conn 0 \<lparr>slots = cap, idle = []\<rparr>))"

definition pool_pop :: "ConnectionPool \<Rightarrow> (Connection \<times> ConnectionPool) option" where
  "pool_pop p = map_option (\<lambda>(c, q). (c, p\<lparr>queue := q\<rparr>)) (queue_pop (queue p))"

definition pool_capacity :: "ConnectionPool \<Rightarrow> nat" where
  "pool_capacity p = slots (queue p)"

definition pool_ready :: "ConnectionPool \<Rightarrow> bool" where
  "pool_ready p \<longleftrightarrow> length (idle (queue p)) = slots (queue p)"

text \<open>Dropping a handle returns its connection to the queue.\<close>

definition drop_connection :: "Connection \<Rightarrow> ConnectionPool \<Rightarrow> ConnectionPool option" where
  "drop_connection c p = map_option (\<lambda>q. p\<lparr>queue := q\<rparr>) (queue_push c (queue p))"

text \<open>The loop of \<open>close\<close>, with the results of \<open>Connection::close\<close>.\<close>

fun close_loop ::
  "(Connection \<Rightarrow> rusqlite_error option) \<Rightarrow> Connection list \<Rightarrow> (Connection \<times> rusqlite_error + unit) list" where
  "close_loop closes [] = []"
| "close_loop closes (c # cs) =
     (case closes c of None \<Rightarrow> Ok () | Some e \<Rightarrow> Err (c, e)) # close_loop closes cs"

definition pool_close ::
  "(Connection \<Rightarrow> rusqlite_error option) \<Rightarrow> ConnectionPool \<Rightarrow>
   (Connection \<times> rusqlite_error + unit) list \<times> ConnectionPool" where
  "pool_close closes p = (close_loop closes (idle (queue p)), p\<lparr>queue := queue p\<lparr>idle := []\<rparr>\<rparr>)"

section \<open>The asynchronous pool\<close>

text \<open>
  \<open>tokio\<close>'s \<open>Semaphore\<close>: a number of permits, and whether it is closed.  Waiting for a permit
  is \<open>Pending\<close>.
\<close>

record Semaphore =
  permits :: nat
  sem_closed :: bool

datatype TryAcquireError = Closed | NoPermits

datatype 'a poll = Pending | Ready 'a

definition try_acquire_permit :: "Semaphore \<Rightarrow> TryAcquireError + Semaphore" where
  "try_acquire_permit s =
     (if sem_closed s then Err Closed
      else if permits s = 0 then Err NoPermits
      else Ok (s\<lparr>permits := permits s - 1\<rparr>))"

record AsyncConnectionPool =
  pool :: ConnectionPool
  semaphore :: Semaphore

definition async_new ::
  "nat \<Rightarrow> (nat \<Rightarrow> rusqlite_error + Connection) \<Rightarrow> (rusqlite_error + AsyncConnectionPool) option" where
  "async_new conn_limit new_conn =
     map_option (\<lambda>r. bind_result r (\<lambda>p.
         Ok \<lparr>pool = p, semaphore = \<lparr>permits = conn_limit, sem_closed = False\<rparr>\<rparr>))
       (pool_new conn_limit new_conn)"

definition take_connection ::
  "AsyncConnectionPool \<Rightarrow> (Connection \<times> AsyncConnectionPool) option" where
  "take_connection p = map_option (\<lambda>(c, q). (c, p\<lparr>pool := q\<rparr>)) (pool_pop (pool p))"

definition try_acquire ::
  "AsyncConnectionPool \<Rightarrow> (TryAcquireError + Connection \<times> AsyncConnectionPool) option" where
  "try_acquire p =
     (case try_acquire_permit (semaphore p) of
        Inl e \<Rightarrow> Some (Err e)
      | Inr s \<Rightarrow> map_option Ok (take_connection (p\<lparr>semaphore := s\<rparr>)))"

definition acquire ::
  "AsyncConnectionPool \<Rightarrow> (unit + Connection \<times> AsyncConnectionPool) option poll" where
  "acquire p =
     (case try_acquire_permit (semaphore p) of
        Inl Closed \<Rightarrow> Ready (Some (Err ()))
      | Inl NoPermits \<Rightarrow> Pending
      | Inr s \<Rightarrow> Ready (map_option Ok (take_connection (p\<lparr>semaphore := s\<rparr>))))"

definition release_permit :: "Semaphore \<Rightarrow> Semaphore" where
  "release_permit s = s\<lparr>permits := Suc (permits s)\<rparr>"

text \<open>A dropped handle drops its fields in order: the connection, then the permit.\<close>

definition drop_handle :: "Connection \<Rightarrow> AsyncConnectionPool \<Rightarrow> AsyncConnectionPool option" where
  "drop_handle c p =
     map_option (\<lambda>q. p\<lparr>pool := q, semaphore := release_permit (semaphore p)\<rparr>)
       (drop_connection c (pool p))"

definition close_semaphore :: "Semaphore \<Rightarrow> Semaphore" where
  "close_semaphore s = s\<lparr>sem_closed := True\<rparr>"

definition async_close ::
  "(Connection \<Rightarrow> rusqlite_error option) \<Rightarrow> AsyncConnectionPool \<Rightarrow>
   (Connection \<times> rusqlite_error + unit) list \<times> AsyncConnectionPool" where
  "async_close closes p =
     (let p' = p\<lparr>semaphore := close_semaphore (semaphore p)\<rparr>;
          r = pool_close closes (pool p')
      in (fst r, p'\<lparr>pool := snd r\<rparr>))"

definition async_capacity :: "AsyncConnectionPool \<Rightarrow> nat" where
  "async_capacity p = pool_capacity (pool p)"

definition async_ready :: "AsyncConnectionPool \<Rightarrow> bool" where
  "async_ready p = pool_ready (pool p)"

definition is_closed :: "AsyncConnectionPool \<Rightarrow> bool" where
  "is_closed p = sem_closed (semaphore p)"

lemmas pool_op_defs =
  queue_push_def queue_pop_def pool_pop_def drop_connection_def take_connection_def
  try_acquire_permit_def release_permit_def close_semaphore_def

section \<open>Opening a pool\<close>

lemma pool_fill_result:
  assumes "length (idle q) + n \<le> slots q"
  shows "pool_fill n f i q = Some (bind_result (collect_results (map f [i..<i + n]))
           (\<lambda>cs. Ok (q\<lparr>idle := idle q @ cs\<rparr>)))"
  using assms
proof (induction n arbitrary: i q)
  case (Suc n)
  have r: "[i..<Suc (i + n)] = i # [Suc i..<Suc (i + n)]"
    by (rule upt_conv_Cons) simp
  show ?case
  proof (cases "f i")
    case (Inr c)
    then show ?thesis
      using Suc.IH [of "q\<lparr>idle := idle q @ [c]\<rparr>" "Suc i"] Suc.prems
      by (cases "collect_results (map f [Suc i..<Suc (i + n)])")
        (simp_all add: r queue_push_def del: upt_Suc)
  qed (simp add: r del: upt_Suc)
qed simp

lemma async_new_result:
  assumes "0 < n"
  shows "async_new n f = Some (bind_result (collect_results (map f [0..<n])) (\<lambda>cs.
    Ok \<lparr>pool = \<lparr>queue = \<lparr>slots = n, idle = cs\<rparr>\<rparr>, semaphore = \<lparr>permits = n, sem_closed = False\<rparr>\<rparr>))"
  using assms pool_fill_result [of "\<lparr>slots = n, idle = []\<rparr>" n f 0]
  by (cases "collect_results (map f [0..<n])") (simp_all add: async_new_def pool_new_def)

section \<open>Concurrent callers\<close>

text \<open>
  Callers on other threads interleave between the atomic operations on the semaphore and on
  the queue.  The system keeps the calls of \<open>acquire\<close> that hold a permit and have not popped a
  connection, the connections of the live handles, the handles that returned their connection
  and not yet their permit, the calls of \<open>close\<close> in their loop, and the closed connections.
\<close>

record pool_sys =
  shared :: AsyncConnectionPool
  acquiring :: nat
  handles :: "Connection list"
  releasing :: nat
  draining :: nat
  closed_conns :: "Connection list"

datatype pool_action =
    TakePermit | PopConnection | PushConnection Connection | DropPermit
  | CloseSemaphore | CloseNext

datatype 's outcome = Disabled | Panicked | Continue 's

fun pool_act :: "pool_action \<Rightarrow> pool_sys \<Rightarrow> pool_sys outcome" where
  "pool_act TakePermit s =
     (case try_acquire_permit (semaphore (shared s)) of
        Inl _ \<Rightarrow> Disabled
      | Inr sem \<Rightarrow> Continue (s\<lparr>shared := (shared s)\<lparr>semaphore := sem\<rparr>, acquiring := Suc (acquiring s)\<rparr>))"
| "pool_act PopConnection s =
     (if acquiring s = 0 then Disabled
      else case take_connection (shared s) of
        None \<Rightarrow> Panicked
      | Some (c, p) \<Rightarrow>
          Continue (s\<lparr>shared := p, acquiring := acquiring s - 1, handles := handles s @ [c]\<rparr>))"
| "pool_act (PushConnection c) s =
     (if c \<notin> set (handles s) then Disabled
      else case drop_connection c (pool (shared s)) of
        None \<Rightarrow> Panicked
      | Some p \<Rightarrow> Continue (s\<lparr>shared := (shared s)\<lparr>pool := p\<rparr>, handles := remove1 c (handles s),
                          releasing := Suc (releasing s)\<rparr>))"
| "pool_act DropPermit s =
     (if releasing s = 0 then Disabled
      else Continue (s\<lparr>shared := (shared s)\<lparr>semaphore := release_permit (semaphore (shared s))\<rparr>,
                       releasing := releasing s - 1\<rparr>))"
| "pool_act CloseSemaphore s =
     Continue (s\<lparr>shared := (shared s)\<lparr>semaphore := close_semaphore (semaphore (shared s))\<rparr>,
                 draining := Suc (draining s)\<rparr>)"
| "pool_act CloseNext s =
     (if draining s = 0 then Disabled
      else case take_connection (shared s) of
        None \<Rightarrow> Continue (s\<lparr>draining := draining s - 1\<rparr>)
      | Some (c, p) \<Rightarrow> Continue (s\<lparr>shared := p, closed_conns := closed_conns s @ [c]\<rparr>))"

definition pool_start :: "nat \<Rightarrow> (nat \<Rightarrow> rusqlite_error + Connection) \<Rightarrow> pool_sys \<Rightarrow> bool" where
  "pool_start n f s \<longleftrightarrow>
     (case async_new n f of
        Some (Inr p) \<Rightarrow>
          s = \<lparr>shared = p, acquiring = 0, handles = [], releasing = 0, draining = 0, closed_conns = []\<rparr>
      | _ \<Rightarrow> False)"

definition pool_step :: "pool_sys \<Rightarrow> pool_sys \<Rightarrow> bool" where
  "pool_step s t \<longleftrightarrow> (\<exists>a. pool_act a s = Continue t)"

text \<open>The invariant: permits and connections are accounted for.\<close>

definition opened :: "nat \<Rightarrow> (nat \<Rightarrow> rusqlite_error + Connection) \<Rightarrow> Connection list" where
  "opened n f = map (\<lambda>i. projr (f i)) [0..<n]"

definition pool_inv :: "nat \<Rightarrow> (nat \<Rightarrow> rusqlite_error + Connection) \<Rightarrow> pool_sys \<Rightarrow> bool" where
  "pool_inv n f s \<longleftrightarrow>
     (let p = shared s; q = queue (pool p) in
      slots q = n \<and>
      permits (semaphore p) + acquiring s + length (handles s) + releasing s = n \<and>
      mset (idle q) + mset (handles s) + mset (closed_conns s) = mset (opened n f) \<and>
      (\<not> sem_closed (semaphore p) \<longrightarrow> draining s = 0 \<and> closed_conns s = []))"


lemma pool_start_eq:
  assumes "pool_start n f s"
  obtains cs where "0 < n" "collect_results (map f [0..<n]) = Ok cs"
    "s = \<lparr>shared = \<lparr>pool = \<lparr>queue = \<lparr>slots = n, idle = cs\<rparr>\<rparr>,
                    semaphore = \<lparr>permits = n, sem_closed = False\<rparr>\<rparr>,
          acquiring = 0, handles = [], releasing = 0, draining = 0, closed_conns = []\<rparr>"
proof -
  from assms have "0 < n"
    by (cases "n = 0") (auto simp: pool_start_def async_new_def pool_new_def)
  moreover from assms this obtain cs where "collect_results (map f [0..<n]) = Ok cs"
    by (cases "collect_results (map f [0..<n])") (auto simp: pool_start_def async_new_result)
  ultimately show thesis
    using assms that by (simp add: pool_start_def async_new_result)
qed

lemma collected_opened:
  assumes "collect_results (map f [0..<n]) = Ok cs"
  shows "cs = opened n f"
proof -
  from assms have "map f [0..<n] = map Inr cs"
    by (simp add: collect_results_Ok_iff)
  then have "map projr (map f [0..<n]) = cs"
    by (simp add: comp_def)
  then show ?thesis
    by (simp add: opened_def comp_def)
qed

lemma length_opened [simp]: "length (opened n f) = n"
  by (simp add: opened_def)

lemma pool_inv_start: "pool_start n f s \<Longrightarrow> pool_inv n f s"
  by (erule pool_start_eq) (simp add: pool_inv_def collected_opened [symmetric])

lemma pool_inv_lengths:
  assumes "pool_inv n f s"
  shows "length (idle (queue (pool (shared s)))) + length (handles s) + length (closed_conns s) = n"
proof -
  have "size (mset (idle (queue (pool (shared s)))) + mset (handles s) + mset (closed_conns s)) = n"
    using assms by (simp only: pool_inv_def Let_def size_mset length_opened)
  then show ?thesis
    by simp
qed

lemma mset_move:
  assumes "c \<in> set hs"
  shows "mset (is @ [c]) + mset (remove1 c hs) = mset is + mset hs"
  using assms by (simp add: insert_DiffM)

lemma push_connection_Continue:
  assumes "pool_act (PushConnection c) s = Continue t"
  shows "c \<in> set (handles s)"
    and "t = s\<lparr>shared := (shared s)\<lparr>pool := (pool (shared s))\<lparr>queue := (queue (pool (shared s)))
               \<lparr>idle := idle (queue (pool (shared s))) @ [c]\<rparr>\<rparr>\<rparr>,
              handles := remove1 c (handles s), releasing := Suc (releasing s)\<rparr>"
  using assms by (simp_all add: drop_connection_def queue_push_def split: if_splits)

lemma pool_inv_push:
  assumes inv: "pool_inv n f s" and act: "pool_act (PushConnection c) s = Continue t"
  shows "pool_inv n f t"
proof -
  note c = push_connection_Continue(1) [OF act] and t = push_connection_Continue(2) [OF act]
  have "length (handles s) = Suc (length (remove1 c (handles s)))"
    using length_pos_if_in_set [OF c] c by (simp add: length_remove1)
  with inv show ?thesis
    unfolding pool_inv_def Let_def t by (simp add: c)
qed

lemma pool_inv_act:
  assumes "pool_inv n f s" and "pool_act a s = Continue t"
  shows "pool_inv n f t"
proof (cases a)
  case (PushConnection c)
  with assms pool_inv_push show ?thesis by simp
qed (use assms in \<open>auto simp: pool_inv_def Let_def pool_op_defs
      split: if_splits sum.splits option.splits list.splits\<close>)

interpretation conn_pool: inv_machine "pool_start n f" pool_step "pool_inv n f"
  by unfold_locales (auto simp: pool_step_def intro: pool_inv_start pool_inv_act)


lemma pool_reach:
  "reachable (pool_start n f) pool_step s \<Longrightarrow> pool_act a s = Continue t \<Longrightarrow>
   reachable (pool_start n f) pool_step t"
  by (rule reach_step [of _ _ s]) (auto simp: pool_step_def)

text \<open>The composed calls are sequences of the atomic steps.\<close>

lemma try_acquire_acts:
  assumes "try_acquire (shared s) = Some (Ok (c, p))"
  shows "\<exists>t. pool_act TakePermit s = Continue t \<and>
    pool_act PopConnection t = Continue (s\<lparr>shared := p, handles := handles s @ [c]\<rparr>)"
proof -
  obtain sem where sem: "try_acquire_permit (semaphore (shared s)) = Ok sem"
    and c: "take_connection ((shared s)\<lparr>semaphore := sem\<rparr>) = Some (c, p)"
    using assms by (auto simp: try_acquire_def split: sum.splits option.splits)
  show ?thesis
    by (rule exI [of _ "s\<lparr>shared := (shared s)\<lparr>semaphore := sem\<rparr>, acquiring := Suc (acquiring s)\<rparr>"])
      (simp add: sem c)
qed

lemma acquire_try_acquire:
  "acquire p =
     (case try_acquire p of
        Some (Inl NoPermits) \<Rightarrow> Pending
      | Some (Inl Closed) \<Rightarrow> Ready (Some (Err ()))
      | Some (Inr r) \<Rightarrow> Ready (Some (Ok r))
      | None \<Rightarrow> Ready None)"
  by (auto simp: acquire_def try_acquire_def split: sum.splits option.splits TryAcquireError.splits)

lemma drop_handle_acts:
  assumes "drop_handle c (shared s) = Some p" and "c \<in> set (handles s)"
  shows "\<exists>t. pool_act (PushConnection c) s = Continue t \<and>
    pool_act DropPermit t = Continue (s\<lparr>shared := p, handles := remove1 c (handles s)\<rparr>)"
proof -
  obtain q where q: "drop_connection c (pool (shared s)) = Some q"
    and p: "p = (shared s)\<lparr>pool := q, semaphore := release_permit (semaphore (shared s))\<rparr>"
    using assms(1) by (auto simp: drop_handle_def)
  show ?thesis
    by (rule exI [of _ "s\<lparr>shared := (shared s)\<lparr>pool := q\<rparr>, handles := remove1 c (handles s),
          releasing := Suc (releasing s)\<rparr>"]) (simp add: q p assms(2))
qed

section \<open>Properties\<close>

text \<open>
  C22. However callers interleave, each connection is at any time in exactly one place: idle in
  the queue, behind one handle, or closed.  No two handles share a connection, none is lost,
  and permits plus the calls and handles that hold one are always the connection limit.
\<close>

theorem connections_in_one_place:
  assumes "reachable (pool_start n f) pool_step s" and "distinct (opened n f)"
  shows "distinct (idle (queue (pool (shared s))) @ handles s @ closed_conns s) \<and>
    set (idle (queue (pool (shared s)))) \<union> set (handles s) \<union> set (closed_conns s) = set (opened n f) \<and>
    permits (semaphore (shared s)) + acquiring s + length (handles s) + releasing s = n"
proof -
  let ?all = "idle (queue (pool (shared s))) @ handles s @ closed_conns s"
  have inv: "pool_inv n f s"
    using assms(1) by (rule conn_pool.reachable_inv)
  then have m: "mset ?all = mset (opened n f)"
    by (simp add: pool_inv_def Let_def add.assoc)
  have "distinct ?all"
    using mset_eq_imp_distinct_iff [OF m] assms(2) by simp
  moreover have "set ?all = set (opened n f)"
    using m by (rule mset_eq_setD)
  ultimately show ?thesis
    using inv by (simp add: pool_inv_def Let_def Un_assoc)
qed

text \<open>
  C23. As long as the pool is not closed, no step of any caller panics: a permit guarantees a
  connection in the queue, and a returned connection finds room in it.  After a close, only the
  pop of an \<open>acquire\<close> may panic.
\<close>

theorem open_pool_never_panics:
  assumes "reachable (pool_start n f) pool_step s" and "pool_act a s = Panicked"
  shows "a = PopConnection \<and> is_closed (shared s)"
proof -
  have inv: "pool_inv n f s"
    using assms(1) by (rule conn_pool.reachable_inv)
  note l = pool_inv_lengths [OF inv]
  show ?thesis
  proof (cases a)
    case PopConnection
    with assms(2) have "0 < acquiring s" "idle (queue (pool (shared s))) = []"
      by (auto simp: take_connection_def pool_pop_def queue_pop_def split: if_splits list.splits option.splits)
    with inv l PopConnection show ?thesis
      by (auto simp: pool_inv_def Let_def is_closed_def)
  next
    case (PushConnection c)
    with assms(2) have "c \<in> set (handles s)" "slots (queue (pool (shared s))) \<le> length (idle (queue (pool (shared s))))"
      by (auto simp: drop_connection_def queue_push_def split: if_splits)
    with inv l length_pos_if_in_set [of c "handles s"] have False
      by (auto simp: pool_inv_def Let_def)
    then show ?thesis ..
  qed (use assms(2) in \<open>auto split: if_splits sum.splits option.splits\<close>)
qed

text \<open>A sequence of steps of any callers.\<close>

fun run_acts :: "pool_action list \<Rightarrow> pool_sys \<Rightarrow> pool_sys outcome" where
  "run_acts [] s = Continue s"
| "run_acts (a # as) s = (case pool_act a s of Continue t \<Rightarrow> run_acts as t | r \<Rightarrow> r)"

lemma run_acts_reach:
  "reachable (pool_start n f) pool_step s \<Longrightarrow> run_acts as s = Continue t \<Longrightarrow>
   reachable (pool_start n f) pool_step t"
  by (induction as arbitrary: s) (auto split: outcome.splits intro: pool_reach)

lemma run_acts_append:
  "run_acts (as @ bs) s = (case run_acts as s of Continue t \<Rightarrow> run_acts bs t | r \<Rightarrow> r)"
  by (induction as arbitrary: s) (simp_all split: outcome.split)

text \<open>Some turns of the loop of \<open>close\<close> close the first idle connections.\<close>

lemma run_drain:
  assumes "0 < draining s" and "k \<le> length (idle (queue (pool (shared s))))"
  shows "run_acts (replicate k CloseNext) s = Continue (s
    \<lparr>shared := (shared s)\<lparr>pool := (pool (shared s))\<lparr>queue := (queue (pool (shared s)))
       \<lparr>idle := drop k (idle (queue (pool (shared s))))\<rparr>\<rparr>\<rparr>,
     closed_conns := closed_conns s @ take k (idle (queue (pool (shared s))))\<rparr>)"
  using assms
proof (induction k arbitrary: s)
  case (Suc k)
  then obtain c cs where cs: "idle (queue (pool (shared s))) = c # cs"
    by (cases "idle (queue (pool (shared s)))") auto
  with Suc show ?case
    by (simp add: take_connection_def pool_pop_def queue_pop_def)
qed simp

lemma close_then_drain:
  assumes "k \<le> length (idle (queue (pool (shared s))))"
  obtains t where "run_acts (CloseSemaphore # replicate k CloseNext) s = Continue t"
    "acquiring t = acquiring s" "idle (queue (pool (shared t))) = drop k (idle (queue (pool (shared s))))"
    "handles t = handles s" "closed_conns t = closed_conns s @ take k (idle (queue (pool (shared s))))"
    "shared t = (shared s)\<lparr>semaphore := close_semaphore (semaphore (shared s)),
       pool := (pool (shared s))\<lparr>queue := (queue (pool (shared s)))\<lparr>idle := drop k (idle (queue (pool (shared s))))\<rparr>\<rparr>\<rparr>"
proof -
  have "run_acts (CloseSemaphore # replicate k CloseNext) s = Continue (s
    \<lparr>shared := (shared s)\<lparr>semaphore := close_semaphore (semaphore (shared s)),
       pool := (pool (shared s))\<lparr>queue := (queue (pool (shared s)))\<lparr>idle := drop k (idle (queue (pool (shared s))))\<rparr>\<rparr>\<rparr>,
     draining := Suc (draining s), closed_conns := closed_conns s @ take k (idle (queue (pool (shared s))))\<rparr>)"
    using assms by (simp add: run_drain)
  then show thesis
    by (rule that) simp_all
qed

lemma idle_of_acquiring:
  assumes "pool_inv n f s" and "\<not> is_closed (shared s)"
  shows "acquiring s \<le> length (idle (queue (pool (shared s))))"
  using assms pool_inv_lengths [OF assms(1)] by (auto simp: pool_inv_def Let_def is_closed_def)

text \<open>
  C24. Let a call of \<open>acquire\<close> on an open pool hold its permit and not have popped its connection.  When
  another thread's \<open>close\<close> runs in between, closing the semaphore and then the idle connections
  one by one, the \<open>acquire\<close> panics as soon as the loop has closed them all, as a whole call of
  \<open>close\<close> does; the connections that live handles hold stay open.  As long as the loop has closed only some of them, or without
  the \<open>close\<close>, the pop gets a connection.
\<close>

theorem close_during_acquire_panics:
  assumes "reachable (pool_start n f) pool_step s" and "\<not> is_closed (shared s)" and "0 < acquiring s"
  shows "let k = length (idle (queue (pool (shared s)))) in
    0 < k \<and> (\<exists>t. pool_act PopConnection s = Continue t) \<and>
    (\<forall>j < k. \<exists>t. run_acts ([CloseSemaphore] @ replicate j CloseNext @ [PopConnection]) s = Continue t) \<and>
    run_acts ([CloseSemaphore] @ replicate k CloseNext @ [PopConnection]) s = Panicked \<and>
    (\<exists>t. run_acts ([CloseSemaphore] @ replicate k CloseNext) s = Continue t \<and>
       shared t = snd (async_close closes (shared s)) \<and> handles t = handles s \<and>
       mset (closed_conns t) + mset (handles t) = mset (opened n f))"
proof -
  have inv: "pool_inv n f s"
    using assms(1) by (rule conn_pool.reachable_inv)
  define k where "k = length (idle (queue (pool (shared s))))"
  have pos: "0 < k"
    using idle_of_acquiring [OF inv assms(2)] assms(3) unfolding k_def by linarith
  have pop: "pool_act PopConnection t = Panicked \<longleftrightarrow> idle (queue (pool (shared t))) = []"
    "pool_act PopConnection t \<noteq> Disabled" if "acquiring t = acquiring s" for t
    using that assms(3) by (auto simp: take_connection_def pool_pop_def queue_pop_def split: list.splits)
  have goes_on: "\<exists>t'. pool_act PopConnection t = Continue t'"
    if "acquiring t = acquiring s" "idle (queue (pool (shared t))) \<noteq> []" for t
    using pop [OF that(1)] that(2) by (cases "pool_act PopConnection t") auto
  have run: "run_acts ([CloseSemaphore] @ replicate j CloseNext @ [PopConnection]) s = pool_act PopConnection t"
    if "run_acts (CloseSemaphore # replicate j CloseNext) s = Continue t" for j t
    using that run_acts_append [of "CloseSemaphore # replicate j CloseNext" "[PopConnection]" s]
    by (simp split: outcome.split)
  have "\<exists>t. run_acts ([CloseSemaphore] @ replicate j CloseNext @ [PopConnection]) s = Continue t" if "j < k" for j
  proof -
    have j: "j \<le> length (idle (queue (pool (shared s))))"
      using that by (simp add: k_def)
    obtain t where t: "run_acts (CloseSemaphore # replicate j CloseNext) s = Continue t"
      "acquiring t = acquiring s" "idle (queue (pool (shared t))) = drop j (idle (queue (pool (shared s))))"
      by (rule close_then_drain [OF j])
    show ?thesis
      unfolding run [OF t(1)] using t(2,3) that by (intro goes_on) (simp_all add: k_def)
  qed
  moreover obtain t where t: "run_acts (CloseSemaphore # replicate k CloseNext) s = Continue t"
    "acquiring t = acquiring s" "idle (queue (pool (shared t))) = []" "handles t = handles s"
    "closed_conns t = closed_conns s @ idle (queue (pool (shared s)))"
    "shared t = snd (async_close closes (shared s))"
    by (rule close_then_drain [of k s]) (simp_all add: k_def async_close_def pool_close_def Let_def)
  moreover have "run_acts ([CloseSemaphore] @ replicate k CloseNext @ [PopConnection]) s = Panicked"
    unfolding run [OF t(1)] using pop [OF t(2)] t(3) by simp
  moreover have "mset (closed_conns t) + mset (handles t) = mset (opened n f)"
    using inv t(4,5) by (simp add: pool_inv_def Let_def ac_simps)
  moreover have "\<exists>t. pool_act PopConnection s = Continue t"
    using pos by (intro goes_on) (simp_all add: k_def)
  ultimately show ?thesis
    using pos unfolding k_def [symmetric] Let_def append_Cons append_Nil by blast
qed

text \<open>
  When an open pool has no live handle and no call in progress, all its connections are
  ready, all permits are available, and the next \<open>acquire\<close> gets a connection at once.
\<close>

theorem returned_connections_ready:
  assumes "reachable (pool_start n f) pool_step s" and "pool_start n f s0"
    and "acquiring s = 0" and "handles s = []" and "releasing s = 0" and "\<not> is_closed (shared s)"
  shows "async_ready (shared s) \<and> permits (semaphore (shared s)) = async_capacity (shared s) \<and>
    (\<exists>c p. acquire (shared s) = Ready (Some (Ok (c, p))) \<and> c \<in> set (opened n f))"
proof -
  have inv: "pool_inv n f s"
    using assms(1) by (rule conn_pool.reachable_inv)
  have "0 < n"
    using assms(2) by (rule pool_start_eq)
  let ?cs = "idle (queue (pool (shared s)))"
  have slots: "slots (queue (pool (shared s))) = n" "permits (semaphore (shared s)) = n"
    and m: "mset ?cs = mset (opened n f)"
    using inv assms(3-6) by (auto simp: pool_inv_def Let_def is_closed_def)
  have l: "length ?cs = n"
    using mset_eq_length [OF m] by simp
  with \<open>0 < n\<close> obtain c cs where cs: "?cs = c # cs"
    by (cases ?cs) auto
  then have "c \<in> set (opened n f)"
    using mset_eq_setD [OF m] by (metis list.set_intros(1))
  with cs slots l assms(6) \<open>0 < n\<close> show ?thesis
    by (simp add: async_ready_def pool_ready_def async_capacity_def pool_capacity_def acquire_def
        is_closed_def try_acquire_permit_def take_connection_def pool_pop_def queue_pop_def)
qed

text \<open>
  Closing a pool whose connections are all ready closes every connection it opened, with
  one result each, and every later attempt to acquire fails at once.
\<close>

theorem close_ready_pool:
  assumes "reachable (pool_start n f) pool_step s" and "async_ready (shared s)"
    and "async_close closes (shared s) = (rs, p)"
  shows "(\<exists>cs. mset cs = mset (opened n f) \<and>
      rs = map (\<lambda>c. case closes c of None \<Rightarrow> Ok () | Some e \<Rightarrow> Err (c, e)) cs) \<and>
    is_closed p \<and> try_acquire p = Some (Err Closed) \<and> acquire p = Ready (Some (Err ()))"
proof -
  have inv: "pool_inv n f s"
    using assms(1) by (rule conn_pool.reachable_inv)
  let ?cs = "idle (queue (pool (shared s)))"
  have loop: "close_loop closes cs =
      map (\<lambda>c. case closes c of None \<Rightarrow> Ok () | Some e \<Rightarrow> Err (c, e)) cs" for cs
    by (induction cs) auto
  have "length ?cs = n"
    using inv assms(2) by (simp add: pool_inv_def Let_def async_ready_def pool_ready_def)
  then have "handles s = []" "closed_conns s = []"
    using pool_inv_lengths [OF inv] by auto
  then have "mset ?cs = mset (opened n f)"
    using inv by (simp add: pool_inv_def Let_def)
  with assms(3) show ?thesis
    by (auto simp: async_close_def pool_close_def Let_def loop is_closed_def try_acquire_def acquire_def
        try_acquire_permit_def close_semaphore_def)
qed

section \<open>Witnesses\<close>

definition sample_pool :: pool_sys where
  "sample_pool = \<lparr>shared = \<lparr>pool = \<lparr>queue = \<lparr>slots = 2, idle = [0, 1]\<rparr>\<rparr>,
        semaphore = \<lparr>permits = 2, sem_closed = False\<rparr>\<rparr>,
      acquiring = 0, handles = [], releasing = 0, draining = 0, closed_conns = []\<rparr>"

lemma sample_pool_start: "pool_start 2 Inr sample_pool"
  by code_simp

lemma sample_pool_reachable: "reachable (pool_start 2 Inr) pool_step sample_pool"
  using sample_pool_start by (rule reach_start)

definition sample_raced :: pool_sys where
  "sample_raced = \<lparr>shared = \<lparr>pool = \<lparr>queue = \<lparr>slots = 2, idle = []\<rparr>\<rparr>,
        semaphore = \<lparr>permits = 1, sem_closed = True\<rparr>\<rparr>,
      acquiring = 1, handles = [], releasing = 0, draining = 1, closed_conns = [0, 1]\<rparr>"

lemma sample_raced_reachable: "reachable (pool_start 2 Inr) pool_step sample_raced"
proof (rule run_acts_reach [OF sample_pool_reachable])
  show "run_acts [TakePermit, CloseSemaphore, CloseNext, CloseNext] sample_pool = Continue sample_raced"
    by code_simp
qed

lemma open_pool_never_panics_witness:
  "pool_act PopConnection sample_raced = Panicked \<and> is_closed (shared sample_raced)"
proof
  show *: "pool_act PopConnection sample_raced = Panicked"
    by code_simp
  show "is_closed (shared sample_raced)"
    using open_pool_never_panics [OF sample_raced_reachable *] by simp
qed

lemma connections_in_one_place_witness:
  "distinct (idle (queue (pool (shared sample_pool))) @ handles sample_pool @ closed_conns sample_pool)"
  using connections_in_one_place [OF sample_pool_reachable] by (simp add: opened_def)

lemma close_during_acquire_panics_witness:
  "\<exists>s. run_acts [TakePermit] sample_pool = Continue s \<and>
     run_acts ([CloseSemaphore] @ replicate 2 CloseNext @ [PopConnection]) s = Panicked"
proof -
  let ?s = "sample_pool\<lparr>shared := (shared sample_pool)\<lparr>semaphore := \<lparr>permits = 1, sem_closed = False\<rparr>\<rparr>,
     acquiring := 1\<rparr>"
  have s: "run_acts [TakePermit] sample_pool = Continue ?s"
    by code_simp
  have "\<not> is_closed (shared ?s)" "0 < acquiring ?s" "length (idle (queue (pool (shared ?s)))) = 2"
    by code_simp+
  with close_during_acquire_panics [OF run_acts_reach [OF sample_pool_reachable s]] s show ?thesis
    unfolding Let_def by metis
qed

lemma returned_connections_ready_witness: "async_ready (shared sample_pool)"
  using returned_connections_ready [OF sample_pool_reachable sample_pool_start]
  by (simp add: sample_pool_def is_closed_def)

lemma close_ready_pool_witness:
  "try_acquire (snd (async_close (\<lambda>_. None) (shared sample_pool))) = Some (Err Closed)"
  using close_ready_pool [OF sample_pool_reachable, of "\<lambda>_. None"
      "fst (async_close (\<lambda>_. None) (shared sample_pool))"]
  by (simp add: sample_pool_def async_ready_def pool_ready_def)

end
