(* ===== verification/BlockNotify.thy ===== *)
theory BlockNotify
  imports Main
begin

text \<open>
  \<open>node-types/src/block_notify.rs\<close>: the wrappers of \<open>tokio\<close>'s \<open>watch\<close> channel that announce
  new blocks.  The channel is third-party, and the record \<open>watch\<close> is what \<open>tokio\<close> documents of it: it
  has a version that each accepted \<open>send\<close> increments, and each receiver has the version it has
  seen; a receiver subscribes at the current version.
\<close>

section \<open>The channel\<close>

record watch =
  version :: nat
  senders :: nat
  seen :: "(nat \<times> nat) list"
  next_id :: nat

text \<open>\<open>Sender::send\<close> fails, and changes nothing, when there is no receiver.\<close>

definition watch_send :: "watch \<Rightarrow> watch option" where
  "watch_send w = (if seen w = [] then None else Some (w\<lparr>version := Suc (version w)\<rparr>))"

definition watch_subscribe :: "watch \<Rightarrow> nat \<times> watch" where
  "watch_subscribe w =
     (next_id w, w\<lparr>seen := (next_id w, version w) # seen w, next_id := Suc (next_id w)\<rparr>)"

datatype changed = NotYet | Changed | SenderGone

definition watch_changed :: "nat \<Rightarrow> watch \<Rightarrow> changed \<times> watch" where
  "watch_changed rx w =
     (case map_of (seen w) rx of
        None \<Rightarrow> (NotYet, w)
      | Some v \<Rightarrow>
          if v \<noteq> version w
          then (Changed, w\<lparr>seen := map (\<lambda>(r, u). (r, if r = rx then version w else u)) (seen w)\<rparr>)
          else if senders w = 0 then (SenderGone, w) else (NotYet, w))"

section \<open>\<open>BlockTx\<close> and \<open>BlockRx\<close>\<close>

definition block_tx_new :: watch where
  "block_tx_new = \<lparr>version = 0, senders = 1, seen = [], next_id = 0\<rparr>"

definition notify :: "watch \<Rightarrow> watch" where
  "notify w = (case watch_send w of None \<Rightarrow> w | Some w' \<Rightarrow> w')"

definition new_listener :: "watch \<Rightarrow> nat \<times> watch" where
  "new_listener w = watch_subscribe w"

definition receiver_count :: "watch \<Rightarrow> nat" where
  "receiver_count w = length (seen w)"

definition rx_changed :: "nat \<Rightarrow> watch \<Rightarrow> changed \<times> watch" where
  "rx_changed rx w = watch_changed rx w"

text \<open>Dropping a \<open>BlockTx\<close> or a \<open>BlockRx\<close>, and cloning them.\<close>

definition drop_tx :: "watch \<Rightarrow> watch" where
  "drop_tx w = w\<lparr>senders := senders w - 1\<rparr>"

definition clone_tx :: "watch \<Rightarrow> watch" where
  "clone_tx w = w\<lparr>senders := Suc (senders w)\<rparr>"

definition drop_rx :: "nat \<Rightarrow> watch \<Rightarrow> watch" where
  "drop_rx rx w = w\<lparr>seen := filter (\<lambda>(r, _). r \<noteq> rx) (seen w)\<rparr>"

definition clone_rx :: "nat \<Rightarrow> watch \<Rightarrow> watch" where
  "clone_rx rx w =
     (case map_of (seen w) rx of
        None \<Rightarrow> w
      | Some v \<Rightarrow> w\<lparr>seen := (next_id w, v) # seen w, next_id := Suc (next_id w)\<rparr>)"

datatype watch_op = Notify | Listen | Await nat | DropTx | CloneTx | DropRx nat | CloneRx nat

fun do_op :: "watch_op \<Rightarrow> watch \<Rightarrow> watch" where
  "do_op Notify w = notify w"
| "do_op Listen w = snd (new_listener w)"
| "do_op (Await rx) w = snd (rx_changed rx w)"
| "do_op DropTx w = drop_tx w"
| "do_op CloneTx w = clone_tx w"
| "do_op (DropRx rx) w = drop_rx rx w"
| "do_op (CloneRx rx) w = clone_rx rx w"

definition watch_run :: "watch_op list \<Rightarrow> watch \<Rightarrow> watch" where
  "watch_run ops w = fold do_op ops w"

section \<open>No notification is lost\<close>

lemmas watch_defs =
  notify_def new_listener_def rx_changed_def drop_tx_def clone_tx_def drop_rx_def
  clone_rx_def watch_send_def watch_subscribe_def watch_changed_def

definition watch_wf :: "watch \<Rightarrow> bool" where
  "watch_wf w \<longleftrightarrow> (\<forall>(r, v) \<in> set (seen w). v \<le> version w \<and> r < next_id w)"

lemma map_of_update_other:
  "r \<noteq> rx \<Longrightarrow> map_of (map (\<lambda>(q, u). (q, if q = rx then n else u)) xs) r = map_of xs r"
  by (induction xs) auto

lemma map_of_drop_other:
  "r \<noteq> rx \<Longrightarrow> map_of (filter (\<lambda>(q, _). q \<noteq> rx) xs) r = map_of xs r"
  by (induction xs) auto

lemma watch_wfD: "watch_wf w \<Longrightarrow> map_of (seen w) r = Some v \<Longrightarrow> v \<le> version w \<and> r < next_id w"
  by (fastforce simp: watch_wf_def dest: map_of_SomeD)

lemma do_op_wf: "watch_wf w \<Longrightarrow> watch_wf (do_op p w)"
proof (cases p)
  case (CloneRx rx)
  assume "watch_wf w"
  with watch_wfD [OF this, of rx] CloneRx show ?thesis
    by (auto simp: watch_wf_def clone_rx_def less_Suc_eq split: option.split)
qed (auto simp: watch_wf_def watch_defs less_Suc_eq split: option.split)

lemma do_op_seen:
  assumes "map_of (seen w) rx = Some v" and "watch_wf w" and "p \<notin> {Await rx, DropRx rx}"
  shows "map_of (seen (do_op p w)) rx = Some v \<and>
    version (do_op p w) = version w + (if p = Notify then 1 else 0)"
proof -
  have "seen w \<noteq> []" "rx \<noteq> next_id w"
    using assms(1,2) by (auto simp: watch_wf_def dest!: map_of_SomeD)
  with assms(1,3) show ?thesis
    by (cases p) (auto simp: watch_defs map_of_update_other map_of_drop_other split: option.splits)
qed

lemma watch_run_seen:
  assumes "map_of (seen w) rx = Some v" and "watch_wf w" and "\<forall>p \<in> set ops. p \<notin> {Await rx, DropRx rx}"
  shows "map_of (seen (watch_run ops w)) rx = Some v \<and>
    version (watch_run ops w) = version w + count_list ops Notify"
  using assms
proof (induction ops arbitrary: w)
  case (Cons p ops)
  have p: "p \<notin> {Await rx, DropRx rx}" and ops: "\<forall>q \<in> set ops. q \<notin> {Await rx, DropRx rx}"
    using Cons.prems(3) by simp_all
  note step = do_op_seen [OF Cons.prems(1,2) p]
  from Cons.IH [OF conjunct1 [OF step] do_op_wf [OF Cons.prems(2)] ops] step show ?case
    by (simp add: watch_run_def)
qed (simp add: watch_run_def)

text \<open>
  Once a listener exists, a \<open>notify\<close> at any time before its next \<open>changed\<close> makes that \<open>changed\<close> return
  at once, whatever other senders and listeners do in between; and without one it does not report a change.
\<close>

theorem notified_changed:
  assumes "watch_wf w" and "map_of (seen w) rx = Some (version w)"
    and "\<forall>p \<in> set ops. p \<notin> {Await rx, DropRx rx}"
  shows "fst (rx_changed rx (watch_run ops w)) = Changed \<longleftrightarrow> Notify \<in> set ops"
proof -
  note run = watch_run_seen [OF assms(2,1,3)]
  have "count_list ops Notify = 0 \<longleftrightarrow> Notify \<notin> set ops"
    by (induction ops) auto
  with run show ?thesis
    by (simp add: rx_changed_def watch_changed_def)
qed

lemma notified_changed_witness:
  "fst (rx_changed 0 (watch_run [Listen, Notify, Await 1, DropTx] (snd (new_listener block_tx_new)))) = Changed"
proof -
  have "watch_wf (snd (new_listener block_tx_new))"
    "map_of (seen (snd (new_listener block_tx_new))) 0 = Some (version (snd (new_listener block_tx_new)))"
    by (simp_all add: watch_wf_def new_listener_def watch_subscribe_def block_tx_new_def)
  from notified_changed [OF this, of "[Listen, Notify, Await 1, DropTx]"] show ?thesis by simp
qed

end
