(* ===== verification/DbPool.thy ===== *)
theory DbPool
  imports RusqlitePool BlockNotify QueryRange
begin

text \<open>
  \<open>node-db/src/pool.rs\<close>: the node's connection pool.  Opening it from a configuration, and
  the asynchronous short-hands that acquire a connection, run a database operation on a
  blocking task and return its result.
\<close>

section \<open>Configuration\<close>

datatype Source = Memory string | Path string

record Config =
  conn_limit :: nat
  source :: Source

text \<open>\<open>usize::saturating_mul\<close> at 64 bits; the number of processors is an argument.\<close>

definition usize_max :: nat where "usize_max = 2 ^ 64 - 1"

definition default_conn_limit :: "nat \<Rightarrow> nat" where
  "default_conn_limit num_cpus = min usize_max (num_cpus * 4)"

definition default_memory :: Source where
  "default_memory = Memory ''__default-id''"

definition Config_new :: "Source \<Rightarrow> nat \<Rightarrow> Config" where
  "Config_new src limit = \<lparr>conn_limit = limit, source = src\<rparr>"

definition Config_default :: "nat \<Rightarrow> Config" where
  "Config_default num_cpus = \<lparr>conn_limit = default_conn_limit num_cpus, source = default_memory\<rparr>"

section \<open>Opening connections\<close>

text \<open>What SQLite answers: opening a file or a memory database (by the number of the call), and
  setting a pragma of a connection.  Creating the parent directory of the file is a best effort
  whose result the code ignores.\<close>

record open_env =
  open_path :: "string \<Rightarrow> nat \<Rightarrow> rusqlite_error + Connection"
  open_memdb :: "string \<Rightarrow> nat \<Rightarrow> rusqlite_error + Connection"
  pragma_update :: "Connection \<Rightarrow> string \<Rightarrow> rusqlite_error + unit"

definition new_mem_conn :: "open_env \<Rightarrow> string \<Rightarrow> nat \<Rightarrow> rusqlite_error + Connection" where
  "new_mem_conn env ident i = open_memdb env (''file:/'' @ ident) i"

definition new_conn :: "open_env \<Rightarrow> Source \<Rightarrow> nat \<Rightarrow> rusqlite_error + Connection" where
  "new_conn env src i =
     bind_result (case src of
         Memory ident \<Rightarrow> new_mem_conn env ident i
       | Path p \<Rightarrow>
           bind_result (open_path env p i) (\<lambda>conn.
           bind_result (pragma_update env conn ''trusted_schema'') (\<lambda>_.
           bind_result (pragma_update env conn ''synchronous'') (\<lambda>_. Ok conn))))
       (\<lambda>conn. bind_result (pragma_update env conn ''foreign_keys'') (\<lambda>_. Ok conn))"

definition new_conn_pool :: "open_env \<Rightarrow> Config \<Rightarrow> (rusqlite_error + AsyncConnectionPool) option" where
  "new_conn_pool env conf = async_new (conn_limit conf) (new_conn env (source conf))"

text \<open>\<open>ConnectionPool::new\<close>; \<open>None\<close> is a panic.\<close>

definition conn_pool_new :: "open_env \<Rightarrow> Config \<Rightarrow> (rusqlite_error + AsyncConnectionPool) option" where
  "conn_pool_new env conf =
     (case new_conn_pool env conf of
        None \<Rightarrow> None
      | Some (Inl e) \<Rightarrow> Some (Err e)
      | Some (Inr p) \<Rightarrow>
          (case source conf of
             Memory _ \<Rightarrow> Some (Ok p)
           | Path _ \<Rightarrow>
               (case try_acquire p of
                  Some (Inr (conn, p')) \<Rightarrow>
                    (case pragma_update env conn ''journal_mode'' of
                       Inl e \<Rightarrow> Some (Err e)
                     | Inr _ \<Rightarrow> map_option Ok (drop_handle conn p'))
                | _ \<Rightarrow> None)))"

text \<open>
  \<open>with_tables\<close>: the tables are created, if they do not exist, in a transaction on one of the
  connections, which is then returned.  A database without its tables is \<open>None\<close>.
\<close>

definition ensure_tables :: "db option \<Rightarrow> (rusqlite_error + unit) \<times> db option" where
  "ensure_tables d = (Ok (), Some (case d of None \<Rightarrow> create_tables | Some d' \<Rightarrow> d'))"

definition with_tables ::
  "open_env \<Rightarrow> rusqlite_error + unit \<Rightarrow> rusqlite_error + unit \<Rightarrow> Config \<Rightarrow> db option \<Rightarrow>
   ((rusqlite_error + AsyncConnectionPool) \<times> db option) option" where
  "with_tables env begun committed conf d =
     (case conn_pool_new env conf of
        None \<Rightarrow> None
      | Some (Inl e) \<Rightarrow> Some (Err e, d)
      | Some (Inr p) \<Rightarrow>
          (case try_acquire p of
             Some (Inr (conn, p')) \<Rightarrow>
               (case with_tx begun committed id ensure_tables d of
                  (Inl e, d') \<Rightarrow> Some (Err e, d')
                | (Inr _, d') \<Rightarrow> map_option (\<lambda>p''. (Ok p'', d')) (drop_handle conn p'))
           | _ \<Rightarrow> None))"

section \<open>Closing\<close>

definition conn_pool_close ::
  "(Connection \<Rightarrow> rusqlite_error option) \<Rightarrow> AsyncConnectionPool \<Rightarrow>
   ((Connection \<times> rusqlite_error) list + unit) \<times> AsyncConnectionPool" where
  "conn_pool_close closes p =
     (case async_close closes p of (res, p') \<Rightarrow>
        let errs = concat (map (\<lambda>r. case r of Inl e \<Rightarrow> [e] | Inr _ \<Rightarrow> []) res)
        in (if errs \<noteq> [] then Err errs else Ok (), p'))"

section \<open>Access\<close>

text \<open>
  How one access goes: whether a connection is acquired (or the pool is closed), whether the
  blocking task is joined (a task that is cancelled has not run), and whether a transaction
  begins and commits.
\<close>

datatype 'e AcquireThenError = Acquire | Join | Inner 'e

record access =
  acquired :: bool
  joined :: bool
  begun :: "rusqlite_error + unit"
  committed :: "rusqlite_error + unit"

definition acquire_then ::
  "access \<Rightarrow> ('s \<Rightarrow> ('e + 'a) \<times> 's) \<Rightarrow> 's \<Rightarrow> ('e AcquireThenError + 'a) \<times> 's" where
  "acquire_then A f d =
     (if \<not> acquired A then (Err Acquire, d)
      else if \<not> joined A then (Err Join, d)
      else case f d of (r, d') \<Rightarrow> (map_err Inner r, d'))"

definition reading :: "('s \<Rightarrow> 'e + 'a) \<Rightarrow> 's \<Rightarrow> ('e + 'a) \<times> 's" where
  "reading f d = (f d, d)"

type_synonym ('e, 'a) pool_op = "db \<Rightarrow> ('e AcquireThenError + 'a) \<times> db"

definition pool_create_tables ::
  "access \<Rightarrow> db option \<Rightarrow> (rusqlite_error AcquireThenError + unit) \<times> db option" where
  "pool_create_tables A = acquire_then A (with_tx (begun A) (committed A) id ensure_tables)"

definition pool_insert_block ::
  "node_ext \<Rightarrow> access \<Rightarrow> Block \<Rightarrow> (rusqlite_error, ContentAddress) pool_op" where
  "pool_insert_block E A b = acquire_then A (with_tx (begun A) (committed A) id (insert_block E b))"

definition pool_finalize_block :: "access \<Rightarrow> ContentAddress \<Rightarrow> (rusqlite_error, unit) pool_op" where
  "pool_finalize_block A block_ca = acquire_then A (finalize_block block_ca)"

definition pool_update_state ::
  "node_ext \<Rightarrow> access \<Rightarrow> ContentAddress \<Rightarrow> Key \<Rightarrow> Value \<Rightarrow> (rusqlite_error, unit) pool_op" where
  "pool_update_state E A contract_ca key v = acquire_then A (update_state E contract_ca key v)"

definition pool_delete_state ::
  "node_ext \<Rightarrow> access \<Rightarrow> ContentAddress \<Rightarrow> Key \<Rightarrow> (rusqlite_error, unit) pool_op" where
  "pool_delete_state E A contract_ca key = acquire_then A (delete_state E contract_ca key)"

definition pool_update_validation_progress ::
  "access \<Rightarrow> ContentAddress \<Rightarrow> (rusqlite_error, unit) pool_op" where
  "pool_update_validation_progress A block_ca = acquire_then A (update_validation_progress block_ca)"

definition pool_get_block ::
  "node_ext \<Rightarrow> access \<Rightarrow> ContentAddress \<Rightarrow> (QueryError, Block option) pool_op" where
  "pool_get_block E A block_address =
     acquire_then A (with_tx (begun A) (committed A) Rusqlite (reading (\<lambda>d. get_block E d block_address)))"

definition pool_get_solution_set ::
  "node_ext \<Rightarrow> access \<Rightarrow> ContentAddress \<Rightarrow> (QueryError, SolutionSet) pool_op" where
  "pool_get_solution_set E A ca =
     acquire_then A (with_tx (begun A) (committed A) Rusqlite (reading (\<lambda>d. get_solution_set E d ca)))"

definition pool_query_state ::
  "node_ext \<Rightarrow> access \<Rightarrow> ContentAddress \<Rightarrow> Key \<Rightarrow> (QueryError, Value option) pool_op" where
  "pool_query_state E A contract_ca key =
     acquire_then A (reading (\<lambda>d. query_state E d contract_ca key))"

definition latest_finalized_value ::
  "node_ext \<Rightarrow> access \<Rightarrow> ContentAddress \<Rightarrow> Key \<Rightarrow> db \<Rightarrow> QueryError + Value option" where
  "latest_finalized_value E A contract_ca key d =
     bind_result (map_err Rusqlite (begun A)) (\<lambda>_.
     bind_result (map_err Rusqlite (get_latest_finalized_block_address E d)) (\<lambda>a. case a of
       None \<Rightarrow> Ok None
     | Some addr \<Rightarrow>
         bind_result (map_err Rusqlite (get_block_header E d addr)) (\<lambda>h. case h of
           None \<Rightarrow> Ok None
         | Some h \<Rightarrow>
             bind_result (finalized_inclusive_block E d contract_ca key (number h)) (\<lambda>v.
             bind_result (map_err Rusqlite (committed A)) (\<lambda>_. Ok v)))))"

definition pool_query_latest_finalized_block ::
  "node_ext \<Rightarrow> access \<Rightarrow> ContentAddress \<Rightarrow> Key \<Rightarrow> (QueryError, Value option) pool_op" where
  "pool_query_latest_finalized_block E A contract_ca key =
     acquire_then A (reading (latest_finalized_value E A contract_ca key))"

definition pool_query_state_finalized_inclusive_block ::
  "node_ext \<Rightarrow> access \<Rightarrow> ContentAddress \<Rightarrow> Key \<Rightarrow> Word \<Rightarrow> (QueryError, Value option) pool_op" where
  "pool_query_state_finalized_inclusive_block E A contract_ca key n =
     acquire_then A (reading (\<lambda>d. finalized_inclusive_block E d contract_ca key n))"

definition pool_query_state_finalized_exclusive_block ::
  "node_ext \<Rightarrow> access \<Rightarrow> ContentAddress \<Rightarrow> Key \<Rightarrow> Word \<Rightarrow> (QueryError, Value option) pool_op" where
  "pool_query_state_finalized_exclusive_block E A contract_ca key n =
     acquire_then A (reading (\<lambda>d. finalized_exclusive_block E d contract_ca key n))"

definition pool_query_state_finalized_inclusive_solution_set ::
  "node_ext \<Rightarrow> access \<Rightarrow> ContentAddress \<Rightarrow> Key \<Rightarrow> Word \<Rightarrow> u64 \<Rightarrow> (QueryError, Value option) pool_op" where
  "pool_query_state_finalized_inclusive_solution_set E A contract_ca key n ix =
     acquire_then A (reading (\<lambda>d. finalized_inclusive_solution_set E d contract_ca key n ix))"

definition pool_query_state_finalized_exclusive_solution_set ::
  "node_ext \<Rightarrow> access \<Rightarrow> ContentAddress \<Rightarrow> Key \<Rightarrow> Word \<Rightarrow> u64 \<Rightarrow> (QueryError, Value option) pool_op" where
  "pool_query_state_finalized_exclusive_solution_set E A contract_ca key n ix =
     acquire_then A (reading (\<lambda>d. finalized_exclusive_solution_set E d contract_ca key n ix))"

definition pool_get_validation_progress ::
  "node_ext \<Rightarrow> access \<Rightarrow> (QueryError, ContentAddress option) pool_op" where
  "pool_get_validation_progress E A = acquire_then A (reading (get_validation_progress E))"

definition pool_get_next_block_addresses ::
  "node_ext \<Rightarrow> access \<Rightarrow> ContentAddress \<Rightarrow> (QueryError, ContentAddress list) pool_op" where
  "pool_get_next_block_addresses E A current_block =
     acquire_then A (reading (\<lambda>d. get_next_block_addresses E d current_block))"

definition pool_list_blocks ::
  "node_ext \<Rightarrow> access \<Rightarrow> Word \<Rightarrow> Word \<Rightarrow> (QueryError, Block list) pool_op" where
  "pool_list_blocks E A lo hi =
     acquire_then A (with_tx (begun A) (committed A) Rusqlite (reading (\<lambda>d. list_blocks E d lo hi)))"

definition pool_list_blocks_by_time ::
  "node_ext \<Rightarrow> access \<Rightarrow> Duration \<Rightarrow> Duration \<Rightarrow> i64 \<Rightarrow> i64 \<Rightarrow> (QueryError, Block list) pool_op" where
  "pool_list_blocks_by_time E A start_time end_time page_size page_number =
     acquire_then A (with_tx (begun A) (committed A) Rusqlite
       (reading (\<lambda>d. list_blocks_by_time E d start_time end_time page_size page_number)))"

definition undisturbed :: access where
  "undisturbed = \<lparr>acquired = True, joined = True, begun = Ok (), committed = Ok ()\<rparr>"

section \<open>Opened pools are ready\<close>

definition ready_pool :: "nat \<Rightarrow> AsyncConnectionPool \<Rightarrow> bool" where
  "ready_pool n p \<longleftrightarrow> async_ready p \<and> async_capacity p = n \<and> permits (semaphore p) = n \<and> \<not> is_closed p"

lemmas ready_pool_defs =
  ready_pool_def async_ready_def pool_ready_def async_capacity_def pool_capacity_def is_closed_def

lemma async_new_ready:
  assumes "0 < n"
  shows "\<exists>r. async_new n f = Some r \<and> (\<forall>p. r = Ok p \<longrightarrow> ready_pool n p)"
proof (cases "collect_results (map f [0..<n])")
  case (Inr cs)
  then have "length cs = n"
    using collected_opened [OF Inr] by simp
  with assms Inr show ?thesis
    by (simp add: async_new_result ready_pool_defs)
qed (use assms in \<open>simp add: async_new_result\<close>)

text \<open>Acquiring from a ready pool and dropping the handle gives a ready pool.\<close>

lemma ready_try_acquire:
  assumes "ready_pool n p" and "0 < n"
  shows "\<exists>c p' p''. try_acquire p = Some (Ok (c, p')) \<and> drop_handle c p' = Some p'' \<and> ready_pool n p''"
proof -
  obtain c cs where cs: "idle (queue (pool p)) = c # cs"
    using assms by (cases "idle (queue (pool p))") (auto simp: ready_pool_defs)
  with assms show ?thesis
    by (simp add: ready_pool_defs try_acquire_def pool_op_defs drop_handle_def)
qed

lemma conn_pool_new_ready:
  assumes "0 < conn_limit conf"
  shows "\<exists>r. conn_pool_new env conf = Some r \<and> (\<forall>p. r = Ok p \<longrightarrow> ready_pool (conn_limit conf) p)"
proof -
  obtain r where r: "new_conn_pool env conf = Some r" "\<And>p. r = Ok p \<Longrightarrow> ready_pool (conn_limit conf) p"
    using async_new_ready [OF assms] unfolding new_conn_pool_def by metis
  show ?thesis
  proof (cases r)
    case (Inr p)
    from r(2) [OF Inr] have p: "ready_pool (conn_limit conf) p" .
    obtain c p' p'' where "try_acquire p = Some (Ok (c, p'))" "drop_handle c p' = Some p''"
      "ready_pool (conn_limit conf) p''"
      using ready_try_acquire [OF p assms] by blast
    with r(1) Inr p show ?thesis
      by (cases "source conf"; cases "pragma_update env c ''journal_mode''")
        (simp_all add: conn_pool_new_def)
  qed (simp add: conn_pool_new_def r(1))
qed

section \<open>Properties\<close>

text \<open>
  Opening the pool with its tables never panics when the connection limit is positive.  If
  it succeeds, all connections are ready, their number is the limit, and the database has its
  tables with what they held before; if it fails, the database is as before.  With a limit
  of 0 it panics.
\<close>

theorem with_tables_opens:
  "case with_tables env bg cm conf d of
     None \<Rightarrow> conn_limit conf = 0
   | Some (Inl e, d') \<Rightarrow> 0 < conn_limit conf \<and> d' = d
   | Some (Inr p, d') \<Rightarrow> 0 < conn_limit conf \<and> ready_pool (conn_limit conf) p \<and>
       d' = Some (case d of None \<Rightarrow> create_tables | Some t \<Rightarrow> t)"
proof (cases "conn_limit conf = 0")
  case True
  then show ?thesis
    by (simp add: with_tables_def conn_pool_new_def new_conn_pool_def async_new_def pool_new_def)
next
  case False
  then have pos: "0 < conn_limit conf" by simp
  obtain r where r: "conn_pool_new env conf = Some r" "\<And>p. r = Ok p \<Longrightarrow> ready_pool (conn_limit conf) p"
    using conn_pool_new_ready [OF pos] by metis
  show ?thesis
  proof (cases r)
    case (Inr p)
    from r(2) [OF Inr] have p: "ready_pool (conn_limit conf) p" .
    obtain c p' p'' where "try_acquire p = Some (Ok (c, p'))" "drop_handle c p' = Some p''"
      "ready_pool (conn_limit conf) p''"
      using ready_try_acquire [OF p pos] by blast
    with r(1) Inr pos show ?thesis
      by (auto simp: with_tables_def with_tx_def ensure_tables_def split: sum.split)
  qed (simp add: with_tables_def r(1) pos)
qed

lemma acquire_then_Err:
  assumes "\<And>e. fst (f d) = Inl e \<Longrightarrow> snd (f d) = d" and "fst (acquire_then A f d) = Inl e"
  shows "snd (acquire_then A f d) = d"
  using assms by (cases "f d"; cases "fst (f d)") (auto simp: acquire_then_def split: if_splits)

lemma of_stmt_Err: "fst (of_stmt s d) = Inl e \<Longrightarrow> snd (of_stmt s d) = d"
  by (auto simp: of_stmt_def split: sum.splits)

text \<open>
  An asynchronous write that returns an error, because the pool is closed, the task is
  not joined or SQLite fails, has left the database as it was.
\<close>

theorem failed_write_keeps_db:
  "(fst (pool_insert_block E A b d) = Inl e1 \<longrightarrow> snd (pool_insert_block E A b d) = d) \<and>
   (fst (pool_finalize_block A a d) = Inl e2 \<longrightarrow> snd (pool_finalize_block A a d) = d) \<and>
   (fst (pool_update_state E A c k v d) = Inl e3 \<longrightarrow> snd (pool_update_state E A c k v d) = d) \<and>
   (fst (pool_delete_state E A c k d) = Inl e4 \<longrightarrow> snd (pool_delete_state E A c k d) = d) \<and>
   (fst (pool_update_validation_progress A a d) = Inl e5 \<longrightarrow>
      snd (pool_update_validation_progress A a d) = d)"
  unfolding pool_insert_block_def pool_finalize_block_def pool_update_state_def
    pool_delete_state_def pool_update_validation_progress_def
  by (intro conjI impI; erule acquire_then_Err [rotated])
    (simp_all add: with_tx_Err finalize_block_def update_state_def delete_state_def
      update_validation_progress_def of_stmt_Err)

lemma failed_write_keeps_db_witness:
  "snd (pool_insert_block sample_ext (undisturbed\<lparr>committed := Err (SqliteFailure DatabaseBusy)\<rparr>)
      (sample_block 1 [[(1, 2)]]) create_tables) = create_tables"
proof -
  have "fst (pool_insert_block sample_ext (undisturbed\<lparr>committed := Err (SqliteFailure DatabaseBusy)\<rparr>)
      (sample_block 1 [[(1, 2)]]) create_tables) = Inl (Inner (SqliteFailure DatabaseBusy))"
    by code_simp
  with failed_write_keeps_db show ?thesis by blast
qed

section \<open>The latest finalized block\<close>

text \<open>The largest finalized number, which bounds every position of the finalized history.\<close>

lemma latest_finalized_address:
  assumes "plan_ok E" and "db_wf d"
  shows "case run_GET_LATEST_FINALIZED_BLOCK_ADDRESS E d of
      None \<Rightarrow> t_finalized_block d = []
    | Some a \<Rightarrow> \<exists>b \<in> set (t_block d). blk_address b = a \<and>
        blk_id b \<in> fin_block_id ` set (t_finalized_block d) \<and>
        (\<forall>f \<in> set (t_finalized_block d). sint (fin_number f) \<le> sint (blk_number b))"
proof -
  let ?rows = "[b. b \<leftarrow> t_block d, f \<leftarrow> t_finalized_block d, blk_id b = fin_block_id f]"
  let ?first = "first_row (order_by E d GET_LATEST_FINALIZED_BLOCK_ADDRESS (\<lambda>b. - sint (blk_number b)) ?rows)"
  have wf: "finalized_wf d"
    using assms(2) by (simp add: db_wf_def)
  have row: "\<exists>b \<in> set ?rows. blk_number b = fin_number f" if f: "f \<in> set (t_finalized_block d)" for f
  proof -
    obtain b where "b \<in> set (t_block d)" "blk_id b = fin_block_id f" "blk_number b = fin_number f"
      using wf f unfolding finalized_wf_def by blast
    with f show ?thesis by (intro bexI [of _ b]) auto
  qed
  show ?thesis
  proof (cases ?first)
    case None
    then have "?rows = []"
      by (simp only: first_row_order_by_None [OF assms(1)])
    then have "t_finalized_block d = []"
      using row by (metis empty_iff empty_set list.set_intros(1) neq_Nil_conv)
    with None show ?thesis
      by (simp add: run_GET_LATEST_FINALIZED_BLOCK_ADDRESS_def)
  next
    case (Some b)
    note first = first_row_order_by [OF assms(1) Some]
    have "b \<in> set (t_block d)" "blk_id b \<in> fin_block_id ` set (t_finalized_block d)"
      using first(1) by auto
    moreover have "sint (fin_number f) \<le> sint (blk_number b)" if "f \<in> set (t_finalized_block d)" for f
      using row [OF that] first(2) by fastforce
    ultimately show ?thesis
      by (auto simp: run_GET_LATEST_FINALIZED_BLOCK_ADDRESS_def Some)
  qed
qed

lemma header_of_block:
  assumes "plan_ok E" and "block_table_wf d" and "b \<in> set (t_block d)"
  shows "\<exists>h. get_block_header E d (blk_address b) = Ok (Some h) \<and> number h = blk_number b"
proof -
  have "0 \<le> sint (blk_secs b)" "0 \<le> sint (blk_nanos b)" "sint (blk_nanos b) < 2 ^ 32"
    using assms(2,3) by (auto simp: block_table_wf_def)
  then show ?thesis
    by (simp add: get_block_header_row [OF assms] header_of_row_def get_u64_def get_u32_def)
qed

lemma history_position:
  assumes "w \<in> set (finalized_history E d c k)"
  shows "\<exists>f \<in> set (t_finalized_block d). fst (fst w) = sint (fin_number f)"
  using assms by (auto simp: finalized_history_def finalized_writes_def)

text \<open>The value of the latest finalized block is that of the whole history.\<close>

lemma latest_finalized_value_replay:
  assumes "plan_ok E" and "db_wf d" and "single_writes E d c k"
  shows "latest_finalized_value E undisturbed c k d = Ok (replay (finalized_history E d c k))"
proof -
  note latest = latest_finalized_address [OF assms(1,2)]
  show ?thesis
  proof (cases "run_GET_LATEST_FINALIZED_BLOCK_ADDRESS E d")
    case None
    with latest have "t_finalized_block d = []" by simp
    then have "finalized_history E d c k = []"
      using history_position [of _ E d c k] by (cases "finalized_history E d c k") auto
    with None show ?thesis
      by (simp add: latest_finalized_value_def undisturbed_def get_latest_finalized_block_address_def replay_def)
  next
    case (Some a)
    with latest obtain b where b: "b \<in> set (t_block d)" "blk_address b = a"
      "\<And>f. f \<in> set (t_finalized_block d) \<Longrightarrow> sint (fin_number f) \<le> sint (blk_number b)"
      by auto
    obtain h where h: "get_block_header E d a = Ok (Some h)" "number h = blk_number b"
      using header_of_block [OF assms(1) db_wf_D(1) [OF assms(2)] b(1)] b(2) by auto
    have "filter (\<lambda>w. fst (fst w) \<le> sint (blk_number b)) (finalized_history E d c k) =
        finalized_history E d c k"
      using history_position b(3) by (intro filter_True) fastforce
    with Some h show ?thesis
      by (simp add: latest_finalized_value_def undisturbed_def get_latest_finalized_block_address_def
          finalized_inclusive_block_replay [OF assms(1,3)])
  qed
qed

text \<open>
  The state of the latest finalized block is the state after all finalized blocks: the
  value of the last finalized write of the key, whichever block it is in, and \<open>None\<close> if there is
  no write or no finalized block.
\<close>

theorem latest_finalized_is_last_write:
  assumes "plan_ok E" and "db_wf d" and "single_writes E d c k"
  shows "pool_query_latest_finalized_block E undisturbed c k d =
    (Ok (replay (finalized_history E d c k)), d)"
  using latest_finalized_value_replay [OF assms]
  by (simp add: pool_query_latest_finalized_block_def acquire_then_def undisturbed_def reading_def)

lemma sample_db_wf: "db_wf sample_db"
  unfolding sample_db_def by (intro finalize_block_wf insert_block_wf create_tables_wf)

lemma latest_finalized_is_last_write_witness:
  "pool_query_latest_finalized_block sample_ext undisturbed sample_contract [1] sample_db =
     (Ok (Some [4]), sample_db)"
proof -
  have "single_writes sample_ext sample_db sample_contract [1]"
    and "replay (finalized_history sample_ext sample_db sample_contract [1]) = Some [4]"
    by code_simp+
  then show ?thesis
    using latest_finalized_is_last_write [OF sample_plan_ok sample_db_wf] by simp
qed

end
