(* ===== verification/RelayerStream.thy ===== *)
theory RelayerStream
  imports DbPool
begin

text \<open>
  The errors of the crate \<open>relayer\<close> (\<open>error.rs\<close>) and the stream of blocks it reads from another
  node (\<open>sync/streams.rs\<close>): the request and the decoder of server-sent events.  The JSON parser
  of \<open>serde_json\<close> and the answers of the HTTP client are arguments.
\<close>

section \<open>Errors\<close>

type_synonym str = "nat list"

datatype DataSyncError = Fork Word ContentAddress "ContentAddress option"

datatype RelayerError =
    UrlParse
  | Overflow
  | DataSyncFailed DataSyncError
  | HttpClientBuild
  | DbPoolRusqlite "rusqlite_error AcquireThenError"

datatype RelayerRecoverable =
    Stream
  | BadServerResponse nat
  | HttpClient
  | NonSequentialBlock Word Word
  | StreamError str
  | RelayerRusqlite rusqlite_error

datatype RelayerInternal = RelayerCritical RelayerError | RelayerRecoverable RelayerRecoverable

text \<open>The conversion of an \<open>io::Error\<close>, of which only the class matters.\<close>

definition internal_of_io :: RelayerInternal where
  "internal_of_io = RelayerRecoverable Stream"

section \<open>Strings\<close>

text \<open>
  \<open>std::str::from_utf8\<close>, with a string as the list of its code points: the number of
  continuation bytes of a leading byte, the range of the byte after it, and the value.
\<close>

definition utf8_tail :: "nat \<Rightarrow> nat" where
  "utf8_tail a =
     (if 0xC2 \<le> a \<and> a \<le> 0xDF then 1
      else if 0xE0 \<le> a \<and> a \<le> 0xEF then 2
      else if 0xF0 \<le> a \<and> a \<le> 0xF4 then 3 else 0)"

definition utf8_second :: "nat \<Rightarrow> nat \<Rightarrow> bool" where
  "utf8_second a b \<longleftrightarrow>
     (if a = 0xE0 then 0xA0 \<le> b else 0x80 \<le> b) \<and>
     (if a = 0xED then b \<le> 0x9F else b \<le> 0xBF) \<and>
     (a = 0xF0 \<longrightarrow> 0x90 \<le> b) \<and> (a = 0xF4 \<longrightarrow> b \<le> 0x8F)"

definition utf8_value :: "nat \<Rightarrow> nat list \<Rightarrow> nat" where
  "utf8_value a bs = fold (\<lambda>b v. 64 * v + b mod 64) bs (a mod 2 ^ (6 - length bs))"

fun utf8_chars :: "nat list \<Rightarrow> str option" where
  "utf8_chars [] = Some []"
| "utf8_chars (a # bs) =
     (if a < 0x80 then map_option ((#) a) (utf8_chars bs)
      else let n = utf8_tail a; t = take n bs in
        if n = 0 \<or> length t < n \<or> \<not> utf8_second a (hd t) \<or> (\<exists>b \<in> set t. b < 0x80 \<or> 0xBF < b)
        then None
        else map_option ((#) (utf8_value a t)) (utf8_chars (drop n bs)))"

definition from_utf8 :: "u8 list \<Rightarrow> str option" where
  "from_utf8 bs = utf8_chars (map unat bs)"

text \<open>\<open>char::is_whitespace\<close>, \<open>str::trim\<close> and \<open>str::trim_start_matches\<close>.\<close>

definition is_whitespace :: "nat \<Rightarrow> bool" where
  "is_whitespace c \<longleftrightarrow>
     9 \<le> c \<and> c \<le> 13 \<or> c \<in> {0x20, 0x85, 0xA0, 0x1680} \<or> 0x2000 \<le> c \<and> c \<le> 0x200A \<or>
     c \<in> {0x2028, 0x2029, 0x202F, 0x205F, 0x3000}"

definition trim :: "str \<Rightarrow> str" where
  "trim s = rev (dropWhile is_whitespace (rev (dropWhile is_whitespace s)))"

definition data_prefix :: str where
  "data_prefix = [100, 97, 116, 97, 58, 32]"

function trim_start_data :: "str \<Rightarrow> str" where
  "trim_start_data s = (if take 6 s = data_prefix then trim_start_data (drop 6 s) else s)"
  by pat_completeness auto
termination
proof (relation "measure length")
  fix s :: str
  assume "take 6 s = data_prefix"
  then have "length (take 6 s) = 6"
    by (simp add: data_prefix_def)
  then show "(drop 6 s, s) \<in> measure length"
    by simp
qed simp

declare trim_start_data.simps [simp del]

section \<open>The decoder of server-sent events\<close>

text \<open>The position of the first two consecutive newlines.\<close>

fun newline_pair :: "u8 list \<Rightarrow> nat option" where
  "newline_pair (a # b # bs) =
     (if a = 10 \<and> b = 10 then Some 0 else map_option Suc (newline_pair (b # bs)))"
| "newline_pair _ = None"

definition sse_decode ::
  "(str \<Rightarrow> 'a option) \<Rightarrow> u8 list \<Rightarrow> (RelayerInternal + 'a option) \<times> u8 list" where
  "sse_decode from_str buf =
     (case newline_pair buf of
        None \<Rightarrow> (Ok None, buf)
      | Some e \<Rightarrow>
          (case from_utf8 (take e buf) of
             None \<Rightarrow> (Ok None, drop (e + 2) buf)
           | Some cs \<Rightarrow>
               let s = trim (trim_start_data cs);
                   r = (case from_str s of
                          Some x \<Rightarrow> Ok (Some x)
                        | None \<Rightarrow>
                            if s = [58] then Ok None else Err (RelayerRecoverable (StreamError s)))
               in (r, drop (e + 2) buf)))"

lemma newline_pair_less: "newline_pair buf = Some e \<Longrightarrow> e + 2 \<le> length buf"
  by (induction buf arbitrary: e rule: newline_pair.induct) (auto split: if_splits)

lemma sse_decode_shorter:
  "sse_decode P buf = (r, buf') \<Longrightarrow> r \<noteq> Ok None \<Longrightarrow> length buf' < length buf"
  using newline_pair_less [of buf]
  by (auto simp: sse_decode_def Let_def split: option.splits if_splits)

text \<open>
  What \<open>tokio_util\<close> documents of \<open>FramedRead\<close>: it calls the decoder until it returns \<open>None\<close> and then reads on; it
  ends after an error, and at the end of the input it is an error if bytes remain.  A chunk is what
  one read adds to its buffer; \<open>StreamReader\<close> reads past an empty one.
\<close>

function sse_drain ::
  "(str \<Rightarrow> 'a option) \<Rightarrow> u8 list \<Rightarrow> 'a list \<times> RelayerInternal option \<times> u8 list" where
  "sse_drain P buf =
     (case sse_decode P buf of
        (Inl e, buf') \<Rightarrow> ([], Some e, buf')
      | (Inr None, buf') \<Rightarrow> ([], None, buf')
      | (Inr (Some x), buf') \<Rightarrow> (case sse_drain P buf' of (xs, r) \<Rightarrow> (x # xs, r)))"
  by pat_completeness auto
termination
proof (relation "measure (length \<circ> snd)", goal_cases)
  case (2 P buf r buf' w x)
  then show ?case
    using sse_decode_shorter [of P buf r buf'] by simp
qed simp

declare sse_drain.simps [simp del]

definition framed_end ::
  "'a list \<times> RelayerInternal option \<times> u8 list \<Rightarrow> (RelayerInternal + 'a) list" where
  "framed_end r =
     (case r of (xs, e, buf) \<Rightarrow> map Ok xs @
        (case e of Some e \<Rightarrow> [Err e] | None \<Rightarrow> if buf = [] then [] else [Err internal_of_io]))"

fun framed_read ::
  "(str \<Rightarrow> 'a option) \<Rightarrow> (unit + u8 list) list \<Rightarrow> u8 list \<Rightarrow> (RelayerInternal + 'a) list" where
  "framed_read P [] buf = framed_end (sse_drain P buf)"
| "framed_read P (Inl e # body) buf = [Err internal_of_io]"
| "framed_read P (Inr c # body) buf =
     (if c = [] then framed_read P body buf
      else case sse_drain P (buf @ c) of
        (xs, Some e, buf') \<Rightarrow> map Ok xs @ [Err e]
      | (xs, None, buf') \<Rightarrow> map Ok xs @ framed_read P body buf')"

section \<open>The request\<close>

record BlockProgress =
  last_block_number :: Word
  last_block_address :: ContentAddress

text \<open>
  The HTTP client: whether the path joins to the URL, and the response to a request for the
  blocks from a number on, its status and the chunks of its body.
\<close>

record http =
  url_joins :: bool
  send :: "Word \<Rightarrow> unit + nat \<times> (unit + u8 list) list"

definition start_block_of :: "BlockProgress option \<Rightarrow> Word" where
  "start_block_of progress = (case progress of None \<Rightarrow> 0 | Some p \<Rightarrow> last_block_number p)"

definition is_success :: "nat \<Rightarrow> bool" where
  "is_success status \<longleftrightarrow> 200 \<le> status \<and> status < 300"

definition stream_blocks ::
  "http \<Rightarrow> (str \<Rightarrow> 'a option) \<Rightarrow> BlockProgress option \<Rightarrow>
   RelayerInternal + (RelayerInternal + 'a) list" where
  "stream_blocks H from_str progress =
     (if \<not> url_joins H then Err (RelayerCritical UrlParse)
      else case send H (start_block_of progress) of
        Inl _ \<Rightarrow> Err (RelayerRecoverable HttpClient)
      | Inr (status, body) \<Rightarrow>
          if \<not> is_success status then Err (RelayerRecoverable (BadServerResponse status))
          else Ok (framed_read from_str body []))"

section \<open>What the server sends is what the relayer reads\<close>

text \<open>
  The documented behaviour of \<open>serde_json\<close> the decoder relies on, for the values of a set: the compact text of a value
  is one line of valid UTF-8, starts and ends with a character that is not white space, does not
  start with the prefix of an event, and parses to the value.
\<close>

definition json_ok :: "'a set \<Rightarrow> (str \<Rightarrow> 'a option) \<Rightarrow> ('a \<Rightarrow> u8 list) \<Rightarrow> bool" where
  "json_ok A from_str to_vec \<longleftrightarrow>
     (\<forall>x \<in> A. 10 \<notin> set (to_vec x) \<and>
       (\<exists>s. from_utf8 (to_vec x) = Some s \<and> s \<noteq> [] \<and> \<not> is_whitespace (hd s) \<and>
         \<not> is_whitespace (last s) \<and> take 6 s \<noteq> data_prefix \<and> from_str s = Some x))"

definition data_event :: "('a \<Rightarrow> u8 list) \<Rightarrow> 'a \<Rightarrow> u8 list" where
  "data_event to_vec x = [100, 97, 116, 97, 58, 32] @ to_vec x @ [10, 10]"

definition keep_alive :: "u8 list" where
  "keep_alive = [58, 10, 10]"

lemma trim_id: "s \<noteq> [] \<Longrightarrow> \<not> is_whitespace (hd s) \<Longrightarrow> \<not> is_whitespace (last s) \<Longrightarrow> trim s = s"
proof -
  assume s: "s \<noteq> []" "\<not> is_whitespace (hd s)" "\<not> is_whitespace (last s)"
  then have "dropWhile is_whitespace s = s" "dropWhile is_whitespace (rev s) = rev s"
    by (simp_all add: dropWhile_eq_self_iff hd_rev)
  then show "trim s = s"
    by (simp add: trim_def)
qed

lemma newline_pair_line:
  "10 \<notin> set l \<Longrightarrow> newline_pair (l @ 10 # 10 # r) = Some (length l)"
proof (induction l)
  case (Cons a l)
  then show ?case by (cases l) auto
qed simp

lemma newline_pair_None:
  "10 \<notin> set (butlast l) \<Longrightarrow> newline_pair l = None"
  by (induction l rule: newline_pair.induct) auto

lemma from_utf8_data:
  "from_utf8 bs = Some s \<Longrightarrow> from_utf8 ([100, 97, 116, 97, 58, 32] @ bs) = Some (data_prefix @ s)"
  by (simp add: from_utf8_def data_prefix_def)

lemma trim_start_data_prefix:
  assumes "take 6 s \<noteq> data_prefix"
  shows "trim_start_data (data_prefix @ s) = s"
proof -
  have "take 6 (data_prefix @ s) = data_prefix" "drop 6 (data_prefix @ s) = s"
    by (simp_all add: data_prefix_def)
  with assms show ?thesis
    using trim_start_data.simps [of "data_prefix @ s"] trim_start_data.simps [of s] by simp
qed

lemma decode_event:
  assumes "json_ok A P to_vec" and "x \<in> A"
  shows "sse_decode P (data_event to_vec x @ r) = (Ok (Some x), r)"
proof -
  obtain s where s: "10 \<notin> set (to_vec x)" "from_utf8 (to_vec x) = Some s" "s \<noteq> []"
    "\<not> is_whitespace (hd s)" "\<not> is_whitespace (last s)" "take 6 s \<noteq> data_prefix" "P s = Some x"
    using assms unfolding json_ok_def by blast
  let ?l = "[100, 97, 116, 97, 58, 32] @ to_vec x"
  have buf: "data_event to_vec x @ r = ?l @ 10 # 10 # r"
    by (simp add: data_event_def)
  have "10 \<notin> set ?l"
    using s(1) by simp
  then have "newline_pair (?l @ 10 # 10 # r) = Some (length ?l)"
    by (rule newline_pair_line)
  moreover have "from_utf8 ?l = Some (data_prefix @ s)"
    using s(2) by (rule from_utf8_data)
  moreover have "take (length ?l) (?l @ 10 # 10 # r) = ?l" "drop (length ?l + 2) (?l @ 10 # 10 # r) = r"
    by simp_all
  ultimately show ?thesis
    unfolding buf sse_decode_def
    by (simp add: trim_start_data_prefix [OF s(6)] trim_id [OF s(3-5)] s(7) Let_def
        del: append.simps take_append drop_append)
qed

lemma decode_partial:
  assumes "json_ok A P to_vec" and "x \<in> A" and "l @ r = data_event to_vec x" and "r \<noteq> []"
  shows "sse_decode P l = (Ok None, l)"
proof -
  let ?e = "[100, 97, 116, 97, 58, 32] @ to_vec x"
  have "10 \<notin> set ?e"
    using assms(1,2) by (simp add: json_ok_def)
  moreover have "l = take (length l) (?e @ [10, 10])" "length l < length (?e @ [10, 10])"
    using assms(3,4) by (auto simp: data_event_def append_eq_conv_conj dest: arg_cong [where f = length])
  ultimately have "butlast l = take (length l - 1) ?e" "10 \<notin> set ?e"
    using butlast_take [of "length l" "?e @ [10, 10]"] by (auto simp del: append.simps)
  then have "10 \<notin> set (butlast l)"
    by (metis in_set_takeD)
  then show ?thesis
    by (simp add: sse_decode_def newline_pair_None)
qed

text \<open>Draining a buffer that holds the beginning of the events yields the complete ones.\<close>

lemma drain_events:
  assumes "json_ok A P to_vec" and "set xs \<subseteq> A" and "buf @ rem = concat (map (data_event to_vec) xs)"
  shows "\<exists>ys zs r. xs = ys @ zs \<and> sse_drain P buf = (ys, None, r) \<and>
    r @ rem = concat (map (data_event to_vec) zs) \<and> (rem = [] \<longrightarrow> zs = [])"
  using assms(2,3)
proof (induction xs arbitrary: buf)
  case Nil
  then have "sse_drain P buf = ([], None, [])"
    by (simp add: sse_drain.simps [of P "[]"] sse_decode_def)
  with Nil show ?case by simp
next
  case (Cons x xs)
  let ?f = "data_event to_vec x"
  from Cons.prems have x: "x \<in> A" "set xs \<subseteq> A" by simp_all
  from Cons.prems have eq: "buf @ rem = ?f @ concat (map (data_event to_vec) xs)" by simp
  show ?case
  proof (cases "length ?f \<le> length buf")
    case True
    with eq obtain b where b: "buf = ?f @ b" "b @ rem = concat (map (data_event to_vec) xs)"
      by (metis append_eq_append_conv_if append_eq_conv_conj append_take_drop_id)
    from Cons.IH [OF x(2) b(2)] obtain ys zs r where ih: "xs = ys @ zs" "sse_drain P b = (ys, None, r)"
      "r @ rem = concat (map (data_event to_vec) zs)" "rem = [] \<longrightarrow> zs = []"
      by blast
    have "sse_drain P buf = (x # ys, None, r)"
      unfolding b(1) by (subst sse_drain.simps) (simp add: decode_event [OF assms(1) x(1)] ih(2))
    with ih show ?thesis
      by (intro exI [of _ "x # ys"] exI [of _ zs] exI [of _ r]) simp
  next
    case False
    with eq obtain r where r: "buf @ r = ?f" "r \<noteq> []"
      by (metis append_eq_append_conv_if append_eq_conv_conj append_take_drop_id append_Nil2
          linorder_le_less_linear order_less_imp_le order_refl)
    have "sse_drain P buf = ([], None, buf)"
      by (subst sse_drain.simps) (simp add: decode_partial [OF assms(1) x(1) r])
    moreover have "rem \<noteq> []"
      using eq False by (metis append.right_neutral length_append le_add1)
    ultimately show ?thesis
      using Cons.prems by (intro exI [of _ "[]"] exI [of _ "x # xs"] exI [of _ buf]) simp
  qed
qed

lemma framed_read_events:
  assumes "json_ok A from_str to_vec" and "set xs \<subseteq> A" and "buf @ concat body = concat (map (data_event to_vec) xs)"
  shows "framed_read from_str (map Ok body) buf = map Ok xs"
  using assms(2,3)
proof (induction body arbitrary: buf xs)
  case Nil
  from drain_events [OF assms(1), of xs buf "[]"] Nil show ?case
    by (auto simp: framed_end_def)
next
  case (Cons c body)
  from Cons.prems have "(buf @ c) @ concat body = concat (map (data_event to_vec) xs)" by simp
  from drain_events [OF assms(1) Cons.prems(1) this] obtain ys zs r where
    d: "xs = ys @ zs" "sse_drain from_str (buf @ c) = (ys, None, r)"
    "r @ concat body = concat (map (data_event to_vec) zs)"
    by blast
  have "framed_read from_str (map Ok body) buf = map Ok xs" if "c = []"
    using Cons.IH [OF Cons.prems(1)] Cons.prems(2) that by simp
  with Cons.IH [OF _ d(3)] Cons.prems(1) d(1,2) show ?case by simp
qed

text \<open>
  C33. However the body is cut into chunks, what the relayer reads from a body of events is
  exactly the list of values the events were made of, with no error and nothing left over.
\<close>

theorem events_read_back:
  assumes "json_ok (set xs) from_str to_vec"
    and "concat body = concat (map (data_event to_vec) xs)"
  shows "framed_read from_str (map Ok body) [] = map Ok xs"
  using assms by (intro framed_read_events [OF assms(1)]) simp_all

text \<open>The texts of the JSON values \<open>true\<close> and \<open>false\<close>.\<close>

definition bool_to_vec :: "bool \<Rightarrow> u8 list" where
  "bool_to_vec b = (if b then [116, 114, 117, 101] else [102, 97, 108, 115, 101])"

definition bool_from_str :: "str \<Rightarrow> bool option" where
  "bool_from_str s =
     (if s = [116, 114, 117, 101] then Some True
      else if s = [102, 97, 108, 115, 101] then Some False else None)"

lemma bool_json_ok: "json_ok A bool_from_str bool_to_vec"
  by (simp add: json_ok_def bool_to_vec_def bool_from_str_def from_utf8_def is_whitespace_def data_prefix_def)

lemma events_read_back_witness:
  "framed_read bool_from_str
     [Ok [100, 97, 116, 97, 58, 32, 116, 114], Ok [117, 101, 10],
      Ok [10, 100, 97, 116, 97, 58, 32, 102, 97, 108, 115, 101, 10, 10]] [] = [Ok True, Ok False]"
  using events_read_back [OF bool_json_ok, of "[[100, 97, 116, 97, 58, 32, 116, 114], [117, 101, 10],
      [10, 100, 97, 116, 97, 58, 32, 102, 97, 108, 115, 101, 10, 10]]" "[True, False]"]
  by (simp add: data_event_def bool_to_vec_def)

text \<open>A comment that keeps the connection alive withholds the complete events behind it.\<close>

lemma keep_alive_withholds:
  assumes "from_str [58] = None"
  shows "sse_drain from_str (keep_alive @ buf) = ([], None, buf)"
proof -
  have "take 6 [58] \<noteq> data_prefix"
    by (simp add: data_prefix_def)
  then have "trim_start_data [58] = [58]"
    using trim_start_data.simps [of "[58]"] by simp
  moreover have "trim [58] = [58]"
    by (simp add: trim_def is_whitespace_def)
  moreover have "from_utf8 [58] = Some [58]"
    by (simp add: from_utf8_def)
  moreover have "newline_pair (keep_alive @ buf) = Some 1" "take 1 (keep_alive @ buf) = [58]"
    "drop 3 (keep_alive @ buf) = buf"
    by (simp_all add: keep_alive_def)
  ultimately have "sse_decode from_str (keep_alive @ buf) = (Ok None, buf)"
    by (simp add: sse_decode_def assms del: take_append drop_append) (simp add: keep_alive_def)
  then show ?thesis
    by (subst sse_drain.simps) simp
qed

end
