(* ===== verification/NodeError.thy ===== *)
theory NodeError
  imports Validate RelayerStream
begin

text \<open>
  The errors of the crate \<open>node\<close> (\<open>error.rs\<close>): which of them are recoverable, and the
  conversions the \<open>?\<close> operator makes between them.
\<close>

section \<open>Errors\<close>

datatype RecoverableError =
    RE_ReadState "QueryError AcquireThenError"
  | RE_Query QueryError
  | RE_QueryPredicate PredicateAddress QueryPredicateError
  | RE_Join
  | RE_LastProgress "QueryError AcquireThenError"
  | RE_Rusqlite rusqlite_error
  | RE_PredicateNotFound PredicateAddress

datatype CriticalError =
    CE_Fork
  | CE_DatabaseFailed rusqlite_error
  | CE_ReadState "QueryError AcquireThenError"
  | CE_GetNextBlock "QueryError AcquireThenError"
  | CE_DbPoolClosed
  | CE_Relayer RelayerError
  | CE_LastProgressNone

datatype InternalError = Recoverable RecoverableError | Critical CriticalError

datatype BigBangError =
    BB_ListBlocks "QueryError AcquireThenError"
  | BB_InsertBlock "rusqlite_error AcquireThenError"
  | BB_UnexpectedBlock ContentAddress ContentAddress

datatype NodeHandleJoinError = JE_Relayer RelayerError | JE_Validation CriticalError

section \<open>Conversions\<close>

fun internal_of_predicates_error :: "SolutionSetPredicatesError \<Rightarrow> InternalError" where
  "internal_of_predicates_error SP_Acquire = Critical CE_DbPoolClosed"
| "internal_of_predicates_error (SP_MissingPredicate addr) = Recoverable (RE_PredicateNotFound addr)"
| "internal_of_predicates_error (SP_QueryPredicate addr err) = Recoverable (RE_QueryPredicate addr err)"

fun internal_of_validation_error :: "ValidationError \<Rightarrow> InternalError" where
  "internal_of_validation_error (VE_SolutionSetPredicates err) = internal_of_predicates_error err"
| "internal_of_validation_error (VE_Query err) = Recoverable (RE_Query err)"
| "internal_of_validation_error VE_DbPoolClosed = Critical CE_DbPoolClosed"
| "internal_of_validation_error (VE_Rusqlite err) = Recoverable (RE_Rusqlite err)"
| "internal_of_validation_error VE_Join = Recoverable RE_Join"

fun state_read_of_acquire_error :: "StateReadError AcquireThenError \<Rightarrow> StateReadError" where
  "state_read_of_acquire_error Acquire = SR_DbPoolClosed"
| "state_read_of_acquire_error (Inner err) = err"
| "state_read_of_acquire_error Join = SR_Join"

fun internal_of_acquire_error :: "ValidationError AcquireThenError \<Rightarrow> InternalError" where
  "internal_of_acquire_error Acquire = Critical CE_DbPoolClosed"
| "internal_of_acquire_error (Inner err) = internal_of_validation_error err"
| "internal_of_acquire_error Join = Recoverable RE_Join"

section \<open>Which errors end a stream\<close>

definition is_recoverable_db_err :: "rusqlite_error \<Rightarrow> bool" where
  "is_recoverable_db_err e \<longleftrightarrow> e \<in> {SqliteFailure DatabaseLocked, SqliteFailure DatabaseBusy}"

fun map_recoverable :: "InternalError \<Rightarrow> InternalError" where
  "map_recoverable (Critical (CE_DatabaseFailed e)) =
     (if is_recoverable_db_err e then Recoverable (RE_Rusqlite e) else Critical (CE_DatabaseFailed e))"
| "map_recoverable (Critical (CE_ReadState e)) =
     (case e of
        Acquire \<Rightarrow> Critical CE_DbPoolClosed
      | Join \<Rightarrow> Recoverable (RE_ReadState e)
      | Inner (Rusqlite rus) \<Rightarrow>
          if is_recoverable_db_err rus then Recoverable (RE_Rusqlite rus) else Critical (CE_DatabaseFailed rus)
      | Inner UnsupportedRange \<Rightarrow> Recoverable (RE_Query UnsupportedRange))"
| "map_recoverable e = e"

definition handle_internal_error :: "InternalError \<Rightarrow> CriticalError + unit" where
  "handle_internal_error e =
     (case map_recoverable e of
        Critical e \<Rightarrow> Err e
      | Recoverable _ \<Rightarrow> Ok ())"

text \<open>Every error of a validation restarts the stream, except that the pool is closed.\<close>

lemma handle_validation_error:
  "handle_internal_error (internal_of_acquire_error e) =
     (case e of
        Acquire \<Rightarrow> Err CE_DbPoolClosed
      | Inner VE_DbPoolClosed \<Rightarrow> Err CE_DbPoolClosed
      | Inner (VE_SolutionSetPredicates SP_Acquire) \<Rightarrow> Err CE_DbPoolClosed
      | _ \<Rightarrow> Ok ())"
  by (auto simp: handle_internal_error_def split: AcquireThenError.split ValidationError.split
      SolutionSetPredicatesError.split)

end
