(* ===== verification/Chain.thy ===== *)
theory Chain
  imports DbPool FinalizedState
begin

text \<open>
  The chain of finalized blocks as a set of numbered addresses, how the transaction that
  inserts and finalizes a block extends it, and what other writes leave of it.  The
  relayer, the start of the node and the validation are stated over it.
\<close>

section \<open>The finalized chain\<close>

definition finalized_chain :: "db \<Rightarrow> (Word \<times> ContentAddress) set" where
  "finalized_chain d =
     {(blk_number b, blk_address b) | b. b \<in> set (t_block d) \<and> blk_id b \<in> fin_block_id ` set (t_finalized_block d)}"

lemma finalized_chain_code [code]:
  "finalized_chain d = set (map (\<lambda>b. (blk_number b, blk_address b))
     (filter (\<lambda>b. blk_id b \<in> fin_block_id ` set (t_finalized_block d)) (t_block d)))"
  by (auto simp: finalized_chain_def)

lemma block_by_id:
  assumes "block_table_wf d" and "b \<in> set (t_block d)" and "b' \<in> set (t_block d)" and "blk_id b = blk_id b'"
  shows "b = b'"
  by (rule distinct_map_inject [of blk_id "t_block d"]) (use assms in \<open>simp_all add: block_table_wf_def\<close>)

lemma finalized_by_number:
  assumes "finalized_wf d" and "f \<in> set (t_finalized_block d)" and "g \<in> set (t_finalized_block d)"
    and "fin_number f = fin_number g"
  shows "f = g"
  by (rule distinct_map_inject [of fin_number "t_finalized_block d"]) (use assms in \<open>simp_all add: finalized_wf_def\<close>)

lemma finalized_number:
  assumes "db_wf d" and "f \<in> set (t_finalized_block d)" and "b \<in> set (t_block d)" and "blk_id b = fin_block_id f"
  shows "fin_number f = blk_number b"
proof -
  obtain b' where b': "b' \<in> set (t_block d)" "blk_id b' = fin_block_id f" "blk_number b' = fin_number f"
    using db_wf_D(4) [OF assms(1)] assms(2) unfolding finalized_wf_def by blast
  have "b' = b"
    using b'(2) assms(4) by (intro block_by_id [OF db_wf_D(1) [OF assms(1)] b'(1) assms(3)]) simp
  with b'(3) show ?thesis by simp
qed

lemma finalized_chain_iff:
  "(n, a) \<in> finalized_chain d \<longleftrightarrow>
     (\<exists>b \<in> set (t_block d). \<exists>f \<in> set (t_finalized_block d).
        blk_id b = fin_block_id f \<and> blk_number b = n \<and> blk_address b = a)"
  by (auto simp: finalized_chain_def)

lemma finalized_chain_numbers:
  assumes "db_wf d"
  shows "fst ` finalized_chain d = fin_number ` set (t_finalized_block d)"
proof (intro equalityI subsetI)
  fix n
  assume "n \<in> fst ` finalized_chain d"
  then obtain a where "(n, a) \<in> finalized_chain d" by auto
  then obtain b f where b: "b \<in> set (t_block d)" "f \<in> set (t_finalized_block d)"
    "blk_id b = fin_block_id f" "blk_number b = n"
    unfolding finalized_chain_iff by blast
  with finalized_number [OF assms b(2,1,3)] show "n \<in> fin_number ` set (t_finalized_block d)"
    by auto
next
  fix n
  assume "n \<in> fin_number ` set (t_finalized_block d)"
  then obtain f where f: "f \<in> set (t_finalized_block d)" "n = fin_number f" by blast
  then obtain b where b: "b \<in> set (t_block d)" "blk_id b = fin_block_id f" "blk_number b = fin_number f"
    using db_wf_D(4) [OF assms] unfolding finalized_wf_def by blast
  then have "(n, blk_address b) \<in> finalized_chain d"
    using f unfolding finalized_chain_iff by metis
  then show "n \<in> fst ` finalized_chain d"
    by force
qed

text \<open>At most one block is finalized at a number.\<close>

lemma finalized_chain_unique:
  assumes "db_wf d" and "(n, a) \<in> finalized_chain d" and "(n, a') \<in> finalized_chain d"
  shows "a = a'"
proof -
  note wf = db_wf_D(1,4) [OF assms(1)]
  obtain b f where b: "b \<in> set (t_block d)" "f \<in> set (t_finalized_block d)"
    "blk_id b = fin_block_id f" "blk_number b = n" "blk_address b = a"
    using assms(2) unfolding finalized_chain_iff by blast
  obtain b' f' where b': "b' \<in> set (t_block d)" "f' \<in> set (t_finalized_block d)"
    "blk_id b' = fin_block_id f'" "blk_number b' = n" "blk_address b' = a'"
    using assms(3) unfolding finalized_chain_iff by blast
  have "fin_number f = fin_number f'"
    using finalized_number [OF assms(1) b(2,1,3)] finalized_number [OF assms(1) b'(2,1,3)] b(4) b'(4)
    by simp
  then have "f = f'"
    by (rule finalized_by_number [OF wf(2) b(2) b'(2)])
  then have "b = b'"
    using b(3) b'(3) by (intro block_by_id [OF wf(1) b(1) b'(1)]) simp
  with b(5) b'(5) show ?thesis by simp
qed

lemma finalized_chain_frame:
  "t_block d' = t_block d \<Longrightarrow> t_finalized_block d' = t_finalized_block d \<Longrightarrow>
   finalized_chain d' = finalized_chain d"
  by (simp add: finalized_chain_def)

section \<open>Inserting and finalizing a block\<close>

text \<open>The transaction of the relayer, and of the node when it writes the big bang block.\<close>

definition insert_finalize :: "node_ext \<Rightarrow> Block \<Rightarrow> (rusqlite_error, unit) tx" where
  "insert_finalize E b d =
     (case insert_block E b d of
        (Inl e, d') \<Rightarrow> (Err e, d')
      | (Inr _, d') \<Rightarrow> finalize_block (content_addr_block E b) d')"

lemma insert_rows_frame [simp]:
  "t_block (insert_mutations E ca i ms d) = t_block d"
  "t_block (insert_pred_data E ca i vs d) = t_block d"
  "t_finalized_block (insert_mutations E ca i ms d) = t_finalized_block d"
  "t_finalized_block (insert_pred_data E ca i vs d) = t_finalized_block d"
  unfolding insert_mutations_def insert_pred_data_def
  by (rule fold_invariant, auto simp: INSERT_MUTATION_def INSERT_PRED_DATA_def split: option.splits)+

lemma insert_solution_set_frame [simp]:
  "t_block (insert_solution_set E a ix s ca d) = t_block d"
  "t_finalized_block (insert_solution_set E a ix s ca d) = t_finalized_block d"
  unfolding insert_solution_set_def
  by (rule fold_invariant, auto simp: insert_solution_def INSERT_SOLUTION_def INSERT_SOLUTION_SET_def
      INSERT_BLOCK_SOLUTION_SET_def split: option.splits)+

text \<open>The stored addresses with their numbers.\<close>

definition stored_numbers :: "db \<Rightarrow> (ContentAddress \<times> Word) set" where
  "stored_numbers d = (\<lambda>r. (blk_address r, blk_number r)) ` set (t_block d)"

lemma insert_block_tables:
  assumes "insert_block E b d = (Ok a, d')"
  obtains r where "a = content_addr_block E b" "blk_address r = a" "blk_number r = number (header b)"
    "t_block d' = insert_or_ignore blk_address r (t_block d)" "t_finalized_block d' = t_finalized_block d"
proof (cases rule: insert_block_cases [of b E d])
  case inserted
  have frame: "t_block (fold (\<lambda>(ix, (sset, ca)). insert_solution_set E a' ix sset ca) xs d0) = t_block d0"
    "t_finalized_block (fold (\<lambda>(ix, (sset, ca)). insert_solution_set E a' ix sset ca) xs d0) = t_finalized_block d0"
    for a' xs d0
    by (rule fold_invariant, auto)+
  show ?thesis
    by (rule that) (use assms inserted(2) in \<open>auto simp: frame INSERT_BLOCK_def\<close>)
qed (use assms in simp)

lemma insert_finalize_cases:
  assumes "insert_finalize E b d = (Ok (), d')"
  obtains d1 where "insert_block E b d = (Ok (content_addr_block E b), d1)"
    "finalize_block (content_addr_block E b) d1 = (Ok (), d')"
proof -
  obtain a d1 where d1: "insert_block E b d = (Ok a, d1)" "finalize_block (content_addr_block E b) d1 = (Ok (), d')"
    using assms by (auto simp: insert_finalize_def split: prod.splits sum.splits)
  from d1(1) have "a = content_addr_block E b"
    by (rule insert_block_tables)
  with d1 that show ?thesis by simp
qed

lemma insert_finalize_wf [wf_rules]: "db_wf d \<Longrightarrow> db_wf (snd (insert_finalize E b d))"
  unfolding insert_finalize_def
  using insert_block_wf [of d E b] finalize_block_wf [of "snd (insert_block E b d)"]
  by (auto split: prod.splits sum.splits)

lemma insert_finalize_chain:
  assumes wf: "db_wf d" and ins: "insert_finalize E b d = (Ok (), d')"
    and agree: "\<forall>n. (content_addr_block E b, n) \<in> stored_numbers d \<longrightarrow> n = number (header b)"
  shows "finalized_chain d' = insert (number (header b), content_addr_block E b) (finalized_chain d)"
    and "number (header b) \<notin> fst ` finalized_chain d"
    and "stored_numbers d' = insert (content_addr_block E b, number (header b)) (stored_numbers d)"
proof -
  obtain d1 where i: "insert_block E b d = (Ok (content_addr_block E b), d1)"
    and f: "finalize_block (content_addr_block E b) d1 = (Ok (), d')"
    using ins by (rule insert_finalize_cases)
  obtain r0 where r0: "blk_address r0 = content_addr_block E b" "blk_number r0 = number (header b)"
    "t_block d1 = insert_or_ignore blk_address r0 (t_block d)" "t_finalized_block d1 = t_finalized_block d"
    using i by (rule insert_block_tables)
  have wf1: "db_wf d1"
    using insert_block_wf [OF wf, of E b] by (simp add: i)
  have stored: "stored_numbers d1 = insert (content_addr_block E b, number (header b)) (stored_numbers d)"
  proof (cases "content_addr_block E b \<in> blk_address ` set (t_block d)")
    case True
    then obtain x where x: "x \<in> set (t_block d)" "blk_address x = content_addr_block E b" by auto
    then have m: "(content_addr_block E b, blk_number x) \<in> stored_numbers d"
      unfolding stored_numbers_def by force
    have "(content_addr_block E b, number (header b)) \<in> stored_numbers d"
      using m agree [rule_format, OF m] by simp
    moreover have "t_block d1 = t_block d"
      using True r0 by (simp add: insert_or_ignore_def)
    then have "stored_numbers d1 = stored_numbers d"
      by (simp add: stored_numbers_def)
    ultimately show ?thesis
      by (simp add: insert_absorb)
  qed (use r0 in \<open>simp add: stored_numbers_def insert_or_ignore_fresh\<close>)
  have "(content_addr_block E b, number (header b)) \<in> stored_numbers d1"
    by (simp add: stored)
  then obtain r where r: "r \<in> set (t_block d1)" "blk_address r = content_addr_block E b"
    "blk_number r = number (header b)"
    by (auto simp: stored_numbers_def)
  note fin = finalize_block_Ok [OF wf1 f [folded r(2)] r(1)]
  have tb: "t_block d' = t_block d1"
    by (simp add: fin(2))
  then show "stored_numbers d' = insert (content_addr_block E b, number (header b)) (stored_numbers d)"
    using stored by (simp add: stored_numbers_def)
  have ids: "fin_block_id ` set (t_finalized_block d) \<subseteq> blk_id ` set (t_block d)"
    using db_wf_D(4) [OF wf] by (force simp: finalized_wf_def)
  have sub: "set (t_block d) \<subseteq> set (t_block d1)"
    by (auto simp: r0(3) insert_or_ignore_def)
  have old: "finalized_chain d1 = finalized_chain d"
  proof (intro equalityI subsetI)
    fix x
    assume "x \<in> finalized_chain d1"
    then obtain c where c: "c \<in> set (t_block d1)" "blk_id c \<in> fin_block_id ` set (t_finalized_block d)"
      "x = (blk_number c, blk_address c)"
      by (auto simp: finalized_chain_def r0(4))
    then obtain c' where c': "c' \<in> set (t_block d)" "blk_id c' = blk_id c"
      using ids by auto
    have "c' = c"
      using c'(2) by (intro block_by_id [OF db_wf_D(1) [OF wf1]] subsetD [OF sub c'(1)] c(1))
    with c c'(1) show "x \<in> finalized_chain d"
      by (auto simp: finalized_chain_def)
  qed (use sub in \<open>auto simp: finalized_chain_def r0(4)\<close>)
  have "finalized_chain d' = insert (blk_number r, blk_address r) (finalized_chain d1)"
  proof (intro equalityI subsetI)
    fix x
    assume "x \<in> finalized_chain d'"
    then obtain c where c: "c \<in> set (t_block d1)" "x = (blk_number c, blk_address c)"
      "blk_id c = blk_id r \<or> blk_id c \<in> fin_block_id ` set (t_finalized_block d1)"
      by (auto simp: finalized_chain_def fin(2))
    then show "x \<in> insert (blk_number r, blk_address r) (finalized_chain d1)"
      using block_by_id [OF db_wf_D(1) [OF wf1] c(1) r(1)] by (auto simp: finalized_chain_def)
  qed (use r(1) in \<open>auto simp: finalized_chain_def fin(2)\<close>)
  then show "finalized_chain d' = insert (number (header b), content_addr_block E b) (finalized_chain d)"
    by (simp add: r old)
  show "number (header b) \<notin> fst ` finalized_chain d"
    using fin(1) by (simp add: finalized_chain_numbers [OF wf] r(3) r0(4))
qed

section \<open>The head of the chain\<close>

lemma latest_finalized_head:
  assumes "plan_ok E" and "db_wf d"
  shows "case get_latest_finalized_block_address E d of
      Inl _ \<Rightarrow> False
    | Inr None \<Rightarrow> finalized_chain d = {}
    | Inr (Some a) \<Rightarrow> \<exists>h. get_block_header E d a = Ok (Some h) \<and> (number h, a) \<in> finalized_chain d \<and>
        (\<forall>x \<in> finalized_chain d. sint (fst x) \<le> sint (number h))"
proof (cases "run_GET_LATEST_FINALIZED_BLOCK_ADDRESS E d")
  case None
  with latest_finalized_address [OF assms] have "t_finalized_block d = []" by simp
  with None show ?thesis
    by (simp add: get_latest_finalized_block_address_def finalized_chain_def)
next
  case (Some a)
  with latest_finalized_address [OF assms] obtain b where b: "b \<in> set (t_block d)" "blk_address b = a"
    "blk_id b \<in> fin_block_id ` set (t_finalized_block d)"
    "\<forall>f \<in> set (t_finalized_block d). sint (fin_number f) \<le> sint (blk_number b)"
    by auto
  obtain h where h: "get_block_header E d a = Ok (Some h)" "number h = blk_number b"
    using header_of_block [OF assms(1) db_wf_D(1) [OF assms(2)] b(1)] b(2) by auto
  have "sint (fst x) \<le> sint (number h)" if "x \<in> finalized_chain d" for x
  proof -
    have "fst x \<in> fst ` finalized_chain d"
      using that by simp
    with b(4) h(2) show ?thesis
      by (auto simp: finalized_chain_numbers [OF assms(2)])
  qed
  moreover have "(number h, a) \<in> finalized_chain d"
    using b h(2) by (auto simp: finalized_chain_def)
  ultimately show ?thesis
    using Some h(1) by (auto simp: get_latest_finalized_block_address_def)
qed

end
