(* ===== verification/Relayer.thy ===== *)
theory Relayer
  imports RelayerStream Chain
begin

text \<open>
  The crate \<open>relayer\<close>: the progress of the synchronization, the writing of the streamed blocks
  (\<open>sync.rs\<close>), the loop that restarts the stream (\<open>lib.rs\<close>) and its handle (\<open>handle.rs\<close>).
  What other tasks write between two items of the stream is an argument.
\<close>

section \<open>Progress\<close>

definition get_block_progress ::
  "node_ext \<Rightarrow> access \<Rightarrow> (rusqlite_error, BlockProgress option) pool_op" where
  "get_block_progress E A =
     acquire_then A (with_tx (begun A) (committed A) id (reading (\<lambda>d.
       bind_result (get_latest_finalized_block_address E d) (\<lambda>a. case a of
         None \<Rightarrow> Ok None
       | Some block_address \<Rightarrow>
           bind_result (get_block_header E d block_address) (\<lambda>h. case h of
             None \<Rightarrow> Ok None
           | Some h \<Rightarrow> Ok (Some \<lparr>last_block_number = number h, last_block_address = block_address\<rparr>))))))"

text \<open>The check of the first block against the progress.\<close>

definition check_block_fork ::
  "node_ext \<Rightarrow> Block option \<Rightarrow> BlockProgress \<Rightarrow> RelayerError + unit" where
  "check_block_fork E b progress =
     (case b of
        Some b \<Rightarrow>
          let block_address = content_addr_block E b in
          if block_address \<noteq> last_block_address progress
          then Err (DataSyncFailed (Fork (last_block_number progress) (last_block_address progress)
                 (Some block_address)))
          else Ok ()
      | None \<Rightarrow> Err (DataSyncFailed (Fork (last_block_number progress) (last_block_address progress) None)))"

section \<open>Writing the streamed blocks\<close>

definition write_block :: "node_ext \<Rightarrow> access \<Rightarrow> Block \<Rightarrow> (rusqlite_error, unit) pool_op" where
  "write_block E A b = acquire_then A (with_tx (begun A) (committed A) id (insert_finalize E b))"

text \<open>\<open>i64::saturating_add\<close> of 1.\<close>

definition saturating_inc :: "Word \<Rightarrow> Word" where
  "saturating_inc n = (if n = i64_max then i64_max else n + 1)"

text \<open>
  The closure of \<open>try_for_each\<close>: its result, the number it expects next, the database and the
  channel of the notifications.
\<close>

definition sync_block ::
  "node_ext \<Rightarrow> access \<Rightarrow> Word \<Rightarrow> Block \<Rightarrow> db \<times> watch \<Rightarrow> (RelayerInternal + unit) \<times> Word \<times> db \<times> watch" where
  "sync_block E A block_number b s =
     (let sequential_block = (number (header b) = block_number);
          block_number' = saturating_inc (number (header b))
      in if \<not> sequential_block
         then (Err (RelayerRecoverable (NonSequentialBlock block_number' (number (header b)))), block_number', s)
         else case write_block E A b (fst s) of
           (Inl e, d) \<Rightarrow> (Err (RelayerCritical (DbPoolRusqlite e)), block_number', d, snd s)
         | (Inr _, d) \<Rightarrow> (Ok (), block_number', d, notify (snd s)))"

text \<open>An item of the stream, the access its block is written with, and what others write before it.\<close>

record sync_input =
  item :: "RelayerInternal + Block"
  item_access :: access
  others :: "db \<Rightarrow> db"

fun sync_loop ::
  "node_ext \<Rightarrow> Word \<Rightarrow> sync_input list \<Rightarrow> db \<times> watch \<Rightarrow> (RelayerInternal + unit) \<times> db \<times> watch" where
  "sync_loop E n [] s = (Ok (), s)"
| "sync_loop E n (i # inputs) s =
     (let s' = (others i (fst s), snd s) in
      case item i of
        Inl e \<Rightarrow> (Err e, s')
      | Inr b \<Rightarrow>
          (case sync_block E (item_access i) n b s' of
             (Inl e, _, s'') \<Rightarrow> (Err e, s'')
           | (Inr _, n', s'') \<Rightarrow> sync_loop E n' inputs s''))"

definition next_number :: "BlockProgress option \<Rightarrow> Word" where
  "next_number progress = (case progress of Some p \<Rightarrow> saturating_inc (last_block_number p) | None \<Rightarrow> 0)"

definition sync_blocks ::
  "node_ext \<Rightarrow> BlockProgress option \<Rightarrow> sync_input list \<Rightarrow> db \<times> watch \<Rightarrow>
   (RelayerInternal + unit) \<times> db \<times> watch" where
  "sync_blocks E progress inputs s =
     (case progress of
        None \<Rightarrow> sync_loop E (next_number progress) inputs s
      | Some p \<Rightarrow>
          (case inputs of
             [] \<Rightarrow> (map_err RelayerCritical (check_block_fork E None p), s)
           | i # inputs' \<Rightarrow>
               let s' = (others i (fst s), snd s) in
               (case item i of
                  Inl e \<Rightarrow> (Err e, s')
                | Inr b \<Rightarrow>
                    (case check_block_fork E (Some b) p of
                       Inl e \<Rightarrow> (Err (RelayerCritical e), s')
                     | Inr _ \<Rightarrow> sync_loop E (next_number progress) inputs' s'))))"

section \<open>Running the relayer\<close>

text \<open>
  A run of the blocks stream: the access that reads the progress, the HTTP client, the number of
  items before the shutdown signal, and the access and the writes of others by item.
\<close>

record stream_run =
  progress_access :: access
  client :: http
  before_shutdown :: nat
  write_access :: "nat \<Rightarrow> access"
  writes_of_others :: "nat \<Rightarrow> db \<Rightarrow> db"

definition sync_inputs :: "stream_run \<Rightarrow> (RelayerInternal + Block) list \<Rightarrow> sync_input list" where
  "sync_inputs r items =
     map (\<lambda>(i, x). \<lparr>item = x, item_access = write_access r i, others = writes_of_others r i\<rparr>)
       (enumerate0 (take (before_shutdown r) items))"

definition run_blocks ::
  "node_ext \<Rightarrow> (str \<Rightarrow> Block option) \<Rightarrow> stream_run \<Rightarrow> db \<times> watch \<Rightarrow>
   (RelayerInternal + unit) \<times> db \<times> watch" where
  "run_blocks E from_str r s =
     (case fst (get_block_progress E (progress_access r) (fst s)) of
        Inl e \<Rightarrow> (Err (RelayerCritical (DbPoolRusqlite e)), s)
      | Inr progress \<Rightarrow>
          (case stream_blocks (client r) from_str progress of
             Inl e \<Rightarrow> (Err e, s)
           | Inr items \<Rightarrow> sync_blocks E progress (sync_inputs r items) s))"

definition map_recoverable_errors :: "RelayerInternal \<Rightarrow> RelayerInternal" where
  "map_recoverable_errors e =
     (case e of
        RelayerCritical (DbPoolRusqlite (Inner (SqliteFailure DatabaseLocked))) \<Rightarrow>
          RelayerRecoverable (RelayerRusqlite (SqliteFailure DatabaseLocked))
      | RelayerCritical (DbPoolRusqlite (Inner (SqliteFailure DatabaseBusy))) \<Rightarrow>
          RelayerRecoverable (RelayerRusqlite (SqliteFailure DatabaseBusy))
      | _ \<Rightarrow> e)"

definition handle_error :: "RelayerInternal \<Rightarrow> RelayerError + unit" where
  "handle_error e =
     (case map_recoverable_errors e of
        RelayerCritical e \<Rightarrow> Err e
      | RelayerRecoverable _ \<Rightarrow> Ok ())"

text \<open>The loop of the task: what it ends with, or \<open>None\<close> if it has not ended after these runs.\<close>

fun run_relayer ::
  "node_ext \<Rightarrow> (str \<Rightarrow> Block option) \<Rightarrow> stream_run list \<Rightarrow> db \<times> watch \<Rightarrow>
   (RelayerError + unit) option \<times> db \<times> watch" where
  "run_relayer E from_str [] s = (None, s)"
| "run_relayer E from_str (r # rs) s =
     (case run_blocks E from_str r s of
        (Inr _, s') \<Rightarrow> (Some (Ok ()), s')
      | (Inl e, s') \<Rightarrow>
          (case handle_error e of
             Inl e \<Rightarrow> (Some (Err e), s')
           | Inr _ \<Rightarrow> run_relayer E from_str rs s'))"

text \<open>\<open>Relayer::new\<close>: the endpoint must parse and the client build.\<close>

definition relayer_new :: "bool \<Rightarrow> bool \<Rightarrow> RelayerError + unit" where
  "relayer_new url_parses client_builds =
     (if \<not> url_parses then Err UrlParse else if \<not> client_builds then Err HttpClientBuild else Ok ())"

section \<open>The handle\<close>

text \<open>
  A joined task has a result, has panicked or was cancelled.  The handle joins a task whose end
  depends on the channel that closes it; resuming a panic is \<open>None\<close>.
\<close>

datatype JoinError = JoinPanic | JoinCancelled

definition flatten_result :: "JoinError + ('e + unit) \<Rightarrow> ('e + unit) option" where
  "flatten_result r =
     (case r of
        Inr r \<Rightarrow> Some r
      | Inl JoinPanic \<Rightarrow> None
      | Inl JoinCancelled \<Rightarrow> Some (Ok ()))"

definition close_blocks :: "watch \<Rightarrow> watch" where
  "close_blocks w = (case watch_send w of None \<Rightarrow> w | Some w' \<Rightarrow> w')"

definition handle_close ::
  "(watch \<Rightarrow> JoinError + (RelayerError + unit)) \<Rightarrow> watch \<Rightarrow> (RelayerError + unit) option \<times> watch" where
  "handle_close join_blocks w =
     (let w' = close_blocks w in (flatten_result (join_blocks w'), close_blocks w'))"

definition handle_join ::
  "(watch \<Rightarrow> JoinError + (RelayerError + unit)) \<Rightarrow> watch \<Rightarrow> (RelayerError + unit) option \<times> watch" where
  "handle_join join_blocks w =
     (let r = join_blocks w in (flatten_result r, close_blocks (close_blocks w)))"

section \<open>The progress is the head of the chain\<close>

lemma get_block_progress_head:
  assumes "plan_ok E" and "db_wf d"
  shows "\<exists>p. get_block_progress E undisturbed d = (Ok p, d) \<and>
    (case p of
       None \<Rightarrow> finalized_chain d = {}
     | Some q \<Rightarrow> (last_block_number q, last_block_address q) \<in> finalized_chain d \<and>
         (\<forall>x \<in> finalized_chain d. sint (fst x) \<le> sint (last_block_number q)))"
proof (cases "get_latest_finalized_block_address E d")
  case (Inr a)
  with latest_finalized_head [OF assms] show ?thesis
    by (cases a) (auto simp: get_block_progress_def acquire_then_def with_tx_def reading_def undisturbed_def)
qed (use latest_finalized_head [OF assms] in simp)

lemma get_block_progress_max:
  assumes "plan_ok E" and "db_wf d" and "(n, a) \<in> finalized_chain d"
    and "\<And>x. x \<in> finalized_chain d \<Longrightarrow> sint (fst x) \<le> sint n"
  shows "get_block_progress E undisturbed d = (Ok (Some \<lparr>last_block_number = n, last_block_address = a\<rparr>), d)"
proof -
  obtain p where p: "get_block_progress E undisturbed d = (Ok p, d)"
    "case p of
       None \<Rightarrow> finalized_chain d = {}
     | Some q \<Rightarrow> (last_block_number q, last_block_address q) \<in> finalized_chain d \<and>
         (\<forall>x \<in> finalized_chain d. sint (fst x) \<le> sint (last_block_number q))"
    using get_block_progress_head [OF assms(1,2)] by blast
  with assms(3) obtain q where q: "p = Some q"
    "(last_block_number q, last_block_address q) \<in> finalized_chain d"
    "\<forall>x \<in> finalized_chain d. sint (fst x) \<le> sint (last_block_number q)"
    by (cases p) auto
  have "sint (last_block_number q) = sint n"
    using assms(4) [OF q(2)] bspec [OF q(3) assms(3)] by simp
  then have n: "last_block_number q = n"
    by (rule signed_word_eqI)
  have "last_block_address q = a"
    using q(2) by (intro finalized_chain_unique [OF assms(2) _ assms(3)]) (simp add: n)
  with n p(1) q(1) show ?thesis
    by simp
qed

section \<open>A run extends the chain\<close>

text \<open>Writes of other tasks that leave blocks and finalization alone, as those of the validation do.\<close>

definition chain_keeping :: "(db \<Rightarrow> db) \<Rightarrow> bool" where
  "chain_keeping f \<longleftrightarrow>
     (\<forall>d. t_block (f d) = t_block d \<and> t_finalized_block (f d) = t_finalized_block d \<and>
       (db_wf d \<longrightarrow> db_wf (f d)))"

lemma chain_keepingD:
  assumes "chain_keeping f"
  shows "finalized_chain (f d) = finalized_chain d" "stored_numbers (f d) = stored_numbers d"
    "db_wf d \<Longrightarrow> db_wf (f d)"
  using assms by (simp_all add: chain_keeping_def finalized_chain_def stored_numbers_def)

text \<open>Content addresses do not collide between blocks of different numbers.\<close>

definition numbers_agree :: "node_ext \<Rightarrow> db \<Rightarrow> Block set \<Rightarrow> bool" where
  "numbers_agree E d B \<longleftrightarrow>
     (\<forall>b \<in> B. \<forall>n. (content_addr_block E b, n) \<in> stored_numbers d \<longrightarrow> n = number (header b)) \<and>
     (\<forall>b \<in> B. \<forall>b' \<in> B. content_addr_block E b = content_addr_block E b' \<longrightarrow>
        number (header b) = number (header b'))"

definition chain_links :: "node_ext \<Rightarrow> Block list \<Rightarrow> (Word \<times> ContentAddress) set" where
  "chain_links E bs = set (map (\<lambda>b. (number (header b), content_addr_block E b)) bs)"

lemma write_block_Ok: "write_block E A b d = (Ok x, d') \<Longrightarrow> insert_finalize E b d = (Ok (), d')"
  by (auto simp: write_block_def acquire_then_def with_tx_def split: if_splits sum.splits prod.splits)

lemma write_block_Err:
  assumes "write_block E A b d = (Err e, d')"
  shows "d' = d"
proof -
  from assms have "fst (write_block E A b d) = Inl e" by simp
  then have "snd (write_block E A b d) = d"
    unfolding write_block_def by (rule acquire_then_Err [rotated]) (simp add: with_tx_Err)
  with assms show ?thesis by simp
qed

lemma numbers_agree_write:
  assumes "numbers_agree E d B" and "b \<in> B"
    and "stored_numbers d' = insert (content_addr_block E b, number (header b)) (stored_numbers d)"
  shows "numbers_agree E d' B"
  using assms unfolding numbers_agree_def by (metis insert_iff prod.inject)

lemma sync_loop_chain:
  assumes "sync_loop E n inputs (d, w) = (r, d', w')" and "db_wf d"
    and "\<forall>i \<in> set inputs. chain_keeping (others i)" and "numbers_agree E d B"
    and "\<forall>i \<in> set inputs. \<forall>b. item i = Ok b \<longrightarrow> b \<in> B"
    and "\<forall>x \<in> finalized_chain d. sint (fst x) \<le> h"
    and "sint n = h + 1 \<or> n = i64_max \<and> n \<in> fst ` finalized_chain d"
  shows "\<exists>bs rest. map item inputs = map Ok bs @ rest \<and> (r = Ok () \<longrightarrow> rest = []) \<and> db_wf d' \<and>
    finalized_chain d' = finalized_chain d \<union> chain_links E bs \<and>
    map (\<lambda>b. sint (number (header b))) bs = map (\<lambda>i. h + 1 + int i) [0..<length bs] \<and>
    w' = (notify ^^ length bs) w"
  using assms
proof (induction inputs arbitrary: n d w h)
  case Nil
  then show ?case by (intro exI [of _ "[]"]) (simp add: chain_links_def)
next
  case (Cons i inputs)
  let ?d = "others i d"
  note keep = chain_keepingD [OF bspec [OF Cons.prems(3) list.set_intros(1)], of d]
  have wf: "db_wf ?d" by (rule keep(3) [OF Cons.prems(2)])
  have stop: ?case if "r \<noteq> Ok ()" "d' = ?d" "w' = w"
    using that wf keep(1) by (intro exI [of _ "[]"] exI [of _ "map item (i # inputs)"]) (simp add: chain_links_def)
  show ?case
  proof (cases "item i")
    case (Inl e)
    with Cons.prems(1) show ?thesis
      by (intro stop) auto
  next
    case (Inr b)
    have b: "b \<in> B" using Cons.prems(5) Inr by simp
    have agree: "numbers_agree E ?d B"
      using Cons.prems(4) unfolding numbers_agree_def keep(2) .
    show ?thesis
    proof (cases "number (header b) = n \<and> (\<exists>d1. write_block E (item_access i) b ?d = (Ok (), d1))")
      case False
      obtain e n' where "sync_block E (item_access i) n b (?d, w) = (Err e, n', ?d, w)"
      proof (cases "number (header b) = n")
        case True
        with False obtain e d1 where d1: "write_block E (item_access i) b ?d = (Err e, d1)"
          by (cases "write_block E (item_access i) b ?d"; cases "fst (write_block E (item_access i) b ?d)") auto
        from that d1 write_block_Err [OF d1] show ?thesis
          by (simp add: sync_block_def True)
      qed (use that in \<open>simp add: sync_block_def Let_def\<close>)
      with Cons.prems(1) Inr show ?thesis
        by (intro stop) auto
    next
      case True
      then obtain d1 where n: "number (header b) = n" and d1: "write_block E (item_access i) b ?d = (Ok (), d1)"
        by blast
      have step: "sync_loop E (saturating_inc n) inputs (d1, notify w) = (r, d', w')"
        using Cons.prems(1) by (simp add: Inr sync_block_def n d1)
      have ins: "insert_finalize E b ?d = (Ok (), d1)"
        using d1 by (rule write_block_Ok)
      have wf1: "db_wf d1"
        using insert_finalize_wf [OF wf, of E b] by (simp add: ins)
      note ch = insert_finalize_chain [OF wf ins, unfolded n keep(1)]
      have here: "\<forall>m. (content_addr_block E b, m) \<in> stored_numbers ?d \<longrightarrow> m = n"
        using agree b unfolding numbers_agree_def n [symmetric] by blast
      have h: "sint n = h + 1"
        using Cons.prems(7) ch(2) [OF here] by simp
      have new: "n \<in> fst ` finalized_chain d1"
        by (simp add: ch(1) [OF here])
      obtain bs rest where IH: "map item inputs = map Ok bs @ rest" "r = Ok () \<longrightarrow> rest = []" "db_wf d'"
        "finalized_chain d' = finalized_chain d1 \<union> chain_links E bs"
        "map (\<lambda>b. sint (number (header b))) bs = map (\<lambda>i. h + 1 + 1 + int i) [0..<length bs]"
        "w' = (notify ^^ length bs) (notify w)"
      proof (atomize_elim, rule Cons.IH [OF step wf1])
        show "\<forall>i \<in> set inputs. chain_keeping (others i)" "\<forall>i \<in> set inputs. \<forall>b. item i = Ok b \<longrightarrow> b \<in> B"
          using Cons.prems(3,5) by simp_all
        show "numbers_agree E d1 B"
          using numbers_agree_write [OF agree b] ch(3) [OF here] by (simp add: n)
        show "\<forall>x \<in> finalized_chain d1. sint (fst x) \<le> h + 1"
          using Cons.prems(6) h by (auto simp: ch(1) [OF here])
        show "sint (saturating_inc n) = h + 1 + 1 \<or>
            saturating_inc n = i64_max \<and> saturating_inc n \<in> fst ` finalized_chain d1"
          using new sint_i64_inc [of n] h by (cases "n = i64_max") (simp_all add: saturating_inc_def)
      qed
      have "map (\<lambda>b. sint (number (header b))) (b # bs) = map (\<lambda>i. h + 1 + int i) [0..<length (b # bs)]"
        using IH(5) by (simp add: n h upt_conv_Cons map_Suc_upt [symmetric] del: upt_Suc)
      then show ?thesis
        using IH ch(1) [OF here] Inr
        by (intro exI [of _ "b # bs"] exI [of _ rest])
          (auto simp: chain_links_def n funpow_swap1 simp del: upt_Suc)
    qed
  qed
qed

text \<open>The progress read after a run is the last block written, or as before if none was.\<close>

definition progress_head :: "db \<Rightarrow> BlockProgress option \<Rightarrow> bool" where
  "progress_head d progress \<longleftrightarrow>
     (case progress of
        None \<Rightarrow> finalized_chain d = {}
      | Some q \<Rightarrow> (last_block_number q, last_block_address q) \<in> finalized_chain d \<and>
          (\<forall>x \<in> finalized_chain d. sint (fst x) \<le> sint (last_block_number q)))"

definition head_number :: "BlockProgress option \<Rightarrow> int" where
  "head_number progress = (case progress of None \<Rightarrow> -1 | Some p \<Rightarrow> sint (last_block_number p))"

lemma progress_head_bound:
  "progress_head d progress \<Longrightarrow> \<forall>x \<in> finalized_chain d. sint (fst x) \<le> head_number progress"
  by (auto simp: progress_head_def head_number_def split: option.splits)

lemma get_block_progress_eq:
  assumes "plan_ok E" and "db_wf d"
  shows "fst (get_block_progress E undisturbed d) = Ok progress \<longleftrightarrow> progress_head d progress"
proof
  assume "fst (get_block_progress E undisturbed d) = Ok progress"
  with get_block_progress_head [OF assms] show "progress_head d progress"
    by (auto simp: progress_head_def)
next
  assume *: "progress_head d progress"
  show "fst (get_block_progress E undisturbed d) = Ok progress"
  proof (cases progress)
    case None
    with * get_block_progress_head [OF assms] show ?thesis
      by (auto simp: progress_head_def split: option.splits)
  next
    case (Some q)
    with * get_block_progress_max [OF assms, of "last_block_number q" "last_block_address q"] show ?thesis
      by (simp add: progress_head_def)
  qed
qed

lemma progress_head_extend:
  assumes "progress_head d progress" and "finalized_chain d' = finalized_chain d \<union> chain_links E bs"
    and "map (\<lambda>b. sint (number (header b))) bs = map (\<lambda>i. head_number progress + 1 + int i) [0..<length bs]"
  shows "progress_head d' (if bs = [] then progress else
    Some \<lparr>last_block_number = number (header (last bs)), last_block_address = content_addr_block E (last bs)\<rparr>)"
proof (cases "bs = []")
  case True
  then have "finalized_chain d' = finalized_chain d"
    using assms(2) by (simp add: chain_links_def)
  with assms(1) True show ?thesis
    by (cases progress) (simp_all add: progress_head_def)
next
  case False
  have num: "sint (number (header (bs ! i))) = head_number progress + 1 + int i" if "i < length bs" for i
    using arg_cong [OF assms(3), of "\<lambda>xs. xs ! i"] that by simp
  have last: "sint (number (header (last bs))) = head_number progress + int (length bs)"
    using False num [of "length bs - 1"] by (simp add: last_conv_nth of_nat_diff Suc_le_eq)
  have "sint (fst x) \<le> sint (number (header (last bs)))" if "x \<in> finalized_chain d'" for x
    using that progress_head_bound [OF assms(1)] num
    unfolding assms(2) last chain_links_def
    by (fastforce simp: in_set_conv_nth)
  moreover have "(number (header (last bs)), content_addr_block E (last bs)) \<in> finalized_chain d'"
    using False by (auto simp: assms(2) chain_links_def)
  ultimately show ?thesis
    using False by (simp add: progress_head_def)
qed

lemma next_number_head:
  assumes "progress_head d progress"
  shows "sint (next_number progress) = head_number progress + 1 \<or>
    next_number progress = i64_max \<and> next_number progress \<in> fst ` finalized_chain d"
proof (cases progress)
  case (Some p)
  with assms have "last_block_number p \<in> fst ` finalized_chain d"
    by (force simp: progress_head_def)
  then show ?thesis
    using sint_i64_inc [of "last_block_number p"]
    by (cases "last_block_number p = i64_max")
      (simp_all add: Some next_number_def head_number_def saturating_inc_def)
qed (simp add: next_number_def head_number_def)

text \<open>The stream began with the head of the chain, if there is one.\<close>

definition starts_at_head :: "node_ext \<Rightarrow> BlockProgress option \<Rightarrow> sync_input list \<Rightarrow> bool" where
  "starts_at_head E progress inputs \<longleftrightarrow>
     (\<forall>p. progress = Some p \<longrightarrow>
       (\<exists>b. inputs \<noteq> [] \<and> item (hd inputs) = Ok b \<and> content_addr_block E b = last_block_address p))"

text \<open>A run is the loop over the blocks behind the head, or stops before it.\<close>

lemma sync_blocks_cases:
  assumes "sync_blocks E progress inputs (d, w) = (r, d', w')"
  obtains (loop) d0 where "d0 = d \<or> (\<exists>i \<in> set inputs. d0 = others i d)" "starts_at_head E progress inputs"
      "sync_loop E (next_number progress) (drop (if progress = None then 0 else 1) inputs) (d0, w) = (r, d', w')"
  | (stopped) "d' = d \<or> (\<exists>i \<in> set inputs. d' = others i d)" "w' = w" "r \<noteq> Ok ()"
proof (cases "progress = None \<or> starts_at_head E progress inputs")
  case True
  show thesis
  proof (cases progress)
    case None
    with assms show thesis
      by (intro loop [of d]) (simp_all add: sync_blocks_def starts_at_head_def)
  next
    case (Some p)
    with True obtain i inputs' b where "inputs = i # inputs'" "item i = Ok b" "content_addr_block E b = last_block_address p"
      by (cases inputs) (auto simp: starts_at_head_def)
    with Some assms show thesis
      by (intro loop [of "others i d"]) (simp_all add: sync_blocks_def starts_at_head_def check_block_fork_def)
  qed
next
  case False
  then obtain p where p: "progress = Some p" by (cases progress) auto
  show thesis
  proof (cases inputs)
    case Nil
    with p assms show thesis
      by (intro stopped) (auto simp: sync_blocks_def check_block_fork_def)
  next
    case (Cons i inputs')
    with p False assms show thesis
      by (intro stopped) (auto simp: sync_blocks_def starts_at_head_def check_block_fork_def Let_def
          split: sum.splits if_splits)
  qed
qed

lemma sync_blocks_chain:
  assumes "db_wf d" and "progress_head d progress" and "\<forall>i \<in> set inputs. chain_keeping (others i)"
    and "numbers_agree E d {b. \<exists>i \<in> set inputs. item i = Ok b}"
    and "sync_blocks E progress inputs (d, w) = (r, d', w')"
  shows "\<exists>bs rest. map item (drop (if progress = None then 0 else 1) inputs) = map Ok bs @ rest \<and>
    (r = Ok () \<longrightarrow> rest = []) \<and> db_wf d' \<and> finalized_chain d' = finalized_chain d \<union> chain_links E bs \<and>
    map (\<lambda>b. sint (number (header b))) bs = map (\<lambda>i. head_number progress + 1 + int i) [0..<length bs] \<and>
    w' = (notify ^^ length bs) w \<and> (bs \<noteq> [] \<or> r = Ok () \<longrightarrow> starts_at_head E progress inputs)"
proof -
  let ?B = "{b. \<exists>i \<in> set inputs. item i = Ok b}" and ?rest = "drop (if progress = None then 0 else 1) inputs"
  have keep: "finalized_chain x = finalized_chain d \<and> stored_numbers x = stored_numbers d \<and> db_wf x"
    if "x = d \<or> (\<exists>i \<in> set inputs. x = others i d)" for x
    using that assms(1,3) chain_keepingD by blast
  show ?thesis
  proof (cases rule: sync_blocks_cases [OF assms(5)])
    case (1 d0)
    note d0 = keep [OF 1(1)]
    have sub: "i \<in> set inputs" if "i \<in> set ?rest" for i
      using that by (rule in_set_dropD)
    have items: "\<forall>i \<in> set ?rest. chain_keeping (others i)" "\<forall>i \<in> set ?rest. \<forall>b. item i = Ok b \<longrightarrow> b \<in> ?B"
      by (intro ballI bspec [OF assms(3)] sub, assumption)
        (intro ballI allI impI CollectI bexI conjI sub, assumption+)
    have head: "\<forall>x \<in> finalized_chain d0. sint (fst x) \<le> head_number progress"
      "sint (next_number progress) = head_number progress + 1 \<or>
       next_number progress = i64_max \<and> next_number progress \<in> fst ` finalized_chain d0"
      using progress_head_bound [OF assms(2)] next_number_head [OF assms(2)] d0 by simp_all
    have st: "stored_numbers d0 = stored_numbers d"
      using d0 by simp
    have "numbers_agree E d0 ?B"
      using assms(4) unfolding numbers_agree_def st .
    from sync_loop_chain [OF 1(3) _ items(1) this items(2) head] d0 1(2) show ?thesis
      by auto
  next
    case 2
    with keep [OF 2(1)] show ?thesis
      by (intro exI [of _ "[]"] exI [of _ "map item ?rest"]) (simp add: chain_links_def)
  qed
qed

text \<open>
  C11. Whatever the other node sends and whatever fails, a run of the relayer extends the chain
  of finalized blocks only by the received blocks in order, up to the first that is not
  acceptable, numbered consecutively from the head of the chain on, with one notification
  each.  It accepts any only if the stream began with the head of the chain.  The progress a
  restarted run reads is the last block that was written.
\<close>

theorem sync_extends_chain:
  assumes "plan_ok E" and "db_wf d" and "fst (get_block_progress E undisturbed d) = Ok progress"
    and "\<forall>i \<in> set inputs. chain_keeping (others i)"
    and "numbers_agree E d {b. \<exists>i \<in> set inputs. item i = Ok b}"
    and "sync_blocks E progress inputs (d, w) = (r, d', w')"
  shows "\<exists>bs rest. map item (drop (if progress = None then 0 else 1) inputs) = map Ok bs @ rest \<and>
    (r = Ok () \<longrightarrow> rest = []) \<and>
    finalized_chain d' = finalized_chain d \<union> chain_links E bs \<and>
    map (\<lambda>b. sint (number (header b))) bs = map (\<lambda>i. head_number progress + 1 + int i) [0..<length bs] \<and>
    w' = (notify ^^ length bs) w \<and>
    (\<forall>p. progress = Some p \<and> (bs \<noteq> [] \<or> r = Ok ()) \<longrightarrow>
       (\<exists>b. inputs \<noteq> [] \<and> item (hd inputs) = Ok b \<and> content_addr_block E b = last_block_address p)) \<and>
    fst (get_block_progress E undisturbed d') = Ok (if bs = [] then progress else
      Some \<lparr>last_block_number = number (header (last bs)), last_block_address = content_addr_block E (last bs)\<rparr>)"
proof -
  have head: "progress_head d progress"
    using assms(3) by (simp add: get_block_progress_eq [OF assms(1,2)])
  obtain bs rest where bs: "map item (drop (if progress = None then 0 else 1) inputs) = map Ok bs @ rest"
    "r = Ok () \<longrightarrow> rest = []" "db_wf d'" "finalized_chain d' = finalized_chain d \<union> chain_links E bs"
    "map (\<lambda>b. sint (number (header b))) bs = map (\<lambda>i. head_number progress + 1 + int i) [0..<length bs]"
    "w' = (notify ^^ length bs) w" "bs \<noteq> [] \<or> r = Ok () \<longrightarrow> starts_at_head E progress inputs"
    using sync_blocks_chain [OF assms(2) head assms(4-6)] by blast
  then show ?thesis
    using progress_head_extend [OF head bs(4,5)] get_block_progress_eq [OF assms(1) bs(3)]
    unfolding starts_at_head_def by blast
qed

definition sample_sync :: "sync_input list" where
  "sample_sync = map (\<lambda>n. \<lparr>item = Ok (sample_block n [[(1, n)]]), item_access = undisturbed, others = id\<rparr>) [0, 1, 5]"

lemma chain_keeping_id: "chain_keeping id"
  by (simp add: chain_keeping_def)

lemma sample_numbers_agree:
  "numbers_agree sample_ext create_tables {b. \<exists>i \<in> set sample_sync. item i = Ok b}"
proof -
  have "{b. \<exists>i \<in> set sample_sync. item i = Ok b} = (\<lambda>n. sample_block n [[(1, n)]]) ` {0, 1, 5}"
    by (auto simp: sample_sync_def)
  moreover have "stored_numbers create_tables = {}"
    by (simp add: stored_numbers_def create_tables_def)
  moreover have "number (header (sample_block n kvs)) = n" for n kvs
    by (simp add: sample_block_def)
  moreover have "distinct (map (\<lambda>n. content_addr_block sample_ext (sample_block n [[(1, n)]])) [0, 1, 5])"
    by code_simp
  ultimately show ?thesis
    by (simp add: numbers_agree_def) metis
qed

lemma sync_extends_chain_witness:
  "\<exists>bs rest. map item sample_sync = map Ok bs @ rest \<and>
     finalized_chain (fst (snd (sync_blocks sample_ext None sample_sync (create_tables, block_tx_new)))) =
       chain_links sample_ext bs \<and>
     map (\<lambda>b. sint (number (header b))) bs = map int [0..<length bs]"
proof -
  have "fst (get_block_progress sample_ext undisturbed create_tables) = Ok None"
    by code_simp
  moreover have "\<forall>i \<in> set sample_sync. chain_keeping (others i)"
    by (simp add: sample_sync_def chain_keeping_id)
  moreover obtain r d w where run: "sync_blocks sample_ext None sample_sync (create_tables, block_tx_new) = (r, d, w)"
    by (metis prod_cases3)
  moreover have "finalized_chain create_tables = {}"
    by (simp add: finalized_chain_def create_tables_def)
  ultimately show ?thesis
    using sync_extends_chain [OF sample_plan_ok create_tables_wf _ _ sample_numbers_agree run]
    by (auto simp: head_number_def)
qed

section \<open>How the task ends\<close>

lemma sse_decode_Err: "fst (sse_decode P buf) = Inl e \<Longrightarrow> \<exists>x. e = RelayerRecoverable x"
  by (auto simp: sse_decode_def Let_def split: option.splits if_splits)

lemma sse_drain_Err: "fst (snd (sse_drain P buf)) = Some e \<Longrightarrow> \<exists>x. e = RelayerRecoverable x"
proof (induction P buf rule: sse_drain.induct)
  case (1 P buf)
  then show ?case
    using sse_decode_Err [of P buf] sse_drain.simps [of P buf]
    by (auto split: prod.splits sum.splits option.splits)
qed

lemma framed_read_Err: "Inl e \<in> set (framed_read P body buf) \<Longrightarrow> \<exists>x. e = RelayerRecoverable x"
proof (induction P body buf rule: framed_read.induct)
  case (1 P buf)
  then show ?case
    using sse_drain_Err [of P buf]
    by (auto simp: framed_end_def internal_of_io_def case_prod_beta split: option.splits if_splits)
next
  case (3 P c body buf)
  obtain xs e' r where d: "sse_drain P (buf @ c) = (xs, e', r)" by (metis prod_cases3)
  with 3 show ?case
    using sse_drain_Err [of P "buf @ c"] by (cases e') (auto split: if_splits)
qed (simp add: internal_of_io_def)

text \<open>The errors that a run ends with, where those of its items are recoverable.\<close>

definition run_error :: "RelayerInternal \<Rightarrow> bool" where
  "run_error e \<longleftrightarrow>
     (case e of
        RelayerRecoverable _ \<Rightarrow> True
      | RelayerCritical c \<Rightarrow>
          c = UrlParse \<or> (\<exists>n a a'. c = DataSyncFailed (Fork n a a')) \<or> (\<exists>e. c = DbPoolRusqlite e))"

lemma sync_loop_error:
  assumes "\<forall>i \<in> set inputs. \<forall>e. item i = Inl e \<longrightarrow> run_error e"
    and "fst (sync_loop E n inputs s) = Inl e"
  shows "run_error e"
  using assms
proof (induction E n inputs s rule: sync_loop.induct)
  case (2 E n i inputs s)
  then show ?case
    by (auto simp: sync_block_def run_error_def [of "RelayerRecoverable _"] run_error_def [of "RelayerCritical (DbPoolRusqlite _)"]
        Let_def split: sum.splits prod.splits if_splits)
qed simp

lemma check_block_fork_error: "check_block_fork E b p = Inl e \<Longrightarrow> run_error (RelayerCritical e)"
  by (auto simp: check_block_fork_def run_error_def Let_def split: option.splits if_splits)

lemma sync_blocks_error:
  assumes "\<forall>i \<in> set inputs. \<forall>e. item i = Inl e \<longrightarrow> run_error e"
    and "fst (sync_blocks E progress inputs s) = Inl e"
  shows "run_error e"
proof (cases progress)
  case None
  with assms show ?thesis
    by (auto simp: sync_blocks_def intro: sync_loop_error)
next
  case (Some p)
  show ?thesis
  proof (cases inputs)
    case Nil
    with Some assms(2) show ?thesis
      using check_block_fork_error [of E None p] by (cases "check_block_fork E None p") (auto simp: sync_blocks_def)
  next
    case (Cons i inputs')
    then have rest: "\<forall>i \<in> set inputs'. \<forall>e. item i = Inl e \<longrightarrow> run_error e" using assms(1) by simp
    show ?thesis
    proof (cases "item i")
      case (Inr b)
      with Some Cons assms(2) show ?thesis
        using check_block_fork_error [of E "Some b" p] sync_loop_error [OF rest]
        by (cases "check_block_fork E (Some b) p") (auto simp: sync_blocks_def Let_def)
    qed (use Some Cons assms in \<open>simp add: sync_blocks_def Let_def\<close>)
  qed
qed

lemma run_blocks_error:
  assumes "fst (run_blocks E P r s) = Inl e"
  shows "run_error e"
proof (cases "fst (get_block_progress E (progress_access r) (fst s))")
  case (Inr progress)
  show ?thesis
  proof (cases "stream_blocks (client r) P progress")
    case (Inl e')
    then have "run_error e'"
      by (auto simp: stream_blocks_def run_error_def split: if_splits sum.splits prod.splits)
    with Inl Inr assms show ?thesis
      by (simp add: run_blocks_def)
  next
    case (Inr items)
    have "\<forall>e. Inl e \<in> set items \<longrightarrow> run_error e"
      using Inr framed_read_Err by (fastforce simp: stream_blocks_def run_error_def split: if_splits sum.splits prod.splits)
    then have "\<forall>i \<in> set (sync_inputs r items). \<forall>e. item i = Inl e \<longrightarrow> run_error e"
      by (auto simp: sync_inputs_def enumerate0_def dest!: set_zip_rightD in_set_takeD)
    then show ?thesis
      using assms \<open>fst (get_block_progress E (progress_access r) (fst s)) = Inr progress\<close> Inr
      by (intro sync_blocks_error) (simp_all add: run_blocks_def)
  qed
qed (use assms in \<open>auto simp: run_blocks_def run_error_def\<close>)

text \<open>The results of a run after which the task starts another one, and the runs up to there.\<close>

definition restarting :: "RelayerInternal + unit \<Rightarrow> bool" where
  "restarting res \<longleftrightarrow> (\<exists>x. res = Err (RelayerRecoverable x)) \<or>
     (\<exists>c \<in> {DatabaseLocked, DatabaseBusy}. res = Err (RelayerCritical (DbPoolRusqlite (Inner (SqliteFailure c)))))"

definition after_runs ::
  "node_ext \<Rightarrow> (str \<Rightarrow> Block option) \<Rightarrow> stream_run list \<Rightarrow> db \<times> watch \<Rightarrow> db \<times> watch" where
  "after_runs E from_str = fold (\<lambda>r s. snd (run_blocks E from_str r s))"

definition all_restart ::
  "node_ext \<Rightarrow> (str \<Rightarrow> Block option) \<Rightarrow> stream_run list \<Rightarrow> db \<times> watch \<Rightarrow> bool" where
  "all_restart E from_str runs s \<longleftrightarrow> (\<forall>i < length runs.
     restarting (fst (run_blocks E from_str (runs ! i) (after_runs E from_str (take i runs) s))))"

lemma after_runs_simps [simp]:
  "after_runs E P [] s = s" "after_runs E P (r # rs) s = after_runs E P rs (snd (run_blocks E P r s))"
  by (simp_all add: after_runs_def)

lemma all_restart_simps [simp]:
  "all_restart E P [] s"
  "all_restart E P (r # rs) s \<longleftrightarrow>
     restarting (fst (run_blocks E P r s)) \<and> all_restart E P rs (snd (run_blocks E P r s))"
  unfolding all_restart_def by (simp_all add: All_less_Suc2)

lemma handle_error_Ok_iff: "handle_error e = Ok () \<longleftrightarrow> restarting (Err e)"
  by (auto simp: handle_error_def map_recoverable_errors_def restarting_def
      split: RelayerInternal.splits RelayerError.splits AcquireThenError.splits rusqlite_error.splits ErrorCode.splits)

lemma handle_error_Err: "handle_error e = Err c \<Longrightarrow> e = RelayerCritical c"
  by (auto simp: handle_error_def map_recoverable_errors_def
      split: RelayerInternal.splits RelayerError.splits AcquireThenError.splits rusqlite_error.splits ErrorCode.splits)

text \<open>What a run that ends well has received.\<close>

lemma sync_loop_clean:
  "fst (sync_loop E n inputs s) = Ok () \<Longrightarrow> \<exists>bs. map item inputs = map Ok bs"
proof (induction inputs arbitrary: n s)
  case (Cons i inputs)
  then obtain b where b: "item i = Ok b" by (cases "item i") (auto simp: Let_def)
  with Cons.prems obtain n' s' where "fst (sync_loop E n' inputs s') = Ok ()"
    by (auto simp: Let_def split: sum.splits prod.splits)
  from Cons.IH [OF this] obtain bs where "map item inputs = map Ok bs" ..
  with b show ?case by (intro exI [of _ "b # bs"]) simp
qed simp

lemma sync_blocks_clean:
  assumes "fst (sync_blocks E progress inputs s) = Ok ()"
  shows "\<exists>bs. map item inputs = map Ok bs \<and>
    (case progress of None \<Rightarrow> True | Some p \<Rightarrow> bs \<noteq> [] \<and> content_addr_block E (hd bs) = last_block_address p)"
proof (cases progress)
  case None
  with assms sync_loop_clean show ?thesis by (auto simp: sync_blocks_def)
next
  case (Some p)
  with assms obtain i inputs' b where i: "inputs = i # inputs'" "item i = Ok b"
    by (cases inputs; cases "item (hd inputs)") (auto simp: sync_blocks_def check_block_fork_def Let_def)
  with Some assms obtain n s' where a: "content_addr_block E b = last_block_address p"
    and loop: "fst (sync_loop E n inputs' s') = Ok ()"
    by (auto simp: sync_blocks_def check_block_fork_def Let_def split: if_splits)
  from sync_loop_clean [OF loop] obtain bs where "map item inputs' = map Ok bs" ..
  with i Some a show ?thesis
    by (intro exI [of _ "b # bs"]) simp
qed

lemma run_blocks_clean:
  assumes "fst (run_blocks E P r s) = Ok ()"
  shows "\<exists>progress items bs. fst (get_block_progress E (progress_access r) (fst s)) = Ok progress \<and>
    stream_blocks (client r) P progress = Ok items \<and> take (before_shutdown r) items = map Ok bs \<and>
    (case progress of None \<Rightarrow> True | Some p \<Rightarrow> bs \<noteq> [] \<and> content_addr_block E (hd bs) = last_block_address p)"
proof -
  obtain progress items where p: "fst (get_block_progress E (progress_access r) (fst s)) = Ok progress"
    "stream_blocks (client r) P progress = Ok items" "fst (sync_blocks E progress (sync_inputs r items) s) = Ok ()"
    using assms by (auto simp: run_blocks_def split: sum.splits)
  have "map item (sync_inputs r items) = take (before_shutdown r) items"
    by (simp add: sync_inputs_def case_prod_beta comp_def enumerate0_def)
  with p sync_blocks_clean [OF p(3)] show ?thesis by metis
qed

text \<open>
  C34. The task of the relayer runs its stream again exactly as long as the run before has ended with a
  recoverable error, or with a database that is locked or busy.  The first run that ends otherwise
  ends the task, with the database and the notifications as this run leaves them: with success
  when the run has received only blocks up to its shutdown or the end of the response, the first
  one being the head of the chain if there is one; or with just the error of that run, which is that the URL does
  not join, a stream that does not continue from the head of the chain, or another failure of the database.
\<close>

theorem relayer_end:
  assumes "run_relayer E from_str runs s = (t, s')"
  shows "t = None \<and> all_restart E from_str runs s \<and> s' = after_runs E from_str runs s \<or>
    (\<exists>before r more res. runs = before @ r # more \<and> all_restart E from_str before s \<and>
      run_blocks E from_str r (after_runs E from_str before s) = (res, s') \<and>
      (res = Ok () \<and> t = Some (Ok ()) \<and>
         (\<exists>progress items bs.
           fst (get_block_progress E (progress_access r) (fst (after_runs E from_str before s))) = Ok progress \<and>
           stream_blocks (client r) from_str progress = Ok items \<and> take (before_shutdown r) items = map Ok bs \<and>
           (case progress of None \<Rightarrow> True
            | Some p \<Rightarrow> bs \<noteq> [] \<and> content_addr_block E (hd bs) = last_block_address p)) \<or>
       (\<exists>e. res = Err (RelayerCritical e) \<and> t = Some (Err e) \<and>
         (e = UrlParse \<or> (\<exists>n a a'. e = DataSyncFailed (Fork n a a')) \<or>
          (\<exists>f. e = DbPoolRusqlite f \<and>
             f \<notin> {Inner (SqliteFailure DatabaseLocked), Inner (SqliteFailure DatabaseBusy)})))))"
    (is "?restarts runs s \<or> (\<exists>before r more res. runs = before @ r # more \<and> ?ends before r res s)")
  using assms
proof (induction runs arbitrary: s)
  case (Cons r runs)
  obtain res s1 where Pair: "run_blocks E from_str r s = (res, s1)" by (metis surj_pair)
  show ?case
  proof (cases "restarting res")
    case True
    then obtain e where e: "res = Err e" "handle_error e = Ok ()"
      using handle_error_Ok_iff by (auto simp: restarting_def)
    with Cons.prems Pair have "run_relayer E from_str runs s1 = (t, s')"
      by simp
    from Cons.IH [OF this] show ?thesis
    proof (rule disjE)
      assume "\<exists>before r' more res'. runs = before @ r' # more \<and> ?ends before r' res' s1"
      then obtain before r' more res' where "runs = before @ r' # more \<and> ?ends before r' res' s1"
        by (elim exE)
      with True Pair show ?thesis
        by (intro disjI2 exI [of _ "r # before"] exI [of _ r'] exI [of _ more] exI [of _ res']) simp
    qed (use True Pair in simp)
  next
    case False
    have "?ends [] r res s"
    proof (cases res)
      case (Inr u)
      with Cons.prems Pair run_blocks_clean [of E from_str r s] show ?thesis by simp
    next
      case (Inl e')
      have err: "run_error e'"
        using run_blocks_error [of E from_str r s e'] Pair Inl by simp
      obtain c where c: "handle_error e' = Err c"
        using False Inl handle_error_Ok_iff [of e'] by (cases "handle_error e'") auto
      with Cons.prems Pair Inl have "t = Some (Err c)" "s' = s1" by simp_all
      with handle_error_Err [OF c] err False Inl Pair show ?thesis
        by (auto simp: run_error_def restarting_def)
    qed
    then show ?thesis
      by (intro disjI2 exI [of _ "[]"] exI [of _ r] exI [of _ runs] exI [of _ res]) simp
  qed
qed simp

text \<open>A response without blocks, after the first block is stored: the stream ends at once.\<close>

definition sample_run :: stream_run where
  "sample_run = \<lparr>progress_access = undisturbed, client = \<lparr>url_joins = True, send = (\<lambda>_. Ok (200, []))\<rparr>,
     before_shutdown = 1, write_access = (\<lambda>_. undisturbed), writes_of_others = (\<lambda>_. id)\<rparr>"

definition failing_run :: stream_run where
  "failing_run = sample_run\<lparr>client := \<lparr>url_joins = True, send = (\<lambda>_. Ok (503, []))\<rparr>\<rparr>"

lemma relayer_end_witness:
  "\<exists>before r more. [failing_run, sample_run] = before @ r # more \<and>
     all_restart sample_ext (\<lambda>_. None) before (sample_db, block_tx_new) \<and>
     (\<exists>n a a' s1. run_blocks sample_ext (\<lambda>_. None) r (after_runs sample_ext (\<lambda>_. None) before (sample_db, block_tx_new)) =
        (Err (RelayerCritical (DataSyncFailed (Fork n a a'))), s1))"
proof -
  have "case fst (run_relayer sample_ext (\<lambda>_. None) [failing_run, sample_run] (sample_db, block_tx_new)) of
      Some (Inl (DataSyncFailed (Fork n a None))) \<Rightarrow> n = 1 | _ \<Rightarrow> False"
    by code_simp
  then obtain n a a' where fork: "fst (run_relayer sample_ext (\<lambda>_. None) [failing_run, sample_run] (sample_db, block_tx_new)) =
      Some (Err (DataSyncFailed (Fork n a a')))"
    by (auto split: option.splits sum.splits RelayerError.splits DataSyncError.splits)
  then obtain s' where
    "run_relayer sample_ext (\<lambda>_. None) [failing_run, sample_run] (sample_db, block_tx_new) =
       (Some (Err (DataSyncFailed (Fork n a a'))), s')"
    by (metis prod.collapse)
  from relayer_end [OF this] show ?thesis
    by (elim disjE exE conjE; clarify) blast
qed

text \<open>
  A shutdown, or an end of the response, before the first block is reported as a fork once
  there is any progress.
\<close>

lemma shutdown_before_first_is_fork:
  assumes "fst (get_block_progress E (progress_access r) (fst s)) = Ok (Some p)"
    and "stream_blocks (client r) from_str (Some p) = Ok items" and "before_shutdown r = 0"
  shows "run_blocks E from_str r s =
    (Err (RelayerCritical (DataSyncFailed (Fork (last_block_number p) (last_block_address p) None))), s)"
  using assms by (simp add: run_blocks_def sync_inputs_def enumerate0_def sync_blocks_def check_block_fork_def)

end
