(* ===== verification/Validation.thy ===== *)
theory Validation
  imports NodeError ValidateLaws Relayer
begin

text \<open>
  The validation stream (\<open>node/src/validation.rs\<close>): one round reads the progress, the next
  block, validates it and records the outcome; the stream repeats rounds until it has reached
  the head of the chain, and then waits for a notification.  What the pool and SQLite answer
  in a round, and what other tasks write between its accesses, is an argument.
\<close>

section \<open>One round\<close>

definition get_last_progress ::
  "node_ext \<Rightarrow> access \<Rightarrow> db \<Rightarrow> RecoverableError + ContentAddress option" where
  "get_last_progress E A d = map_err RE_LastProgress (fst (pool_get_validation_progress E A d))"

definition next_block_query ::
  "node_ext \<Rightarrow> access \<Rightarrow> ContentAddress \<Rightarrow> db \<Rightarrow> QueryError + (InternalError + Block option)" where
  "next_block_query E A progress d =
     bind_result (get_next_block_addresses E d progress) (\<lambda>blocks.
       if blocks = [] then Ok (Ok None)
       else if 1 < length blocks then Ok (Err (Critical CE_Fork))
       else bind_result (map_err Rusqlite (begun A)) (\<lambda>_.
            bind_result (get_block E d (hd blocks)) (\<lambda>b. Ok (Ok b))))"

definition get_next_block ::
  "node_ext \<Rightarrow> access \<Rightarrow> ContentAddress \<Rightarrow> db \<Rightarrow> InternalError + Block option" where
  "get_next_block E A progress d =
     (case fst (acquire_then A (reading (next_block_query E A progress)) d) of
        Inl e \<Rightarrow> Err (Critical (CE_GetNextBlock e))
      | Inr r \<Rightarrow> r)"

text \<open>The answer whether a finalized block is ahead of the validated one.\<close>

definition more_blocks_left :: "node_ext \<Rightarrow> Word \<Rightarrow> db \<Rightarrow> rusqlite_error + bool" where
  "more_blocks_left E n d =
     bind_result (get_latest_finalized_block_address E d) (\<lambda>hash. case hash of
       None \<Rightarrow> Ok False
     | Some hash \<Rightarrow> bind_result (get_block_header E d hash) (\<lambda>h. case h of
         None \<Rightarrow> Ok False
       | Some h \<Rightarrow> Ok (sint n < sint (number h))))"

text \<open>
  The closures that record the outcome.  Their write is a statement outside a transaction; it
  fails if \<open>committed\<close> does.
\<close>

definition record_valid ::
  "node_ext \<Rightarrow> access \<Rightarrow> ContentAddress \<Rightarrow> Word \<Rightarrow> (ValidationError, bool) pool_op" where
  "record_valid E A block_address n =
     acquire_then A (\<lambda>d.
       case committed A of
         Inl e \<Rightarrow> (Err (VE_Rusqlite e), d)
       | Inr _ \<Rightarrow>
           (case update_validation_progress block_address d of
              (Inl e, d') \<Rightarrow> (Err (VE_Rusqlite e), d')
            | (Inr _, d') \<Rightarrow>
                (map_err VE_Rusqlite (bind_result (begun A) (\<lambda>_. more_blocks_left E n d')), d')))"

definition record_failed ::
  "access \<Rightarrow> ContentAddress \<Rightarrow> ContentAddress \<Rightarrow> (ValidationError, bool) pool_op" where
  "record_failed A block_address failed_solution_set =
     acquire_then A (\<lambda>d.
       case committed A of
         Inl e \<Rightarrow> (Err (VE_Rusqlite e), d)
       | Inr _ \<Rightarrow>
           (case insert_failed_block block_address failed_solution_set d of
              (Inl e, d') \<Rightarrow> (Err (VE_Rusqlite e), d')
            | (Inr _, d') \<Rightarrow> (Ok False, d')))"

record round =
  at_progress :: access
  at_next :: access
  at_outcome :: access
  validate_faults :: faults
  before_next :: "db \<Rightarrow> db"
  before_validate :: "db \<Rightarrow> db"
  before_outcome :: "db \<Rightarrow> db"

text \<open>The result of the round and the database, or \<open>None\<close> if the \<open>expect\<close> panics.\<close>

definition validate_next_block ::
  "node_ext \<Rightarrow> 'pe checker \<Rightarrow> round \<Rightarrow> ContentAddress \<Rightarrow> ContentAddress \<Rightarrow> db \<Rightarrow>
   ((InternalError + bool) \<times> db) option" where
  "validate_next_block E C R creg preg d =
     (case get_last_progress E (at_progress R) d of
        Inl e \<Rightarrow> Some (Err (Recoverable e), d)
      | Inr None \<Rightarrow> Some (Err (Critical CE_LastProgressNone), d)
      | Inr (Some progress) \<Rightarrow>
          let d1 = before_next R d in
          (case get_next_block E (at_next R) progress d1 of
             Inl e \<Rightarrow> Some (Err e, d1)
           | Inr None \<Rightarrow> Some (Ok False, d1)
           | Inr (Some b) \<Rightarrow>
               let block_address = content_addr_block E b; d2 = before_validate R d1 in
               (case validate E C (validate_faults R) d2 creg preg b of
                  Inl e \<Rightarrow> Some (Err (internal_of_validation_error e), d2)
                | Inr (Valid _) \<Rightarrow>
                    (case record_valid E (at_outcome R) block_address (number (header b)) (before_outcome R d2) of
                       (r, d3) \<Rightarrow> Some (map_err internal_of_acquire_error r, d3))
                | Inr (Invalid _ ix) \<Rightarrow>
                    if ix < length (solution_sets b)
                    then (case record_failed (at_outcome R) block_address
                              (content_addr_solution_set E (solution_sets b ! ix)) (before_outcome R d2) of
                            (r, d3) \<Rightarrow> Some (map_err internal_of_acquire_error r, d3))
                    else None)))"

section \<open>The stream\<close>

text \<open>
  What ends the wait at the head of the chain: the handle closes the stream, a notification
  arrives, or its sender is gone.  The stream runs, has panicked or has ended.
\<close>

datatype wake = StreamClose | BlockNotified | SenderDropped

datatype 'e task = Running | TaskPanicked | TaskEnded "'e + unit"

fun validation_stream ::
  "node_ext \<Rightarrow> 'pe checker \<Rightarrow> ContentAddress \<Rightarrow> ContentAddress \<Rightarrow> (round \<times> wake) list \<Rightarrow> db \<Rightarrow>
   CriticalError task \<times> db" where
  "validation_stream E C creg preg [] d = (Running, d)"
| "validation_stream E C creg preg ((R, w) # inputs) d =
     (case validate_next_block E C R creg preg d of
        None \<Rightarrow> (TaskPanicked, d)
      | Some (Inl e, d') \<Rightarrow>
          (case handle_internal_error e of
             Inl e \<Rightarrow> (TaskEnded (Err e), d')
           | Inr _ \<Rightarrow> validation_stream E C creg preg inputs d')
      | Some (Inr True, d') \<Rightarrow> validation_stream E C creg preg inputs d'
      | Some (Inr False, d') \<Rightarrow>
          (case w of
             BlockNotified \<Rightarrow> validation_stream E C creg preg inputs d'
           | _ \<Rightarrow> (TaskEnded (Ok ()), d')))"

text \<open>The handle of the stream (\<open>handles/validation.rs\<close>).\<close>

definition validation_flatten_result :: "JoinError + ('e + unit) \<Rightarrow> ('e + unit) option" where
  "validation_flatten_result r =
     (case r of
        Inr r \<Rightarrow> Some r
      | Inl JoinPanic \<Rightarrow> None
      | Inl JoinCancelled \<Rightarrow> Some (Ok ()))"

lemma validation_flatten_result_eq [simp]: "validation_flatten_result = flatten_result"
  by (simp add: fun_eq_iff validation_flatten_result_def flatten_result_def)

definition validation_close ::
  "(watch \<Rightarrow> JoinError + (CriticalError + unit)) \<Rightarrow> watch \<Rightarrow> (CriticalError + unit) option \<times> watch" where
  "validation_close join w =
     (let w' = close_blocks w in (validation_flatten_result (join w'), close_blocks w'))"

definition validation_join ::
  "(watch \<Rightarrow> JoinError + (CriticalError + unit)) \<Rightarrow> watch \<Rightarrow> (CriticalError + unit) option \<times> watch" where
  "validation_join join w = (validation_flatten_result (join w), close_blocks w)"

end
