(* ===== verification/ValidationLaws.thy ===== *)
theory ValidationLaws
  imports Validation
begin

text \<open>
  Laws of the validation stream: what a round does to the progress and to the failed blocks,
  whatever other tasks write meanwhile, how the stream ends, and that it reaches the head of the
  chain.
\<close>

section \<open>The progress row\<close>

lemma no_progress_rows:
  assumes "plan_ok E" and "t_validation_progress d = []"
  shows "run_GET_VALIDATION_PROGRESS E d = None"
proof -
  have rows: "[blk_address b. b \<leftarrow> t_block d, v \<leftarrow> t_validation_progress d, blk_id b = vp_block_id v] = []"
    using assms(2) by simp
  show ?thesis
    unfolding run_GET_VALIDATION_PROGRESS_def rows using assms(1) by simp
qed

lemma progress_rows:
  assumes "plan_ok E" and "db_wf d"
  shows "run_GET_VALIDATION_PROGRESS E d = Some a \<longleftrightarrow>
    (\<exists>b \<in> set (t_block d). blk_address b = a \<and> t_validation_progress d = [\<lparr>vp_id = 1, vp_block_id = blk_id b\<rparr>])"
proof -
  have one: "run_GET_VALIDATION_PROGRESS E d = Some (blk_address b)"
    if "b \<in> set (t_block d)" "t_validation_progress d = [\<lparr>vp_id = 1, vp_block_id = blk_id b\<rparr>]" for b
  proof -
    have "[blk_address b'. b' \<leftarrow> t_block d, v \<leftarrow> t_validation_progress d, blk_id b' = vp_block_id v] =
        concat (map (\<lambda>b'. if blk_id b' = blk_id b then [blk_address b'] else []) (t_block d))"
      by (simp add: that(2))
    also have "\<dots> = [blk_address b]"
      using db_wf_D(1) [OF assms(2)] that(1) by (intro concat_map_unique) (simp_all add: block_table_wf_def)
    finally show ?thesis
      by (simp add: run_GET_VALIDATION_PROGRESS_def assms(1))
  qed
  show ?thesis
  proof (cases "t_validation_progress d = []")
    case True
    then show ?thesis
      by (simp add: no_progress_rows [OF assms(1)])
  next
    case False
    then obtain b where "b \<in> set (t_block d)" "t_validation_progress d = [\<lparr>vp_id = 1, vp_block_id = blk_id b\<rparr>]"
      using db_wf_D(7) [OF assms(2)] by (auto simp: progress_wf_def)
    with one show ?thesis
      using block_by_id [OF db_wf_D(1) [OF assms(2)]] by force
  qed
qed

text \<open>Writes that only add blocks, such as those of the relayer.\<close>

definition blocks_growing :: "(db \<Rightarrow> db) \<Rightarrow> bool" where
  "blocks_growing f \<longleftrightarrow>
     (\<forall>d. db_wf d \<longrightarrow> db_wf (f d) \<and> set (t_block d) \<subseteq> set (t_block (f d)) \<and>
       t_validation_progress (f d) = t_validation_progress d)"

lemma blocks_growingD:
  assumes "blocks_growing f" and "db_wf d"
  shows "db_wf (f d)" "set (t_block d) \<subseteq> set (t_block (f d))" "t_validation_progress (f d) = t_validation_progress d"
  using assms by (simp_all add: blocks_growing_def)

lemma progress_grow:
  assumes "plan_ok E" and "db_wf d" and "db_wf d'" and "set (t_block d) \<subseteq> set (t_block d')"
    and "t_validation_progress d' = t_validation_progress d"
  shows "run_GET_VALIDATION_PROGRESS E d' = run_GET_VALIDATION_PROGRESS E d"
proof (cases "t_validation_progress d = []")
  case True
  then show ?thesis
    using assms(5) by (simp add: no_progress_rows [OF assms(1)])
next
  case False
  then obtain b where b: "b \<in> set (t_block d)" "t_validation_progress d = [\<lparr>vp_id = 1, vp_block_id = blk_id b\<rparr>]"
    using db_wf_D(7) [OF assms(2)] by (auto simp: progress_wf_def)
  have "run_GET_VALIDATION_PROGRESS E d = Some (blk_address b)"
    "run_GET_VALIDATION_PROGRESS E d' = Some (blk_address b)"
    using b assms(4,5) by (auto simp: progress_rows [OF assms(1,2)] progress_rows [OF assms(1,3)])
  then show ?thesis by simp
qed

lemma insert_rows_progress [simp]:
  "t_validation_progress (insert_mutations E ca i ms d) = t_validation_progress d"
  "t_validation_progress (insert_pred_data E ca i vs d) = t_validation_progress d"
  unfolding insert_mutations_def insert_pred_data_def
  by (rule fold_invariant, auto simp: INSERT_MUTATION_def INSERT_PRED_DATA_def split: option.splits)+

lemma insert_solution_set_progress [simp]:
  "t_validation_progress (insert_solution_set E a ix s ca d) = t_validation_progress d"
  unfolding insert_solution_set_def
  by (rule fold_invariant, auto simp: insert_solution_def INSERT_SOLUTION_def INSERT_SOLUTION_SET_def
      INSERT_BLOCK_SOLUTION_SET_def split: option.splits)

lemma insert_block_progress [simp]:
  "t_validation_progress (snd (insert_block E b d)) = t_validation_progress d"
proof (cases rule: insert_block_cases [of b E d])
  case inserted
  have "t_validation_progress (fold (\<lambda>(ix, (sset, ca)). insert_solution_set E a ix sset ca) xs d0) =
      t_validation_progress d0" for a xs d0
    by (rule fold_invariant) auto
  with inserted show ?thesis
    by (simp add: INSERT_BLOCK_def)
qed simp

lemma finalize_block_frame [simp]:
  "t_validation_progress (snd (finalize_block a d)) = t_validation_progress d"
  "t_block (snd (finalize_block a d)) = t_block d"
  by (auto simp: finalize_block_def of_stmt_def FINALIZE_BLOCK_def split: sum.splits option.splits if_splits)

lemma insert_block_grows: "set (t_block d) \<subseteq> set (t_block (snd (insert_block E b d)))"
proof (cases "insert_block E b d")
  case (Pair r d')
  show ?thesis
  proof (cases r)
    case (Inl e)
    then show ?thesis
      using insert_block_cases [of b E d] Pair by (metis Inl_Inr_False prod.inject snd_conv subset_refl)
  next
    case (Inr a)
    with Pair have "insert_block E b d = (Ok a, d')" by simp
    then show ?thesis
      by (rule insert_block_tables) (use Pair in \<open>auto simp: insert_or_ignore_def\<close>)
  qed
qed

text \<open>The writes of the relayer only add blocks.\<close>

lemma write_block_growing: "blocks_growing (\<lambda>d. snd (write_block E A b d))"
proof -
  have "snd (write_block E A b d) = d \<or> snd (write_block E A b d) = snd (insert_finalize E b d)" for d
    by (auto simp: write_block_def acquire_then_def with_tx_def split: sum.splits prod.splits)
  moreover have "set (t_block d) \<subseteq> set (t_block (snd (insert_finalize E b d))) \<and>
      t_validation_progress (snd (insert_finalize E b d)) = t_validation_progress d" for d
  proof (cases "insert_block E b d")
    case (Pair r d')
    with insert_block_grows [of d E b] insert_block_progress [of E b d] show ?thesis
      by (cases r) (simp_all add: insert_finalize_def)
  qed
  ultimately show ?thesis
    unfolding blocks_growing_def by (metis insert_finalize_wf order_refl)
qed

section \<open>A round advances the progress by one valid block\<close>

lemma get_block_header_number:
  assumes "plan_ok E" and "block_table_wf d" and "r \<in> set (t_block d)"
    and "get_block E d (blk_address r) = Ok (Some b)"
  shows "number (header b) = blk_number r"
proof -
  obtain h where h: "get_block_header E d (blk_address r) = Ok (Some h)" "header b = h"
    using assms(4) by (auto simp: get_block_def bind_result_Ok_iff split: option.splits)
  with header_of_row_number show ?thesis
    by (auto simp: get_block_header_row [OF assms(1-3)] bind_result_Ok_iff)
qed

lemma get_next_block_Some:
  assumes "plan_ok E" and "db_wf d" and "get_next_block E A p d = Ok (Some b)"
  obtains b1 b2 where "b1 \<in> set (t_block d)" "b2 \<in> set (t_block d)" "blk_address b2 = p"
    "sint (blk_number b1) = sint (blk_number b2) + 1" "number (header b) = blk_number b1"
    "get_block E d (blk_address b1) = Ok (Some b)"
proof -
  have "next_block_query E A p d = Ok (Ok (Some b))"
    using assms(3) by (auto simp: get_next_block_def acquire_then_def reading_def split: if_splits sum.splits)
  then have ne: "run_GET_NEXT_BLOCK_ADDRESSES E d p \<noteq> []"
    and b: "get_block E d (hd (run_GET_NEXT_BLOCK_ADDRESSES E d p)) = Ok (Some b)"
    by (auto simp: next_block_query_def get_next_block_addresses_def bind_result_Ok_iff split: if_splits)
  from hd_in_set [OF ne] obtain b1 b2 where r: "b1 \<in> set (t_block d)" "b2 \<in> set (t_block d)"
    "sint (blk_number b1) = sint (blk_number b2) + 1" "blk_address b2 = p"
    "hd (run_GET_NEXT_BLOCK_ADDRESSES E d p) = blk_address b1"
    unfolding run_GET_NEXT_BLOCK_ADDRESSES_def set_scan [OF assms(1)] by (auto split: if_splits)
  have "number (header b) = blk_number b1"
    using b r(5) by (intro get_block_header_number [OF assms(1) db_wf_D(1) [OF assms(2)] r(1)]) simp
  with that r b show ?thesis by metis
qed

lemma record_valid_result:
  assumes "plan_ok E" and "db_wf d" and "record_valid E A a n d = (r, d')"
  shows "db_wf d' \<and> (d' = d \<and> r \<noteq> Ok True \<or> run_GET_VALIDATION_PROGRESS E d' = Some a \<and>
    (r = Ok True \<longrightarrow> (\<exists>x \<in> finalized_chain d'. sint n < sint (fst x))))"
proof (cases "acquired A \<and> joined A \<and> committed A = Ok () \<and> (\<exists>d1. update_validation_progress a d = (Ok (), d1))")
  case True
  then obtain d1 where d1: "update_validation_progress a d = (Ok (), d1)" by blast
  then have ins: "INSERT_VALIDATION_PROGRESS a d = Ok d1"
    by (auto simp: update_validation_progress_def of_stmt_def split: sum.splits)
  have wf1: "db_wf d1"
    using INSERT_VALIDATION_PROGRESS_wf [OF assms(2) ins] .
  have eq: "d' = d1" "r = map_err Inner (map_err VE_Rusqlite (bind_result (begun A) (\<lambda>_. more_blocks_left E n d1)))"
    using True d1 assms(3) by (auto simp: record_valid_def acquire_then_def)
  obtain b where b: "b \<in> set (t_block d)" "blk_address b = a"
    "d1 = d\<lparr>t_validation_progress := [\<lparr>vp_id = 1, vp_block_id = blk_id b\<rparr>]\<rparr>"
    using INSERT_VALIDATION_PROGRESS_Ok [OF assms(2) ins] .
  have "run_GET_VALIDATION_PROGRESS E d1 = Some a"
    unfolding progress_rows [OF assms(1) wf1] using b by auto
  moreover have "\<exists>x \<in> finalized_chain d1. sint n < sint (fst x)" if "r = Ok True"
  proof -
    have "more_blocks_left E n d1 = Ok True"
      using that eq(2) by (auto simp: bind_result_Ok_iff)
    with latest_finalized_head [OF assms(1) wf1] show ?thesis
      by (force simp: more_blocks_left_def bind_result_Ok_iff split: option.splits sum.splits)
  qed
  ultimately show ?thesis
    using wf1 eq(1) by blast
next
  case False
  have "d' = d \<and> r \<noteq> Ok True"
  proof (cases "update_validation_progress a d")
    case (Pair u d1)
    then have "u = Ok () \<or> d1 = d"
      by (auto simp: update_validation_progress_def of_stmt_def split: sum.splits)
    with False Pair assms(3) show ?thesis
      by (auto simp: record_valid_def acquire_then_def split: if_splits sum.splits)
  qed
  with assms(2) show ?thesis by blast
qed

lemma INSERT_FAILED_BLOCK_frame [simp]:
  "t_block (INSERT_FAILED_BLOCK a ca d) = t_block d"
  "t_validation_progress (INSERT_FAILED_BLOCK a ca d) = t_validation_progress d"
  "finalized_chain (INSERT_FAILED_BLOCK a ca d) = finalized_chain d"
  by (auto simp: INSERT_FAILED_BLOCK_def finalized_chain_def split: option.splits)

lemma record_failed_result:
  assumes "db_wf d" and "record_failed A a ca d = (r, d')"
  shows "db_wf d' \<and> t_block d' = t_block d \<and> t_validation_progress d' = t_validation_progress d \<and> r \<noteq> Ok True"
proof -
  have "d' = d \<or> d' = INSERT_FAILED_BLOCK a ca d"
    using assms(2) by (auto simp: record_failed_def acquire_then_def insert_failed_block_def of_stmt_def
        split: if_splits sum.splits)
  moreover have "r \<noteq> Ok True"
    using assms(2) by (auto simp: record_failed_def acquire_then_def insert_failed_block_def of_stmt_def
        split: if_splits sum.splits)
  ultimately show ?thesis
    using INSERT_FAILED_BLOCK_wf [OF assms(1), of a ca] assms(1) by auto
qed

lemma validate_index:
  assumes "validate E C F d creg preg b = Ok (Invalid f ix)"
  shows "ix < length (solution_sets b)"
proof -
  from assms have "validate_sets (validate_set E C F (ConnectionPool d) creg preg (number (header b)))
      0 (solution_sets b) 0 = Ok (Invalid f ix)"
    by (simp add: validate_def validate_inner_def)
  from validate_sets_Invalid [OF validate_set_adds_gas this] show ?thesis by auto
qed

lemma map_err_Ok_neq: "r \<noteq> Ok x \<Longrightarrow> map_err f r \<noteq> Ok x"
  by (cases r) auto

text \<open>A round stops early, or records a valid or an invalid block.\<close>

lemma round_cases:
  obtains (early) x res where "validate_next_block E C R creg preg d = Some (res, x)" "res \<noteq> Ok True"
      "x \<in> {d, before_next R d, before_validate R (before_next R d)}"
  | (valid) p b g r d' where "get_last_progress E (at_progress R) d = Ok (Some p)"
      "get_next_block E (at_next R) p (before_next R d) = Ok (Some b)"
      "validate E C (validate_faults R) (before_validate R (before_next R d)) creg preg b = Ok (Valid g)"
      "record_valid E (at_outcome R) (content_addr_block E b) (number (header b))
         (before_outcome R (before_validate R (before_next R d))) = (r, d')"
      "validate_next_block E C R creg preg d = Some (map_err internal_of_acquire_error r, d')"
  | (invalid) p b f ix r d' where "get_last_progress E (at_progress R) d = Ok (Some p)"
      "get_next_block E (at_next R) p (before_next R d) = Ok (Some b)"
      "validate E C (validate_faults R) (before_validate R (before_next R d)) creg preg b = Ok (Invalid f ix)"
      "record_failed (at_outcome R) (content_addr_block E b)
         (content_addr_solution_set E (solution_sets b ! ix)) (before_outcome R (before_validate R (before_next R d))) = (r, d')"
      "validate_next_block E C R creg preg d = Some (map_err internal_of_acquire_error r, d')"
proof (cases "\<exists>p b. get_last_progress E (at_progress R) d = Ok (Some p) \<and>
    get_next_block E (at_next R) p (before_next R d) = Ok (Some b)")
  case False
  then have "\<exists>res x. validate_next_block E C R creg preg d = Some (res, x) \<and> res \<noteq> Ok True \<and> x \<in> {d, before_next R d}"
    by (auto simp: validate_next_block_def Let_def split: sum.splits option.splits)
  with early show thesis by blast
next
  case True
  then obtain p b where p: "get_last_progress E (at_progress R) d = Ok (Some p)"
    and b: "get_next_block E (at_next R) p (before_next R d) = Ok (Some b)" by blast
  let ?d2 = "before_validate R (before_next R d)"
  let ?v = "validate E C (validate_faults R) ?d2 creg preg b"
  consider (err) e where "?v = Err e" | (val) g where "?v = Ok (Valid g)" | (inv) f ix where "?v = Ok (Invalid f ix)"
    by (cases ?v) (auto elim: ValidateOutcome.exhaust)
  then show thesis
  proof cases
    case err
    with p b show thesis
      by (intro early [of "Err (internal_of_validation_error e)" ?d2]) (simp_all add: validate_next_block_def Let_def)
  next
    case val
    obtain r d' where rec: "record_valid E (at_outcome R) (content_addr_block E b) (number (header b))
        (before_outcome R ?d2) = (r, d')"
      by fastforce
    show thesis
      by (rule valid [OF p b val rec]) (use p b val rec in \<open>simp add: validate_next_block_def Let_def\<close>)
  next
    case inv
    obtain r d' where rec: "record_failed (at_outcome R) (content_addr_block E b)
        (content_addr_solution_set E (solution_sets b ! ix)) (before_outcome R ?d2) = (r, d')"
      by fastforce
    show thesis
      by (rule invalid [OF p b inv rec])
        (use p b inv rec validate_index [OF inv] in \<open>simp add: validate_next_block_def Let_def\<close>)
  qed
qed

text \<open>The block a round reads has the number after the progress.\<close>

lemma next_of_progress:
  assumes "plan_ok E" and "db_wf d" and "db_wf d1" and "set (t_block d) \<subseteq> set (t_block d1)"
    and "get_last_progress E A d = Ok (Some p)" and "get_next_block E A' p d1 = Ok (Some b)"
  shows "run_GET_VALIDATION_PROGRESS E d = Some p \<and>
    (\<exists>n. (p, n) \<in> stored_numbers d \<and> sint (number (header b)) = sint n + 1)"
proof -
  obtain b1 b2 where nb: "b1 \<in> set (t_block d1)" "b2 \<in> set (t_block d1)" "blk_address b2 = p"
    "sint (blk_number b1) = sint (blk_number b2) + 1" "number (header b) = blk_number b1"
    by (rule get_next_block_Some [OF assms(1,3,6)])
  have run: "run_GET_VALIDATION_PROGRESS E d = Some p"
    using assms(5) by (auto simp: get_last_progress_def pool_get_validation_progress_def acquire_then_def
        reading_def get_validation_progress_def split: if_splits)
  then obtain b0 where b0: "b0 \<in> set (t_block d)" "blk_address b0 = p"
    by (auto simp: progress_rows [OF assms(1,2)])
  have "b2 = b0"
    using db_wf_D(1) [OF assms(3)] nb(2,3) b0 subsetD [OF assms(4) b0(1)]
    by (intro distinct_map_inject [of blk_address "t_block d1"]) (simp_all add: block_table_wf_def)
  with b0 have "(p, blk_number b2) \<in> stored_numbers d"
    by (auto simp: stored_numbers_def)
  with run nb(4,5) show ?thesis by auto
qed

lemma round_result:
  assumes "plan_ok E" and "db_wf d"
    and "blocks_growing (before_next R)" and "blocks_growing (before_validate R)"
    and "blocks_growing (before_outcome R)"
  shows "\<exists>res d'. validate_next_block E C R creg preg d = Some (res, d') \<and> db_wf d' \<and>
    (get_validation_progress E d' = get_validation_progress E d \<and> res \<noteq> Ok True \<or>
     (\<exists>a n b g. get_validation_progress E d = Ok (Some a) \<and> (a, n) \<in> stored_numbers d \<and>
        sint (number (header b)) = sint n + 1 \<and>
        validate E C (validate_faults R) (before_validate R (before_next R d)) creg preg b = Ok (Valid g) \<and>
        get_validation_progress E d' = Ok (Some (content_addr_block E b)) \<and>
        (res = Ok True \<longrightarrow> (\<exists>x \<in> finalized_chain d'. sint (number (header b)) < sint (fst x)))))"
proof -
  let ?d1 = "before_next R d"
  let ?d2 = "before_validate R ?d1"
  let ?d3 = "before_outcome R ?d2"
  note g1 = blocks_growingD [OF assms(3,2)]
  note g2 = blocks_growingD [OF assms(4) g1(1)]
  note g3 = blocks_growingD [OF assms(5) g2(1)]
  note p1 = progress_grow [OF assms(1,2) g1]
  note p2 = progress_grow [OF assms(1) g1(1) g2]
  note p3 = progress_grow [OF assms(1) g2(1) g3]
  have stay: ?thesis
    if "validate_next_block E C R creg preg d = Some (res, d')" "db_wf d'"
      "run_GET_VALIDATION_PROGRESS E d' = run_GET_VALIDATION_PROGRESS E d" "res \<noteq> Ok True" for res d'
    using that by (simp add: get_validation_progress_def)
  show ?thesis
  proof (cases rule: round_cases [of E C R creg preg d])
    case (early x res)
    with assms(2) g1(1) g2(1) p1 p2 show ?thesis
      by (intro stay [OF early(1)]) auto
  next
    case (valid p b g r d')
    note res = record_valid_result [OF assms(1) g3(1) valid(4)]
    show ?thesis
    proof (cases "d' = ?d3 \<and> r \<noteq> Ok True")
      case True
      with g3(1) p1 p2 p3 show ?thesis
        by (intro stay [OF valid(5)] map_err_Ok_neq) simp_all
    next
      case False
      with res have new: "db_wf d'" "run_GET_VALIDATION_PROGRESS E d' = Some (content_addr_block E b)"
        "r = Ok True \<longrightarrow> (\<exists>x \<in> finalized_chain d'. sint (number (header b)) < sint (fst x))"
        by blast+
      have "map_err internal_of_acquire_error r = Ok True \<longrightarrow>
          (\<exists>x \<in> finalized_chain d'. sint (number (header b)) < sint (fst x))"
        using new(3) by (cases r) simp_all
      with valid(3,5) new(1,2) next_of_progress [OF assms(1,2) g1(1,2) valid(1,2)] show ?thesis
        unfolding get_validation_progress_def by blast
    qed
  next
    case (invalid p b f ix r d')
    note res = record_failed_result [OF g3(1) invalid(4)]
    have "run_GET_VALIDATION_PROGRESS E d' = run_GET_VALIDATION_PROGRESS E ?d3"
      using res by (intro progress_grow [OF assms(1) g3(1)]) simp_all
    with res p1 p2 p3 show ?thesis
      by (intro stay [OF invalid(5)] map_err_Ok_neq) simp_all
  qed
qed

text \<open>What the two closures may write: the progress row, or one row of the failed blocks.\<close>

lemma record_valid_writes:
  assumes "db_wf d" and "record_valid E A a n d = (r, d')"
  shows "d' = d \<and> r \<noteq> Ok True \<or>
    (\<exists>x \<in> set (t_block d). blk_address x = a \<and> d' = d\<lparr>t_validation_progress := [\<lparr>vp_id = 1, vp_block_id = blk_id x\<rparr>]\<rparr>)"
proof -
  have "d' = d \<and> r \<noteq> Ok True \<or> INSERT_VALIDATION_PROGRESS a d = Ok d'"
    using assms(2) by (auto simp: record_valid_def acquire_then_def update_validation_progress_def of_stmt_def
        split: if_splits sum.splits)
  then show ?thesis
    using INSERT_VALIDATION_PROGRESS_Ok [OF assms(1)] by metis
qed

lemma record_failed_writes:
  assumes "db_wf d" and "record_failed A a ca d = (r, d')"
  shows "d' = d \<or> (\<exists>x \<in> set (t_block d). \<exists>y \<in> set (t_solution_set d). blk_address x = a \<and> ss_addr y = ca \<and>
    d' = d\<lparr>t_failed_block := insert_or_ignore (\<lambda>r. r) \<lparr>fail_block_id = blk_id x, fail_set_id = ss_id y\<rparr> (t_failed_block d)\<rparr>)"
proof -
  have "d' = d \<or> d' = INSERT_FAILED_BLOCK a ca d"
    using assms(2) by (auto simp: record_failed_def acquire_then_def insert_failed_block_def of_stmt_def
        split: if_splits sum.splits)
  then show ?thesis
    using block_id_of_Some [OF db_wf_D(1) [OF assms(1)]] set_id_of_Some [OF db_wf_D(2) [OF assms(1)]]
    by (auto simp: INSERT_FAILED_BLOCK_def split: option.splits)
qed

text \<open>The databases that a round meets as the other tasks write between its accesses.\<close>

abbreviation at_validate :: "round \<Rightarrow> db \<Rightarrow> db" where
  "at_validate R d \<equiv> before_validate R (before_next R d)"

abbreviation after_validate :: "round \<Rightarrow> db \<Rightarrow> db" where
  "after_validate R d \<equiv> before_outcome R (at_validate R d)"

lemma round_states:
  assumes "plan_ok E" and "db_wf d"
    and "blocks_growing (before_next R)" and "blocks_growing (before_validate R)"
    and "blocks_growing (before_outcome R)"
  shows "db_wf (before_next R d)" "db_wf (at_validate R d)" "db_wf (after_validate R d)"
    "get_validation_progress E (before_next R d) = get_validation_progress E d"
    "get_validation_progress E (at_validate R d) = get_validation_progress E d"
    "get_validation_progress E (after_validate R d) = get_validation_progress E d"
proof -
  note g1 = blocks_growingD [OF assms(3,2)]
  note g2 = blocks_growingD [OF assms(4) g1(1)]
  note g3 = blocks_growingD [OF assms(5) g2(1)]
  show "db_wf (before_next R d)" "db_wf (at_validate R d)" "db_wf (after_validate R d)"
    by (fact g1(1) g2(1) g3(1))+
  show "get_validation_progress E (before_next R d) = get_validation_progress E d"
    "get_validation_progress E (at_validate R d) = get_validation_progress E d"
    "get_validation_progress E (after_validate R d) = get_validation_progress E d"
    using progress_grow [OF assms(1,2) g1] progress_grow [OF assms(1) g1(1) g2]
      progress_grow [OF assms(1) g2(1) g3] by (simp_all add: get_validation_progress_def)
qed

text \<open>
  C12. Whatever fails and whatever blocks other tasks add meanwhile, a round of the validation does
  not panic, and it writes one of three things.  It writes nothing: the database is what the other
  tasks have left at one of its steps, and it does not ask for another round.  Or it has found the block
  with the number after the progress valid, and replaces the progress row by one for that
  block's address; it asks for another round only if a finalized block is ahead.  Or it has
  found that block invalid, inserts the row of its failing solution set among the failed
  blocks, leaves the progress, and does not ask for another round.
\<close>

theorem validation_round:
  assumes "plan_ok E" and "db_wf d"
    and "blocks_growing (before_next R)" and "blocks_growing (before_validate R)"
    and "blocks_growing (before_outcome R)"
  shows "\<exists>res d'. validate_next_block E C R creg preg d = Some (res, d') \<and> db_wf d' \<and>
    (d' \<in> {d, before_next R d, at_validate R d, after_validate R d} \<and>
       get_validation_progress E d' = get_validation_progress E d \<and> res \<noteq> Ok True \<or>
     (\<exists>a n b. get_validation_progress E d = Ok (Some a) \<and> (a, n) \<in> stored_numbers d \<and>
        sint (number (header b)) = sint n + 1 \<and>
        ((\<exists>g. \<exists>x \<in> set (t_block (after_validate R d)).
            validate E C (validate_faults R) (at_validate R d) creg preg b = Ok (Valid g) \<and>
            blk_address x = content_addr_block E b \<and>
            d' = (after_validate R d)\<lparr>t_validation_progress := [\<lparr>vp_id = 1, vp_block_id = blk_id x\<rparr>]\<rparr> \<and>
            get_validation_progress E d' = Ok (Some (content_addr_block E b)) \<and>
            (res = Ok True \<longrightarrow> (\<exists>x \<in> finalized_chain d'. sint (number (header b)) < sint (fst x)))) \<or>
         (\<exists>f ix. \<exists>x \<in> set (t_block (after_validate R d)). \<exists>y \<in> set (t_solution_set (after_validate R d)).
            validate E C (validate_faults R) (at_validate R d) creg preg b = Ok (Invalid f ix) \<and>
            blk_address x = content_addr_block E b \<and>
            ss_addr y = content_addr_solution_set E (solution_sets b ! ix) \<and>
            d' = (after_validate R d)\<lparr>t_failed_block := insert_or_ignore (\<lambda>r. r)
              \<lparr>fail_block_id = blk_id x, fail_set_id = ss_id y\<rparr> (t_failed_block (after_validate R d))\<rparr> \<and>
            get_validation_progress E d' = get_validation_progress E d \<and> res \<noteq> Ok True))))"
proof (cases rule: round_cases [of E C R creg preg d])
  case (early x res)
  with round_states [OF assms] assms(2) show ?thesis by auto
next
  case (valid p b g r d')
  note st = round_states [OF assms]
  note res = record_valid_result [OF assms(1) st(3) valid(4)] record_valid_writes [OF st(3) valid(4)]
  have nx: "get_validation_progress E d = Ok (Some p)" "\<exists>n. (p, n) \<in> stored_numbers d \<and> sint (number (header b)) = sint n + 1"
    using next_of_progress [OF assms(1,2) st(1) blocks_growingD(2) [OF assms(3,2)] valid(1,2)]
    by (auto simp: get_validation_progress_def)
  show ?thesis
  proof (cases "d' = after_validate R d \<and> r \<noteq> Ok True")
    case True
    with valid(5) st show ?thesis by (auto intro: map_err_Ok_neq)
  next
    case False
    then obtain x where x: "x \<in> set (t_block (after_validate R d))" "blk_address x = content_addr_block E b"
      "d' = (after_validate R d)\<lparr>t_validation_progress := [\<lparr>vp_id = 1, vp_block_id = blk_id x\<rparr>]\<rparr>"
      using res(2) by blast
    from False res(1) have "db_wf d'" "get_validation_progress E d' = Ok (Some (content_addr_block E b))"
      "r = Ok True \<longrightarrow> (\<exists>x \<in> finalized_chain d'. sint (number (header b)) < sint (fst x))"
      by (auto simp: get_validation_progress_def)
    moreover have "map_err internal_of_acquire_error r = Ok True \<longrightarrow> r = Ok True"
      by (cases r) simp_all
    ultimately show ?thesis
      using valid(3,5) nx x by blast
  qed
next
  case (invalid p b f ix r d')
  note st = round_states [OF assms]
  note res = record_failed_result [OF st(3) invalid(4)] record_failed_writes [OF st(3) invalid(4)]
  have nx: "get_validation_progress E d = Ok (Some p)" "\<exists>n. (p, n) \<in> stored_numbers d \<and> sint (number (header b)) = sint n + 1"
    using next_of_progress [OF assms(1,2) st(1) blocks_growingD(2) [OF assms(3,2)] invalid(1,2)]
    by (auto simp: get_validation_progress_def)
  have p: "get_validation_progress E d' = get_validation_progress E d"
    using st(6) progress_grow [OF assms(1) st(3)] res(1) by (simp add: get_validation_progress_def)
  have r: "map_err internal_of_acquire_error r \<noteq> Ok True"
    using res(1) by (intro map_err_Ok_neq) simp
  from res(2) show ?thesis
  proof (elim disjE bexE conjE)
    assume "d' = after_validate R d"
    with invalid(5) p r st(3) show ?thesis by auto
  next
    fix x y
    assume "x \<in> set (t_block (after_validate R d))" "y \<in> set (t_solution_set (after_validate R d))"
      "blk_address x = content_addr_block E b" "ss_addr y = content_addr_solution_set E (solution_sets b ! ix)"
      "d' = (after_validate R d)\<lparr>t_failed_block := insert_or_ignore (\<lambda>r. r)
         \<lparr>fail_block_id = blk_id x, fail_set_id = ss_id y\<rparr> (t_failed_block (after_validate R d))\<rparr>"
    with invalid(3,5) p r nx res(1) show ?thesis by blast
  qed
qed

section \<open>An invalid block is recorded\<close>

definition quiet_round :: round where
  "quiet_round = \<lparr>at_progress = undisturbed, at_next = undisturbed, at_outcome = undisturbed,
     validate_faults = no_faults, before_next = id, before_validate = id, before_outcome = id\<rparr>"

lemma quiet_round_simps [simp]:
  "at_progress quiet_round = undisturbed" "at_next quiet_round = undisturbed"
  "at_outcome quiet_round = undisturbed" "validate_faults quiet_round = no_faults"
  "before_next quiet_round d = d" "before_validate quiet_round d = d" "before_outcome quiet_round d = d"
  by (simp_all add: quiet_round_def)

lemma acquire_then_undisturbed [simp]:
  "acquire_then undisturbed f d = (map_err Inner (fst (f d)), snd (f d))"
  by (simp add: acquire_then_def undisturbed_def case_prod_beta)

lemma undisturbed_simps [simp]: "begun undisturbed = Ok ()" "committed undisturbed = Ok ()"
  by (simp_all add: undisturbed_def)

lemma get_last_progress_quiet:
  "get_last_progress E undisturbed d = Ok (run_GET_VALIDATION_PROGRESS E d)"
  by (simp add: get_last_progress_def pool_get_validation_progress_def reading_def get_validation_progress_def)

lemma failed_block_listed:
  assumes "plan_ok E" and "db_wf d" and "(a, n) \<in> stored_numbers d" and "ca \<in> ss_addr ` set (t_solution_set d)"
    and "sint lo \<le> sint n" and "sint n < sint hi"
  shows "(n, ca) \<in> set (run_LIST_FAILED_BLOCKS E (INSERT_FAILED_BLOCK a ca d) lo hi)"
proof -
  obtain b where b: "b \<in> set (t_block d)" "blk_address b = a" "blk_number b = n"
    using assms(3) by (auto simp: stored_numbers_def)
  obtain ss where ss: "ss \<in> set (t_solution_set d)" "ss_addr ss = ca"
    using assms(4) by blast
  have ids: "block_id_of d a = Some (blk_id b)" "set_id_of d ca = Some (ss_id ss)"
    using b ss by (auto simp: block_id_of_Some [OF db_wf_D(1) [OF assms(2)]] set_id_of_Some [OF db_wf_D(2) [OF assms(2)]])
  let ?d = "INSERT_FAILED_BLOCK a ca d"
  have "\<lparr>fail_block_id = blk_id b, fail_set_id = ss_id ss\<rparr> \<in> set (t_failed_block ?d)"
    by (auto simp: INSERT_FAILED_BLOCK_def ids insert_or_ignore_def)
  moreover have "t_block ?d = t_block d" "t_solution_set ?d = t_solution_set d"
    by (simp_all add: INSERT_FAILED_BLOCK_def ids)
  ultimately have row: "(b, ss) \<in> set [(b, ss). f \<leftarrow> t_failed_block ?d, b \<leftarrow> t_block ?d, fail_block_id f = blk_id b,
      ss \<leftarrow> t_solution_set ?d, fail_set_id f = ss_id ss, number_in_range lo hi b]"
    using b ss assms(5,6) by (force simp: number_in_range_def)
  show ?thesis
    unfolding run_LIST_FAILED_BLOCKS_def set_map set_order_by [OF assms(1)]
    by (rule image_eqI [OF _ row]) (simp add: b ss)
qed

text \<open>
  C35. When the next block is invalid, the round records its failed solution set, so that it is
  listed among the failed blocks, leaves the progress, and does not ask for another block.
\<close>

theorem invalid_block_recorded:
  assumes "plan_ok E" and "db_wf d" and "get_validation_progress E d = Ok (Some p)"
    and "get_next_block E undisturbed p d = Ok (Some b)"
    and "validate E C no_faults d creg preg b = Ok (Invalid f ix)"
    and "(content_addr_block E b, n) \<in> stored_numbers d"
    and "content_addr_solution_set E (solution_sets b ! ix) \<in> ss_addr ` set (t_solution_set d)"
    and "sint lo \<le> sint n" and "sint n < sint hi"
  shows "\<exists>d' rows. validate_next_block E C quiet_round creg preg d = Some (Ok False, d') \<and>
    get_validation_progress E d' = get_validation_progress E d \<and>
    list_failed_blocks E d' lo hi = Ok rows \<and>
    (n, content_addr_solution_set E (solution_sets b ! ix)) \<in> set rows"
proof -
  let ?ca = "content_addr_solution_set E (solution_sets b ! ix)"
  let ?d = "INSERT_FAILED_BLOCK (content_addr_block E b) ?ca d"
  have "validate_next_block E C quiet_round creg preg d = Some (Ok False, ?d)"
    using assms(3-5) validate_index [OF assms(5)]
    by (simp add: validate_next_block_def get_last_progress_quiet get_validation_progress_def Let_def
        record_failed_def insert_failed_block_def of_stmt_def)
  moreover have "get_validation_progress E ?d = get_validation_progress E d"
    using progress_grow [OF assms(1,2) INSERT_FAILED_BLOCK_wf [OF assms(2)]] by (simp add: get_validation_progress_def)
  ultimately show ?thesis
    using failed_block_listed [OF assms(1,2,6,7,8,9)] unfolding list_failed_blocks_def by blast
qed

section \<open>Reaching the head of the chain\<close>

definition with_progress :: "db \<Rightarrow> block_row \<Rightarrow> db" where
  "with_progress d r = d\<lparr>t_validation_progress := [\<lparr>vp_id = 1, vp_block_id = blk_id r\<rparr>]\<rparr>"

lemma with_progress_simps [simp]:
  "t_block (with_progress d r) = t_block d" "finalized_chain (with_progress d r) = finalized_chain d"
  "with_progress (with_progress d r) r' = with_progress d r'"
  by (simp_all add: with_progress_def finalized_chain_def)

lemma with_progress_wf: "db_wf d \<Longrightarrow> r \<in> set (t_block d) \<Longrightarrow> db_wf (with_progress d r)"
  by (auto simp: db_wf_def with_progress_def progress_wf_def)

lemma run_progress_with:
  assumes "plan_ok E" and "db_wf d" and "r \<in> set (t_block d)"
  shows "run_GET_VALIDATION_PROGRESS E (with_progress d r) = Some (blk_address r)"
  unfolding progress_rows [OF assms(1) with_progress_wf [OF assms(2,3)]]
  using assms(3) by (auto simp: with_progress_def)

lemma next_address_unique:
  assumes "plan_ok E" and "block_table_wf d" and "r0 \<in> set (t_block d)" and "r \<in> set (t_block d)"
    and "\<forall>x \<in> set (t_block d). sint (blk_number x) = sint (blk_number r0) + 1 \<longleftrightarrow> x = r"
  shows "get_next_block_addresses E d (blk_address r0) = Ok [blk_address r]"
proof -
  have d: "distinct (map blk_address (t_block d))"
    using assms(2) by (simp add: block_table_wf_def)
  have inner: "concat (map (\<lambda>b2. if sint (blk_number b1) = sint (blk_number b2) + 1 \<and> blk_address b2 = blk_address r0
      then [blk_address b1] else []) (t_block d)) = (if b1 = r then [blk_address b1] else [])"
    if "b1 \<in> set (t_block d)" for b1
  proof -
    have "concat (map (\<lambda>b2. if sint (blk_number b1) = sint (blk_number b2) + 1 \<and> blk_address b2 = blk_address r0
        then [blk_address b1] else []) (t_block d)) =
      concat (map (\<lambda>b2. if blk_address b2 = blk_address r0
        then if sint (blk_number b1) = sint (blk_number b2) + 1 then [blk_address b1] else [] else []) (t_block d))"
      by (intro arg_cong [where f = concat] map_cong) auto
    also have "\<dots> = (if sint (blk_number b1) = sint (blk_number r0) + 1 then [blk_address b1] else [])"
      by (rule concat_map_unique [OF d assms(3)])
    finally show ?thesis
      using assms(5) that by simp
  qed
  have "[blk_address b1. b1 \<leftarrow> t_block d, b2 \<leftarrow> t_block d,
      sint (blk_number b1) = sint (blk_number b2) + 1 \<and> blk_address b2 = blk_address r0] =
    concat (map (\<lambda>b1. if b1 = r then [blk_address b1] else []) (t_block d))"
    using inner by (intro arg_cong [where f = concat] map_cong) auto
  also have "\<dots> = [blk_address r]"
    using concat_map_unique [of id "t_block d" r] d assms(4) by (simp add: distinct_map)
  finally show ?thesis
    by (simp add: get_next_block_addresses_def run_GET_NEXT_BLOCK_ADDRESSES_def assms(1))
qed

lemma no_next_address:
  assumes "plan_ok E" and "\<forall>x \<in> set (t_block d). sint (blk_number x) \<noteq> sint (blk_number r0) + 1"
    and "block_table_wf d" and "r0 \<in> set (t_block d)"
  shows "get_next_block_addresses E d (blk_address r0) = Ok []"
proof -
  have "x \<notin> set (run_GET_NEXT_BLOCK_ADDRESSES E d (blk_address r0))" for x
    using assms(2-4) unfolding run_GET_NEXT_BLOCK_ADDRESSES_def set_scan [OF assms(1)]
    by (auto simp: block_table_wf_def dest: distinct_map_inject)
  then show ?thesis
    by (simp add: get_next_block_addresses_def) (metis list.set_intros(1) neq_Nil_conv)
qed

text \<open>The stored row can be read, has its own address, and holds a valid block, whatever the progress.\<close>

definition row_valid ::
  "node_ext \<Rightarrow> 'pe checker \<Rightarrow> ContentAddress \<Rightarrow> ContentAddress \<Rightarrow> db \<Rightarrow> block_row \<Rightarrow> bool" where
  "row_valid E C creg preg d r \<longleftrightarrow>
     (\<forall>p \<in> set (t_block d). \<exists>b g. get_block E (with_progress d p) (blk_address r) = Ok (Some b) \<and>
        content_addr_block E b = blk_address r \<and>
        validate E C no_faults (with_progress d p) creg preg b = Ok (Valid g))"

lemma reads_valid_iff:
  "(\<exists>b g. x = Ok (Some b) \<and> P b \<and> v b = Ok (Valid g)) \<longleftrightarrow>
     (case x of
        Inr (Some b) \<Rightarrow> P b \<and> (case v b of Inr (Valid _) \<Rightarrow> True | _ \<Rightarrow> False)
      | _ \<Rightarrow> False)"
proof (cases "\<exists>b. x = Ok (Some b)")
  case True
  then obtain b where b: "x = Ok (Some b)" by blast
  have "(\<exists>g. v b = Ok (Valid g)) \<longleftrightarrow> (case v b of Inr (Valid _) \<Rightarrow> True | _ \<Rightarrow> False)"
    by (simp split: sum.split ValidateOutcome.split)
  then show ?thesis by (simp add: b)
qed (auto split: sum.split option.split)

lemma row_valid_code [code]:
  "row_valid E C creg preg d r \<longleftrightarrow>
     (\<forall>p \<in> set (t_block d).
        case get_block E (with_progress d p) (blk_address r) of
          Inr (Some b) \<Rightarrow> content_addr_block E b = blk_address r \<and>
            (case validate E C no_faults (with_progress d p) creg preg b of Inr (Valid _) \<Rightarrow> True | _ \<Rightarrow> False)
        | _ \<Rightarrow> False)"
  unfolding row_valid_def reads_valid_iff ..

lemma more_blocks_left_iff:
  assumes "plan_ok E" and "db_wf d"
  shows "more_blocks_left E n d = Ok (\<exists>x \<in> finalized_chain d. sint n < sint (fst x))"
proof (cases "get_latest_finalized_block_address E d")
  case (Inr a)
  show ?thesis
  proof (cases a)
    case None
    with Inr latest_finalized_head [OF assms] show ?thesis
      by (simp add: more_blocks_left_def)
  next
    case (Some a')
    with Inr latest_finalized_head [OF assms] obtain h where h: "get_block_header E d a' = Ok (Some h)"
      "(number h, a') \<in> finalized_chain d" "\<forall>x \<in> finalized_chain d. sint (fst x) \<le> sint (number h)"
      by auto
    have "sint n < sint (number h) \<longleftrightarrow> (\<exists>x \<in> finalized_chain d. sint n < sint (fst x))"
      using h(2,3) by force
    with Inr Some h(1) show ?thesis
      by (simp add: more_blocks_left_def)
  qed
qed (use latest_finalized_head [OF assms] in simp)

lemma quiet_round_step:
  assumes "plan_ok E" and "db_wf d" and "r0 \<in> set (t_block d)" and "r \<in> set (t_block d)"
    and "\<forall>x \<in> set (t_block d). sint (blk_number x) = sint (blk_number r0) + 1 \<longleftrightarrow> x = r"
    and "row_valid E C creg preg d r"
  shows "validate_next_block E C quiet_round creg preg (with_progress d r0) =
    Some (Ok (\<exists>x \<in> finalized_chain d. sint (blk_number r) < sint (fst x)), with_progress d r)"
proof -
  let ?d = "with_progress d r0"
  have wf: "db_wf ?d" by (rule with_progress_wf [OF assms(2,3)])
  note wf1 = db_wf_D(1) [OF wf]
  obtain b g where b: "get_block E ?d (blk_address r) = Ok (Some b)" "content_addr_block E b = blk_address r"
    "validate E C no_faults ?d creg preg b = Ok (Valid g)"
    using assms(3,6) unfolding row_valid_def by blast
  have n: "number (header b) = blk_number r"
    using assms(4) by (intro get_block_header_number [OF assms(1) wf1 _ b(1)]) simp
  have next_addr: "get_next_block_addresses E ?d (blk_address r0) = Ok [blk_address r]"
    using assms(3-5) by (intro next_address_unique [OF assms(1) wf1]) simp_all
  have "get_next_block E undisturbed (blk_address r0) ?d = Ok (Some b)"
    by (simp add: get_next_block_def reading_def next_block_query_def next_addr b(1))
  moreover have "update_validation_progress (blk_address r) ?d = (Ok (), with_progress d r)"
    using assms(4) block_id_of_Some [OF wf1, of "blk_address r" "blk_id r"]
    by (auto simp: update_validation_progress_def of_stmt_def INSERT_VALIDATION_PROGRESS_def with_progress_def)
  moreover have "more_blocks_left E (blk_number r) (with_progress d r) =
      Ok (\<exists>x \<in> finalized_chain d. sint (blk_number r) < sint (fst x))"
    by (simp add: more_blocks_left_iff [OF assms(1) with_progress_wf [OF assms(2,4)]])
  ultimately show ?thesis
    using run_progress_with [OF assms(1-3)] b(2,3)
    by (simp add: validate_next_block_def get_last_progress_quiet Let_def record_valid_def n)
qed

text \<open>
  When the stored blocks behind the progress form a chain up to the latest finalized block
  and each is valid, the stream validates all of them, one a round, without waiting for a
  notification, and waits (here: until the sender of the notifications is dropped) only when
  its progress is the head of the chain.
\<close>

lemma chain_validated:
  assumes "plan_ok E" and "db_wf d" and "r0 \<in> set (t_block d)" and "rs \<noteq> []" and "set rs \<subseteq> set (t_block d)"
    and "\<forall>i < length rs. \<forall>x \<in> set (t_block d).
      sint (blk_number x) = sint (blk_number r0) + 1 + int i \<longleftrightarrow> x = rs ! i"
    and "\<forall>r \<in> set rs. row_valid E C creg preg d r"
    and "(blk_number (last rs), blk_address (last rs)) \<in> finalized_chain d"
    and "\<forall>x \<in> finalized_chain d. sint (fst x) \<le> sint (blk_number (last rs))"
  shows "validation_stream E C creg preg (replicate (length rs) (quiet_round, SenderDropped)) (with_progress d r0) =
    (TaskEnded (Ok ()), with_progress d (last rs))"
  using assms(3-9)
proof (induction rs arbitrary: r0)
  case (Cons r rs)
  have r: "r \<in> set (t_block d)" "\<forall>x \<in> set (t_block d). sint (blk_number x) = sint (blk_number r0) + 1 \<longleftrightarrow> x = r"
    "row_valid E C creg preg d r"
    using Cons.prems(3,4,5) by (auto dest: spec [of _ 0])
  have n: "sint (blk_number r) = sint (blk_number r0) + 1"
    using r(1,2) by blast
  note step = quiet_round_step [OF assms(1,2) Cons.prems(1) r]
  show ?case
  proof (cases "rs = []")
    case True
    then have "\<not> (\<exists>x \<in> finalized_chain d. sint (blk_number r) < sint (fst x))"
      using Cons.prems(7) by auto
    with True step show ?thesis by simp
  next
    case False
    have lst: "last (r # rs) = last rs" using False by simp
    have shifted: "\<forall>i < length rs. \<forall>x \<in> set (t_block d).
        sint (blk_number x) = sint (blk_number r) + 1 + int i \<longleftrightarrow> x = rs ! i"
    proof (intro allI impI)
      fix i
      assume "i < length rs"
      with Cons.prems(4) [THEN spec, of "Suc i"]
      show "\<forall>x \<in> set (t_block d). sint (blk_number x) = sint (blk_number r) + 1 + int i \<longleftrightarrow> x = rs ! i"
        by (simp add: n algebra_simps)
    qed
    have "last rs \<in> set (t_block d)"
      using False Cons.prems(3) by auto
    then have "sint (blk_number (last rs)) = sint (blk_number r) + int (length rs)"
      using False shifted [THEN spec, of "length rs - 1"] by (simp add: last_conv_nth of_nat_diff Suc_le_eq)
    with False Cons.prems(6) have "\<exists>x \<in> finalized_chain d. sint (blk_number r) < sint (fst x)"
      unfolding lst by force
    with step have go: "validate_next_block E C quiet_round creg preg (with_progress d r0) =
        Some (Ok True, with_progress d r)"
      by simp
    have "validation_stream E C creg preg (replicate (length rs) (quiet_round, SenderDropped)) (with_progress d r) =
        (TaskEnded (Ok ()), with_progress d (last rs))"
      by (rule Cons.IH [OF r(1) False _ shifted]) (use Cons.prems lst in auto)
    with go lst show ?thesis by simp
  qed
qed simp

section \<open>A sample chain\<close>

text \<open>
  Three finalized blocks, each with one solution set without solutions, under hashes that are the
  number of a block and a constant.
\<close>

definition chain_ext :: node_ext where
  "chain_ext = sample_ext\<lparr>hash_block_parts := (\<lambda>(n, t, cas). ucast n),
     content_addr_solution_set := (\<lambda>s. ContentAddress 7)\<rparr>"

definition plain_block :: "Word \<Rightarrow> Block" where
  "plain_block n = \<lparr>header = \<lparr>number = n, timestamp = Duration 10 5\<rparr>, solution_sets = [\<lparr>solutions = []\<rparr>]\<rparr>"

definition chain_row :: "nat \<Rightarrow> block_row" where
  "chain_row i = \<lparr>blk_id = i, blk_address = ContentAddress (word_of_nat i), blk_parent_id = 0,
     blk_number = word_of_nat i, blk_secs = 10, blk_nanos = 5\<rparr>"

definition sample_chain :: db where
  "sample_chain = create_tables\<lparr>t_block := map chain_row [1, 2, 3],
     t_solution_set := [\<lparr>ss_id = 1, ss_addr = ContentAddress 7\<rparr>],
     t_block_solution_set := map (\<lambda>i. \<lparr>bss_block_id = i, bss_set_id = 1, bss_index = 0\<rparr>) [1, 2, 3],
     t_finalized_block := map (\<lambda>i. \<lparr>fin_number = word_of_nat i, fin_block_id = i\<rparr>) [1, 2, 3]\<rparr>"

lemma chain_plan_ok: "plan_ok chain_ext"
  using sample_plan_ok by (simp add: plan_ok_def chain_ext_def)

lemma sample_chain_wf: "db_wf sample_chain"
  by (simp add: db_wf_defs sample_chain_def create_tables_def chain_row_def)

lemma sample_chain_rows:
  "chain_row 1 \<in> set (t_block sample_chain)" "chain_row 2 \<in> set (t_block sample_chain)"
  "chain_row 3 \<in> set (t_block sample_chain)"
  by (simp_all add: sample_chain_def)

lemma blocks_growing_id: "blocks_growing (\<lambda>d. d)"
  by (simp add: blocks_growing_def)

lemma validation_round_witness:
  "\<exists>b g. sint (number (header b)) = 2 \<and>
     validate chain_ext sample_checker no_faults (with_progress sample_chain (chain_row 1))
       sample_contract sample_contract b = Ok (Valid g)"
proof -
  let ?d = "with_progress sample_chain (chain_row 1)"
  have "case validate_next_block chain_ext sample_checker quiet_round sample_contract sample_contract ?d of
      Some (Inr True, _) \<Rightarrow> True | _ \<Rightarrow> False"
    by code_simp
  then obtain d' where round: "validate_next_block chain_ext sample_checker quiet_round
      sample_contract sample_contract ?d = Some (Ok True, d')"
    by (auto split: option.splits sum.splits prod.splits bool.splits)
  have one: "\<forall>x \<in> stored_numbers ?d. get_validation_progress chain_ext ?d = Ok (Some (fst x)) \<longrightarrow> sint (snd x) = 1"
    by code_simp
  have others: "blocks_growing (before_next quiet_round)" "blocks_growing (before_validate quiet_round)"
    "blocks_growing (before_outcome quiet_round)"
    by (simp_all add: quiet_round_def id_def blocks_growing_id)
  have wf: "db_wf ?d"
    using sample_chain_rows by (intro with_progress_wf sample_chain_wf) simp
  from validation_round [OF chain_plan_ok wf others, of sample_checker sample_contract sample_contract] round
  obtain a n b g where "get_validation_progress chain_ext ?d = Ok (Some a)" "(a, n) \<in> stored_numbers ?d"
    "sint (number (header b)) = sint n + 1"
    "validate chain_ext sample_checker no_faults ?d sample_contract sample_contract b = Ok (Valid g)"
    by auto
  with one show ?thesis by fastforce
qed

definition failing_checker :: "unit checker" where
  "failing_checker = sample_checker\<lparr>check_set_predicates := (\<lambda>_ _ _ _ _. Err ())\<rparr>"

lemma invalid_block_recorded_witness:
  "\<exists>d' rows. validate_next_block chain_ext failing_checker quiet_round sample_contract sample_contract
       (with_progress sample_chain (chain_row 1)) = Some (Ok False, d') \<and>
     list_failed_blocks chain_ext d' 0 9 = Ok rows \<and>
     (2, content_addr_solution_set chain_ext \<lparr>solutions = []\<rparr>) \<in> set rows"
proof -
  let ?d = "with_progress sample_chain (chain_row 1)" and ?b = "plain_block 2"
  have wf: "db_wf ?d"
    using sample_chain_rows by (intro with_progress_wf sample_chain_wf) simp
  have p: "get_validation_progress chain_ext ?d = Ok (Some (blk_address (chain_row 1)))"
    by code_simp
  have "case get_next_block chain_ext undisturbed (blk_address (chain_row 1)) ?d of
      Inr (Some b) \<Rightarrow> b = ?b | _ \<Rightarrow> False"
    by code_simp
  then have b: "get_next_block chain_ext undisturbed (blk_address (chain_row 1)) ?d = Ok (Some ?b)"
    by (auto split: sum.splits option.splits)
  have "case validate chain_ext failing_checker no_faults ?d sample_contract sample_contract ?b of
      Inr (Invalid (PredicatesError u) ix) \<Rightarrow> ix = 0 | _ \<Rightarrow> False"
    by code_simp
  then have v: "validate chain_ext failing_checker no_faults ?d sample_contract sample_contract ?b =
      Ok (Invalid (PredicatesError ()) 0)"
    by (auto split: sum.splits ValidateOutcome.splits ValidateFailure.splits)
  have s: "(content_addr_block chain_ext ?b, 2) \<in> stored_numbers ?d"
    "content_addr_solution_set chain_ext (solution_sets ?b ! 0) \<in> ss_addr ` set (t_solution_set ?d)"
    by code_simp+
  show ?thesis
    using invalid_block_recorded [OF chain_plan_ok wf p b v s, of 0 9] by (auto simp: plain_block_def)
qed

end
