(* ===== verification/Node.thy ===== *)
theory Node
  imports ValidationLaws Listing
begin

text \<open>
  The start and the end of the node: \<open>node/src/lib.rs\<close> (the big bang block and the
  streams) and \<open>node/src/handles/node.rs\<close>.
\<close>

section \<open>The big bang block\<close>

text \<open>The accesses of \<open>ensure_big_bang_block\<close>, in order; nothing else writes meanwhile.\<close>

record start_accesses =
  list_access :: access
  insert_access :: access
  read_access :: access
  update_access :: access

definition ensure_first_block ::
  "node_ext \<Rightarrow> start_accesses \<Rightarrow> Block \<Rightarrow> db \<Rightarrow> (BigBangError + unit) \<times> db" where
  "ensure_first_block E A bb_block d =
     (let bb_block_ca = content_addr_block E bb_block in
      case fst (pool_list_blocks E (list_access A) 0 1 d) of
        Inl e \<Rightarrow> (Err (BB_ListBlocks e), d)
      | Inr [] \<Rightarrow>
          (case acquire_then (insert_access A)
              (with_tx (begun (insert_access A)) (committed (insert_access A)) id (insert_finalize E bb_block)) d of
             (r, d') \<Rightarrow> (map_err BB_InsertBlock r, d'))
      | Inr (block # _) \<Rightarrow>
          let ca = content_addr_block E block in
          (if ca \<noteq> bb_block_ca then Err (BB_UnexpectedBlock bb_block_ca ca) else Ok (), d))"

definition ensure_big_bang_block ::
  "node_ext \<Rightarrow> start_accesses \<Rightarrow> BigBang \<Rightarrow> db \<Rightarrow> (BigBangError + ContentAddress) \<times> db" where
  "ensure_big_bang_block E A big_bang d =
     (let bb_block = big_bang_block big_bang; bb_block_ca = content_addr_block E bb_block in
      case ensure_first_block E A bb_block d of
        (Inl e, d1) \<Rightarrow> (Err e, d1)
      | (Inr _, d1) \<Rightarrow>
          (case fst (pool_get_validation_progress E (read_access A) d1) of
             Inl e \<Rightarrow> (Err (BB_ListBlocks e), d1)
           | Inr (Some _) \<Rightarrow> (Ok bb_block_ca, d1)
           | Inr None \<Rightarrow>
               (case pool_update_validation_progress (update_access A) bb_block_ca d1 of
                  (Inl e, d2) \<Rightarrow> (Err (BB_InsertBlock e), d2)
                | (Inr _, d2) \<Rightarrow> (Ok bb_block_ca, d2))))"

section \<open>The streams\<close>

record RunConfig =
  relayer_source_endpoint :: "string option"
  run_validation :: bool

text \<open>
  The handle holds the channels that close the streams.  Each is made by
  \<open>watch::channel(())\<close>, with its receiver in the task of the stream.
\<close>

definition close_channel :: watch where
  "close_channel = \<lparr>version = 0, senders = 1, seen = [(0, 0)], next_id = 1\<rparr>"

record NodeHandle =
  relayer_handle :: "watch option"
  validation_handle :: "watch option"

text \<open>
  \<open>run\<close>: the relayer holds a clone of the sender of the notifications and the validation a
  listener; the sender that \<open>run\<close> was given is dropped when it returns.
\<close>

definition run ::
  "(string \<Rightarrow> bool) \<Rightarrow> bool \<Rightarrow> RunConfig \<Rightarrow> watch \<Rightarrow> (CriticalError + NodeHandle) \<times> watch" where
  "run url_parses client_builds conf block_notify =
     (case (case relayer_source_endpoint conf of
              None \<Rightarrow> Ok (None, block_notify)
            | Some endpoint \<Rightarrow>
                bind_result (map_err CE_Relayer (relayer_new (url_parses endpoint) client_builds))
                  (\<lambda>_. Ok (Some close_channel, clone_tx block_notify))) of
        Inl e \<Rightarrow> (Err e, drop_tx block_notify)
      | Inr (rel, w) \<Rightarrow>
          (if run_validation conf
           then (Ok \<lparr>relayer_handle = rel, validation_handle = Some close_channel\<rparr>, drop_tx (snd (new_listener w)))
           else (Ok \<lparr>relayer_handle = rel, validation_handle = None\<rparr>, drop_tx w)))"

section \<open>The handle\<close>

type_synonym 'e joined_task = "watch \<Rightarrow> JoinError + ('e + unit)"

text \<open>Dropping the handle of a stream sends on its channel.\<close>

definition drop_stream :: "watch option \<Rightarrow> watch option" where
  "drop_stream = map_option close_blocks"

definition close_stream ::
  "('e joined_task \<Rightarrow> watch \<Rightarrow> ('e + unit) option \<times> watch) \<Rightarrow> 'e joined_task \<Rightarrow> watch option \<Rightarrow>
   ('e + unit) option \<times> watch option" where
  "close_stream op join h =
     (case h of
        None \<Rightarrow> (Some (Ok ()), None)
      | Some w \<Rightarrow> (case op join w of (r, w') \<Rightarrow> (r, Some w')))"

definition close ::
  "RelayerError joined_task \<Rightarrow> CriticalError joined_task \<Rightarrow> NodeHandle \<Rightarrow> (CriticalError + unit) option \<times> NodeHandle" where
  "close relayer_task validation_task h =
     (case close_stream handle_close relayer_task (relayer_handle h) of
        (Some (Inr _), rel) \<Rightarrow>
          (case close_stream validation_close validation_task (validation_handle h) of
             (r, val) \<Rightarrow> (r, \<lparr>relayer_handle = rel, validation_handle = val\<rparr>))
      | (r, rel) \<Rightarrow>
          (map_option (map_err CE_Relayer) r,
           \<lparr>relayer_handle = rel, validation_handle = drop_stream (validation_handle h)\<rparr>))"

text \<open>
  \<open>join\<close> polls both streams and returns early on an error; which of them ends first is an
  argument.  The other one is then dropped.
\<close>

definition join ::
  "bool \<Rightarrow> RelayerError joined_task \<Rightarrow> CriticalError joined_task \<Rightarrow> NodeHandle \<Rightarrow>
   (NodeHandleJoinError + unit) option \<times> NodeHandle" where
  "join relayer_first relayer_task validation_task h =
     (let (r, rel) = close_stream handle_join relayer_task (relayer_handle h);
          (v, val) = close_stream validation_join validation_task (validation_handle h);
          r = map_option (map_err JE_Relayer) r; v = map_option (map_err JE_Validation) v
      in if relayer_first
         then (if r = Some (Ok ()) then (v, \<lparr>relayer_handle = rel, validation_handle = val\<rparr>)
               else (r, \<lparr>relayer_handle = rel, validation_handle = drop_stream (validation_handle h)\<rparr>))
         else (if v = Some (Ok ()) then (r, \<lparr>relayer_handle = rel, validation_handle = val\<rparr>)
               else (v, \<lparr>relayer_handle = drop_stream (relayer_handle h), validation_handle = val\<rparr>)))"

section \<open>Reading the first block\<close>

lemma set_id_of_frames [simp]:
  "set_id_of (d\<lparr>t_finalized_block := x\<rparr>) = set_id_of d"
  "set_id_of (d\<lparr>t_validation_progress := y\<rparr>) = set_id_of d"
  by (rule ext, simp add: set_id_of_def)+

lemma stored_frame [simp]:
  "block_stored (d\<lparr>t_finalized_block := x\<rparr>) = block_stored d"
  "block_stored (d\<lparr>t_validation_progress := y\<rparr>) = block_stored d"
  "set_stored E (d\<lparr>t_finalized_block := x\<rparr>) = set_stored E d"
  "set_stored E (d\<lparr>t_validation_progress := y\<rparr>) = set_stored E d"
  by (simp_all add: block_stored_def set_stored_def block_links_def fun_eq_iff)

lemma get_stored_block:
  assumes "db_wf d" and "plan_ok E" and "codec_ok E"
    and "block_stored d r (header b) (map (content_addr_solution_set E) (solution_sets b))"
    and "\<forall>s \<in> set (solution_sets b). set_stored E d (content_addr_solution_set E s) s"
    and "solution_sets b \<noteq> []"
  shows "get_block E d (blk_address r) = Ok (Some (block_as_scanned E d b))"
proof -
  have "map (get_solution_set E d) (map (content_addr_solution_set E) (solution_sets b)) =
      map Ok (solution_sets (block_as_scanned E d b))"
    using get_solution_set_stored [OF db_wf_D(2) [OF assms(1)] assms(2,3)] assms(5)
    by (simp add: block_as_scanned_def)
  then show ?thesis
    using assms(6) by (simp add: get_block_stored [OF assms(1,2,4)] collect_results_map_Ok block_as_scanned_def
        del: map_map)
qed

lemma list_blocks_none:
  assumes "db_wf d" and "plan_ok E" and "filter (number_in_range lo hi) (t_block d) = []"
  shows "list_blocks E d lo hi = Ok []"
proof -
  have "blocks_linked d (number_in_range lo hi)"
    using assms(3) by (auto simp: blocks_linked_def filter_empty_conv)
  from list_blocks_listed [OF assms(1,2) this] assms(3) show ?thesis
    by (simp add: listed_def)
qed

lemma list_blocks_one:
  assumes "db_wf d" and "plan_ok E" and "filter (number_in_range lo hi) (t_block d) = [r]"
    and "block_stored d r h cas" and "cas \<noteq> []" and "get_block E d (blk_address r) = Ok (Some b)"
  shows "list_blocks E d lo hi = Ok [b]"
proof -
  have only: "x = r" if "x \<in> set (t_block d)" "number_in_range lo hi x" for x
    using arg_cong [OF assms(3), of set] that by auto
  have "blocks_linked d (number_in_range lo hi)"
    unfolding blocks_linked_def by (intro ballI impI, drule (1) only, use assms(4,5) in blast)
  from list_blocks_listed [OF assms(1,2) this] obtain bs
    where bs: "list_blocks E d lo hi = Ok bs" "map (\<lambda>b. Ok (Some b)) bs = [get_block E d (blk_address r)]"
    by (auto simp: listed_def assms(3))
  from bs(2) have "bs = [b]"
    unfolding assms(6) by (cases bs) simp_all
  with bs(1) show ?thesis by simp
qed

section \<open>The start of the chain\<close>

definition quiet_start :: start_accesses where
  "quiet_start = \<lparr>list_access = undisturbed, insert_access = undisturbed, read_access = undisturbed,
     update_access = undisturbed\<rparr>"

lemma quiet_start_simps [simp]:
  "list_access quiet_start = undisturbed" "insert_access quiet_start = undisturbed"
  "read_access quiet_start = undisturbed" "update_access quiet_start = undisturbed"
  by (simp_all add: quiet_start_def)

lemma with_tx_quiet [simp]:
  "fst (with_tx (Ok ()) (Ok ()) f (reading g) d) = g d"
  by (simp add: with_tx_def reading_def split: sum.split)

text \<open>Inserting and finalizing the first block of its number.\<close>

lemma first_block_written:
  assumes wf: "db_wf d" and fresh: "fresh_block E d b"
    and first: "\<forall>r \<in> set (t_block d). blk_number r \<noteq> number (header b)"
  obtains r d' where "insert_finalize E b d = (Ok (), d')" "blk_address r = content_addr_block E b"
    "t_block d' = t_block d @ [r]" "blk_number r = number (header b)"
    "block_stored d' r (header b) (map (content_addr_solution_set E) (solution_sets b))"
    "\<forall>s \<in> set (solution_sets b). set_stored E d' (content_addr_solution_set E s) s"
    "finalized_chain d' = insert (number (header b), content_addr_block E b) (finalized_chain d)"
proof -
  let ?d = "snd (insert_block E b d)"
  obtain r where r: "block_stored ?d r (header b) (map (content_addr_solution_set E) (solution_sets b))"
    "blk_address r = content_addr_block E b" "insert_block E b d = (Ok (content_addr_block E b), ?d)"
    "\<forall>s \<in> set (solution_sets b). set_stored E ?d (content_addr_solution_set E s) s"
    by (rule insert_block_fresh [OF wf fresh], rule that)
  have mem: "r \<in> set (t_block ?d)"
    using r(1) by (simp add: block_stored_def)
  have free: "number (header b) \<notin> fin_number ` set (t_finalized_block d)"
    using first db_wf_D(4) [OF wf] by (fastforce simp: finalized_wf_def)
  obtain d' where fin: "finalize_block (content_addr_block E b) ?d = (Ok (), d')"
    using finalize_inserted [OF wf fresh free] by blast
  have ins: "insert_finalize E b d = (Ok (), d')"
    unfolding insert_finalize_def by (subst r(3)) (simp add: fin)
  note fin' = finalize_block_Ok(2) [OF insert_block_wf [OF wf] fin [folded r(2)] mem]
  have new: "content_addr_block E b \<notin> blk_address ` set (t_block d)"
    using fresh by (simp add: fresh_block_def)
  obtain r0 where r0: "blk_address r0 = content_addr_block E b" "blk_number r0 = number (header b)"
    "t_block ?d = insert_or_ignore blk_address r0 (t_block d)"
    using insert_block_tables [OF r(3)] by metis
  then have tb: "t_block ?d = t_block d @ [r0]"
    using new by (simp add: insert_or_ignore_fresh)
  with mem new r(2) have "r = r0" by force
  moreover have "finalized_chain d' = insert (number (header b), content_addr_block E b) (finalized_chain d)"
    using new by (intro insert_finalize_chain(1) [OF wf ins]) (force simp: stored_numbers_def)
  ultimately show ?thesis
    using that [OF ins r(2)] r r0(2) tb by (simp add: fin')
qed

lemma list_quiet: "fst (pool_list_blocks E undisturbed lo hi d) = map_err Inner (list_blocks E d lo hi)"
  by (simp add: pool_list_blocks_def)

lemma ensure_first_quiet:
  "ensure_first_block E quiet_start b d =
     (case list_blocks E d 0 1 of
        Inl e \<Rightarrow> (Err (BB_ListBlocks (Inner e)), d)
      | Inr [] \<Rightarrow> (case with_tx (Ok ()) (Ok ()) id (insert_finalize E b) d of
           (r, d') \<Rightarrow> (map_err BB_InsertBlock (map_err Inner r), d'))
      | Inr (b' # _) \<Rightarrow> (if content_addr_block E b' \<noteq> content_addr_block E b
           then Err (BB_UnexpectedBlock (content_addr_block E b) (content_addr_block E b')) else Ok (), d))"
  by (simp add: ensure_first_block_def list_quiet Let_def split: sum.split list.split prod.split)

lemma ensure_quiet:
  "ensure_big_bang_block E quiet_start bb d =
     (case ensure_first_block E quiet_start (big_bang_block bb) d of
        (Inl e, d1) \<Rightarrow> (Err e, d1)
      | (Inr _, d1) \<Rightarrow>
          (case run_GET_VALIDATION_PROGRESS E d1 of
             Some _ \<Rightarrow> (Ok (content_addr_block E (big_bang_block bb)), d1)
           | None \<Rightarrow>
               (case update_validation_progress (content_addr_block E (big_bang_block bb)) d1 of
                  (Inl e, d2) \<Rightarrow> (Err (BB_InsertBlock (Inner e)), d2)
                | (Inr _, d2) \<Rightarrow> (Ok (content_addr_block E (big_bang_block bb)), d2))))"
proof -
  obtain r1 d1 where 1: "ensure_first_block E quiet_start (big_bang_block bb) d = (r1, d1)"
    by fastforce
  obtain r2 d2 where 2: "update_validation_progress (content_addr_block E (big_bang_block bb)) d1 = (r2, d2)"
    by fastforce
  show ?thesis
    using 1 2 by (cases r1; cases r2) (simp_all add: ensure_big_bang_block_def Let_def reading_def
      pool_get_validation_progress_def get_validation_progress_def pool_update_validation_progress_def
      split: option.split)
qed

lemma update_progress_row:
  assumes "db_wf d" and "r \<in> set (t_block d)"
  shows "update_validation_progress (blk_address r) d = (Ok (), with_progress d r)"
proof -
  have "block_id_of d (blk_address r) = Some (blk_id r)"
    using assms(2) block_id_of_Some [OF db_wf_D(1) [OF assms(1)]] by blast
  moreover have "filter (\<lambda>v. vp_id v \<noteq> 1) (t_validation_progress d) = []"
    using db_wf_D(7) [OF assms(1)] by (auto simp: progress_wf_def)
  ultimately show ?thesis
    by (simp add: update_validation_progress_def of_stmt_def INSERT_VALIDATION_PROGRESS_def with_progress_def)
qed

text \<open>
  A database that holds one block of number 0, and has a progress, is left alone; the result depends
  on the address of that block as it is read back.
\<close>

lemma ensure_again:
  assumes "list_blocks E d 0 1 = Ok [b]" and "run_GET_VALIDATION_PROGRESS E d \<noteq> None"
    and "ca = content_addr_block E (big_bang_block bb)"
  shows "ensure_big_bang_block E quiet_start bb d =
    (if content_addr_block E b = ca then Ok ca else Err (BB_UnexpectedBlock ca (content_addr_block E b)), d)"
  using assms by (auto simp: ensure_quiet ensure_first_quiet split: option.split)

lemma first_start:
  assumes "db_wf d" and "plan_ok E" and "codec_ok E"
    and "fresh_block E d (big_bang_block bb)" and "\<forall>r \<in> set (t_block d). blk_number r \<noteq> 0"
  shows "\<exists>d' b'. let ca = content_addr_block E (big_bang_block bb) in
    ensure_big_bang_block E quiet_start bb d = (Ok ca, d') \<and>
    finalized_chain d' = insert (0, ca) (finalized_chain d) \<and>
    get_validation_progress E d' =
      Ok (Some (case run_GET_VALIDATION_PROGRESS E d of None \<Rightarrow> ca | Some progress \<Rightarrow> progress)) \<and>
    get_block E d' ca = Ok (Some b') \<and> header b' = header (big_bang_block bb) \<and>
    list_all2 (\<lambda>s' s. list_all2 solution_perm (solutions s') (solutions s))
      (solution_sets b') (solution_sets (big_bang_block bb)) \<and>
    ensure_big_bang_block E quiet_start bb d' =
      (if content_addr_block E b' = ca then Ok ca else Err (BB_UnexpectedBlock ca (content_addr_block E b')), d')"
proof -
  let ?b = "big_bang_block bb" and ?ca = "content_addr_block E (big_bang_block bb)"
  have n: "number (header ?b) = 0" and ne: "solution_sets ?b \<noteq> []"
    by (simp_all add: big_bang_block_def)
  obtain r d1 where w: "insert_finalize E ?b d = (Ok (), d1)" "blk_address r = ?ca"
    "t_block d1 = t_block d @ [r]" "blk_number r = 0"
    "block_stored d1 r (header ?b) (map (content_addr_solution_set E) (solution_sets ?b))"
    "\<forall>s \<in> set (solution_sets ?b). set_stored E d1 (content_addr_solution_set E s) s"
    "finalized_chain d1 = insert (0, ?ca) (finalized_chain d)"
    using first_block_written [OF assms(1,4)] assms(5) unfolding n by metis
  have wf1: "db_wf d1"
    using insert_finalize_wf [OF assms(1), of E ?b] w(1) by simp
  have zero: "number_in_range 0 1 x \<longleftrightarrow> blk_number x = 0" for x
  proof
    assume "number_in_range 0 1 x"
    then have "sint (blk_number x) = sint (0 :: Word)"
      by (simp add: number_in_range_def)
    then show "blk_number x = 0"
      by (rule signed_word_eqI)
  qed (simp add: number_in_range_def)
  have "list_blocks E d 0 1 = Ok []"
    using assms(5) by (intro list_blocks_none [OF assms(1,2)]) (simp add: zero filter_empty_conv)
  then have first: "ensure_first_block E quiet_start ?b d = (Ok (), d1)"
    by (simp add: ensure_first_quiet with_tx_def w(1))
  have only: "filter (number_in_range 0 1) (t_block d1) = [r]"
    using assms(5) w(3,4) by (simp add: zero filter_empty_conv)
  have same: "run_GET_VALIDATION_PROGRESS E d1 = run_GET_VALIDATION_PROGRESS E d"
    using blocks_growingD [OF write_block_growing [of E undisturbed ?b] assms(1)] w(1)
    by (intro progress_grow [OF assms(2,1) wf1]) (simp_all add: write_block_def with_tx_def)
  have again: ?thesis
    if wf': "db_wf d'" and start: "ensure_big_bang_block E quiet_start bb d = (Ok ?ca, d')"
      and frame: "t_block d' = t_block d1" "block_stored d' = block_stored d1" "set_stored E d' = set_stored E d1"
        "finalized_chain d' = finalized_chain d1"
      and progress: "run_GET_VALIDATION_PROGRESS E d' =
        Some (case run_GET_VALIDATION_PROGRESS E d of None \<Rightarrow> ?ca | Some progress \<Rightarrow> progress)" for d'
  proof -
    have get: "get_block E d' (blk_address r) = Ok (Some (block_as_scanned E d' ?b))"
      using w(5,6) ne by (intro get_stored_block [OF wf' assms(2,3)]) (simp_all add: frame)
    then have "list_blocks E d' 0 1 = Ok [block_as_scanned E d' ?b]"
      using only w(5) ne by (intro list_blocks_one [OF wf' assms(2)]) (auto simp: frame)
    from ensure_again [OF this _ refl, of bb] start get frame(4) progress w(2,7)
      block_as_scanned_perm [OF assms(2), of d' ?b]
    show ?thesis
      by (intro exI [of _ d'] exI [of _ "block_as_scanned E d' ?b"]) (simp add: get_validation_progress_def)
  qed
  show ?thesis
  proof (cases "run_GET_VALIDATION_PROGRESS E d")
    case None
    have r: "r \<in> set (t_block d1)" using w(3) by simp
    from update_progress_row [OF wf1 r] first same None
    have "ensure_big_bang_block E quiet_start bb d = (Ok ?ca, with_progress d1 r)"
      by (simp add: ensure_quiet w(2))
    with None show ?thesis
      using run_progress_with [OF assms(2) wf1 r] w(2)
      by (intro again [OF with_progress_wf [OF wf1 r]]) (simp_all add: with_progress_def finalized_chain_def)
  next
    case (Some p)
    with first same have "ensure_big_bang_block E quiet_start bb d = (Ok ?ca, d1)"
      by (simp add: ensure_quiet)
    with Some same show ?thesis
      by (intro again [OF wf1]) simp_all
  qed
qed

text \<open>
  C14. On a database without a block of number 0, and without faults, the node writes and finalizes
  the big bang block and starts the validation there unless it has begun.  The block is read back
  with its header and solution sets, the mutations and predicate data of each solution in whatever
  order the database returns them.  A second start changes nothing, and succeeds exactly when the block as it is read back
  has the address of the big bang block; otherwise it reports the other address as unexpected.
\<close>

theorem big_bang_ensured:
  assumes "db_wf d" and "plan_ok E" and "codec_ok E"
    and "fresh_block E d (big_bang_block bb)" and "\<forall>r \<in> set (t_block d). blk_number r \<noteq> 0"
  shows "\<exists>d' b'. let ca = content_addr_block E (big_bang_block bb) in
    ensure_big_bang_block E quiet_start bb d = (Ok ca, d') \<and>
    finalized_chain d' = insert (0, ca) (finalized_chain d) \<and>
    get_validation_progress E d' =
      Ok (Some (case run_GET_VALIDATION_PROGRESS E d of None \<Rightarrow> ca | Some progress \<Rightarrow> progress)) \<and>
    get_block E d' ca = Ok (Some b') \<and> header b' = header (big_bang_block bb) \<and>
    list_all2 (\<lambda>s' s. list_all2 solution_perm (solutions s') (solutions s))
      (solution_sets b') (solution_sets (big_bang_block bb)) \<and>
    ensure_big_bang_block E quiet_start bb d' =
      (if content_addr_block E b' = ca then Ok ca else Err (BB_UnexpectedBlock ca (content_addr_block E b')), d')"
  by (rule first_start [OF assms])

text \<open>What the first step has done, whatever the accesses answer.\<close>

lemma ensure_first_result:
  assumes "db_wf d" and "\<forall>n. (content_addr_block E b, n) \<in> stored_numbers d \<longrightarrow> n = number (header b)"
    and "ensure_first_block E A b d = (r, d')"
  shows "db_wf d' \<and> set (t_block d) \<subseteq> set (t_block d') \<and> t_validation_progress d' = t_validation_progress d \<and>
    (r = Ok () \<and> finalized_chain d' = insert (number (header b), content_addr_block E b) (finalized_chain d) \<or>
     d' = d \<and> (r = Ok () \<longrightarrow>
       (\<exists>b' bs. list_blocks E d 0 1 = Ok (b' # bs) \<and> content_addr_block E b' = content_addr_block E b)))"
proof (cases "fst (pool_list_blocks E (list_access A) 0 1 d) = Ok []")
  case True
  let ?A = "insert_access A"
  obtain r1 where r1: "write_block E ?A b d = (r1, d')" "r = map_err BB_InsertBlock r1"
    using assms(3) True by (auto simp: ensure_first_block_def write_block_def Let_def split: prod.splits)
  have "insert_finalize E b d = (Ok (), d') \<and> r1 = Ok () \<or> d' = d \<and> r1 \<noteq> Ok ()"
    using r1(1) by (auto simp: write_block_def acquire_then_def with_tx_def split: sum.splits prod.splits if_splits)
  with r1 blocks_growingD [OF write_block_growing [of E ?A b] assms(1)] insert_finalize_chain(1) [OF assms(1) _ assms(2)]
  show ?thesis by auto
next
  case False
  have list: "list_blocks E d 0 1 = Ok bs" if "fst (pool_list_blocks E (list_access A) 0 1 d) = Ok bs" for bs
    using that
    by (auto simp: pool_list_blocks_def acquire_then_def with_tx_def reading_def split: if_splits sum.splits prod.splits)
  from False assms(3) have "d' = d \<and> (r = Ok () \<longrightarrow> (\<exists>b' bs.
      fst (pool_list_blocks E (list_access A) 0 1 d) = Ok (b' # bs) \<and> content_addr_block E b' = content_addr_block E b))"
    by (auto simp: ensure_first_block_def Let_def split: sum.splits list.splits if_splits)
  with assms(1) list show ?thesis by blast
qed

text \<open>What the steps after it do.\<close>

lemma ensure_rest_result:
  assumes "plan_ok E" and "db_wf d1" and "ensure_big_bang_block E A bb d = (r, d')"
    and "ensure_first_block E A (big_bang_block bb) d = (r1, d1)"
  shows "d' = d1 \<and> (\<forall>a. r = Ok a \<longrightarrow> a = content_addr_block E (big_bang_block bb) \<and> r1 = Ok () \<and>
      run_GET_VALIDATION_PROGRESS E d1 \<noteq> None) \<or>
    r = Ok (content_addr_block E (big_bang_block bb)) \<and> r1 = Ok () \<and> run_GET_VALIDATION_PROGRESS E d1 = None \<and>
    run_GET_VALIDATION_PROGRESS E d' = Some (content_addr_block E (big_bang_block bb)) \<and>
    finalized_chain d' = finalized_chain d1 \<and> t_block d' = t_block d1 \<and> db_wf d'"
proof -
  let ?ca = "content_addr_block E (big_bang_block bb)"
  have read: "run_GET_VALIDATION_PROGRESS E d1 = p" if "fst (pool_get_validation_progress E A' d1) = Ok p" for A' p
    using that by (auto simp: pool_get_validation_progress_def get_validation_progress_def acquire_then_def
        reading_def split: if_splits)
  have update: "d2 = d1 \<and> u \<noteq> Ok () \<or> u = Ok () \<and> (\<exists>row \<in> set (t_block d1). blk_address row = ?ca \<and> d2 = with_progress d1 row)"
    if "pool_update_validation_progress (update_access A) ?ca d1 = (u, d2)" for u d2
  proof -
    have "d2 = d1 \<and> u \<noteq> Ok () \<or> u = Ok () \<and> INSERT_VALIDATION_PROGRESS ?ca d1 = Ok d2"
      using that by (auto simp: pool_update_validation_progress_def acquire_then_def update_validation_progress_def
          of_stmt_def split: if_splits sum.splits)
    with INSERT_VALIDATION_PROGRESS_Ok [OF assms(2)] show ?thesis
      unfolding with_progress_def by metis
  qed
  show ?thesis
  proof (cases "r1 = Ok () \<and> fst (pool_get_validation_progress E (read_access A) d1) = Ok None")
    case True
    obtain u d2 where u: "pool_update_validation_progress (update_access A) ?ca d1 = (u, d2)" by fastforce
    have "d' = d2 \<and> (case u of Inl e \<Rightarrow> r = Err (BB_InsertBlock e) | Inr _ \<Rightarrow> r = Ok ?ca)"
      using True assms(3,4) u by (auto simp: ensure_big_bang_block_def Let_def split: sum.splits)
    with True update [OF u] read [of "read_access A" None] run_progress_with [OF assms(1,2)]
      with_progress_wf [OF assms(2)] show ?thesis
      by (auto split: sum.splits)
  next
    case False
    with assms(3,4) read show ?thesis
      by (auto simp: ensure_big_bang_block_def Let_def split: sum.splits option.splits)
  qed
qed

text \<open>
  Whatever the accesses answer, starting the node adds at most the big bang block to the
  finalized chain and never moves a progress that exists.  When it succeeds, the big bang block
  is finalized or was stored first at number 0, and there is a progress; when it fails, the
  progress is as it was.
\<close>

theorem start_only_adds_big_bang:
  assumes "db_wf d" and "plan_ok E"
    and "\<forall>n. (content_addr_block E (big_bang_block bb), n) \<in> stored_numbers d \<longrightarrow> n = 0"
    and "ensure_big_bang_block E A bb d = (r, d')"
  shows "let ca = content_addr_block E (big_bang_block bb); progress = run_GET_VALIDATION_PROGRESS E in
    finalized_chain d' \<in> {finalized_chain d, insert (0, ca) (finalized_chain d)} \<and>
    (progress d \<noteq> None \<longrightarrow> progress d' = progress d) \<and>
    (case r of
       Inl e \<Rightarrow> progress d' = progress d
     | Inr a \<Rightarrow> a = ca \<and> progress d' \<noteq> None \<and>
         ((0, ca) \<in> finalized_chain d' \<or>
          (\<exists>b bs. list_blocks E d 0 1 = Ok (b # bs) \<and> content_addr_block E b = ca)))"
proof -
  let ?b = "big_bang_block bb" and ?p = "run_GET_VALIDATION_PROGRESS E"
  have n: "number (header ?b) = 0" by (simp add: big_bang_block_def)
  obtain r1 d1 where 1: "ensure_first_block E A ?b d = (r1, d1)" by fastforce
  note first = ensure_first_result [OF assms(1) assms(3) [folded n] 1, unfolded n]
  then have p1: "?p d1 = ?p d"
    using progress_grow [OF assms(2,1)] by blast
  have wf1: "db_wf d1" using first by blast
  from ensure_rest_result [OF assms(2) wf1 assms(4) 1] show ?thesis
  proof (rule disjE)
    assume same: "d' = d1 \<and> (\<forall>a. r = Ok a \<longrightarrow> a = content_addr_block E ?b \<and> r1 = Ok () \<and> ?p d1 \<noteq> None)"
    with first p1 show ?thesis
      by (cases r) (auto simp: Let_def)
  next
    assume "r = Ok (content_addr_block E ?b) \<and> r1 = Ok () \<and> ?p d1 = None \<and>
      ?p d' = Some (content_addr_block E ?b) \<and> finalized_chain d' = finalized_chain d1 \<and> t_block d' = t_block d1 \<and> db_wf d'"
    with first p1 show ?thesis
      by (auto simp: Let_def)
  qed
qed

definition sample_big_bang :: BigBang where
  "sample_big_bang =
     \<lparr>block_state = \<lparr>contract = ContentAddress 1, predicate = ContentAddress 2\<rparr>,
      contract_registry = \<lparr>contract = ContentAddress 3, predicate = ContentAddress 4\<rparr>,
      program_registry = \<lparr>contract = ContentAddress 5, predicate = ContentAddress 6\<rparr>,
      bb_solution_set = sample_set [(1, 2)]\<rparr>"

lemma sample_big_bang_fresh: "fresh_block sample_ext create_tables (big_bang_block sample_big_bang)"
  by (simp add: fresh_block_def create_tables_def big_bang_block_def duration_ok_def fits_i64_def from_secs_def)

lemma create_tables_empty [simp]:
  "t_block create_tables = []" "finalized_chain create_tables = {}" "stored_numbers create_tables = {}"
  "run_GET_VALIDATION_PROGRESS sample_ext create_tables = None"
  using no_progress_rows [OF sample_plan_ok, of create_tables]
  by (simp_all add: create_tables_def finalized_chain_def stored_numbers_def)

lemma sample_start:
  "\<exists>d'. ensure_big_bang_block sample_ext quiet_start sample_big_bang create_tables =
    (Ok (content_addr_block sample_ext (big_bang_block sample_big_bang)), d')"
  using first_start [OF create_tables_wf sample_plan_ok sample_codec_ok sample_big_bang_fresh]
  by (auto simp: Let_def)

lemma big_bang_ensured_witness:
  "\<exists>d' b'. let ca = content_addr_block sample_ext (big_bang_block sample_big_bang) in
    ensure_big_bang_block sample_ext quiet_start sample_big_bang create_tables = (Ok ca, d') \<and>
    finalized_chain d' = {(0, ca)} \<and> get_validation_progress sample_ext d' = Ok (Some ca) \<and>
    get_block sample_ext d' ca = Ok (Some b') \<and>
    ensure_big_bang_block sample_ext quiet_start sample_big_bang d' =
      (if content_addr_block sample_ext b' = ca then Ok ca
       else Err (BB_UnexpectedBlock ca (content_addr_block sample_ext b')), d')"
  using big_bang_ensured [OF create_tables_wf sample_plan_ok sample_codec_ok sample_big_bang_fresh]
  by (auto simp: Let_def)

lemma start_only_adds_big_bang_witness:
  "finalized_chain (snd (ensure_big_bang_block sample_ext quiet_start sample_big_bang create_tables)) \<subseteq>
    {(0, content_addr_block sample_ext (big_bang_block sample_big_bang))}"
proof -
  obtain r d' where r: "ensure_big_bang_block sample_ext quiet_start sample_big_bang create_tables = (r, d')"
    by fastforce
  show ?thesis
    using start_only_adds_big_bang [OF create_tables_wf sample_plan_ok _ r] by (auto simp: r Let_def)
qed

section \<open>Closing and joining\<close>

text \<open>The channel of a stream that is still running has been sent on.\<close>

definition signalled :: "watch option \<Rightarrow> watch option \<Rightarrow> bool" where
  "signalled h h' \<longleftrightarrow>
     (case h of None \<Rightarrow> h' = None
      | Some w \<Rightarrow> (\<exists>w'. h' = Some w' \<and> (seen w \<noteq> [] \<longrightarrow> version w < version w')))"

lemma close_blocks_signals: "seen w \<noteq> [] \<Longrightarrow> version (close_blocks w) = Suc (version w) \<and> seen (close_blocks w) = seen w"
  by (simp add: close_blocks_def watch_send_def)

lemma stream_signalled:
  "signalled h (drop_stream h)"
  "signalled h (snd (close_stream handle_close rt h))" "signalled h (snd (close_stream validation_close vt h))"
  "signalled h (snd (close_stream handle_join rt h))" "signalled h (snd (close_stream validation_join vt h))"
  by (cases h; simp add: signalled_def drop_stream_def close_stream_def handle_close_def validation_close_def
      handle_join_def validation_join_def Let_def close_blocks_signals split: option.split)+

text \<open>How the task of a stream ends, when there is one.\<close>

definition stream_end :: "'e joined_task \<Rightarrow> watch option \<Rightarrow> ('e + unit) option" where
  "stream_end task h = (case h of None \<Rightarrow> Some (Ok ()) | Some w \<Rightarrow> flatten_result (task w))"

lemma stream_results:
  "fst (close_stream handle_close rt h) = stream_end (\<lambda>w. rt (close_blocks w)) h"
  "fst (close_stream validation_close vt h) = stream_end (\<lambda>w. vt (close_blocks w)) h"
  "fst (close_stream handle_join rt h) = stream_end rt h"
  "fst (close_stream validation_join vt h) = stream_end vt h"
  by (simp_all add: stream_end_def close_stream_def handle_close_def validation_close_def handle_join_def
      validation_join_def Let_def split: option.split)

lemma stream_end_cases:
  fixes x :: "('e + unit) option"
  obtains (panic) "x = None" | (good) "x = Some (Ok ())" | (bad) e where "x = Some (Err e)"
  by (cases x; cases "the x"; force)

text \<open>
  C36. However the streams end, in error, by cancellation or by a panic, closing or joining the
  node signals both to close.  Closing reports the error of the relayer, or that of the validation when the
  relayer ends well, and panics for the same stream that it would report.  Joining
  reports the stream that ends first, unless that ends well: then the other one.  Both succeed
  exactly when both streams that run end well.
\<close>

theorem handle_ends_streams:
  fixes h :: NodeHandle
  shows
  "signalled (relayer_handle h) (relayer_handle (snd (close rt vt h))) \<and>
   signalled (validation_handle h) (validation_handle (snd (close rt vt h))) \<and>
   signalled (relayer_handle h) (relayer_handle (snd (join first rt vt h))) \<and>
   signalled (validation_handle h) (validation_handle (snd (join first rt vt h))) \<and>
   (let r = stream_end (\<lambda>w. rt (close_blocks w)) (relayer_handle h);
        v = stream_end (\<lambda>w. vt (close_blocks w)) (validation_handle h)
    in (fst (close rt vt h) = Some (Ok ()) \<longleftrightarrow> r = Some (Ok ()) \<and> v = Some (Ok ())) \<and>
       (\<forall>e. fst (close rt vt h) = Some (Err e) \<longleftrightarrow>
          (\<exists>e'. e = CE_Relayer e' \<and> r = Some (Err e')) \<or> r = Some (Ok ()) \<and> v = Some (Err e)) \<and>
       (fst (close rt vt h) = None \<longleftrightarrow> r = None \<or> r = Some (Ok ()) \<and> v = None)) \<and>
   (let r = stream_end rt (relayer_handle h); v = stream_end vt (validation_handle h)
    in (fst (join first rt vt h) = Some (Ok ()) \<longleftrightarrow> r = Some (Ok ()) \<and> v = Some (Ok ())) \<and>
       (\<forall>e. fst (join True rt vt h) = Some (Err e) \<longleftrightarrow>
          (\<exists>e'. e = JE_Relayer e' \<and> r = Some (Err e')) \<or>
          (\<exists>e'. e = JE_Validation e' \<and> r = Some (Ok ()) \<and> v = Some (Err e'))) \<and>
       (fst (join True rt vt h) = None \<longleftrightarrow> r = None \<or> r = Some (Ok ()) \<and> v = None) \<and>
       (\<forall>e. fst (join False rt vt h) = Some (Err e) \<longleftrightarrow>
          (\<exists>e'. e = JE_Validation e' \<and> v = Some (Err e')) \<or>
          (\<exists>e'. e = JE_Relayer e' \<and> v = Some (Ok ()) \<and> r = Some (Err e'))) \<and>
       (fst (join False rt vt h) = None \<longleftrightarrow> v = None \<or> v = Some (Ok ()) \<and> r = None))"
proof -
  obtain r rel where rc: "close_stream handle_close rt (relayer_handle h) = (r, rel)" by fastforce
  obtain v val where vc: "close_stream validation_close vt (validation_handle h) = (v, val)" by fastforce
  obtain r' rel' where rj: "close_stream handle_join rt (relayer_handle h) = (r', rel')" by fastforce
  obtain v' val' where vj: "close_stream validation_join vt (validation_handle h) = (v', val')" by fastforce
  note sig = stream_signalled(1) stream_signalled(2) [of "relayer_handle h" rt, unfolded rc]
    stream_signalled(3) [of "validation_handle h" vt, unfolded vc]
    stream_signalled(4) [of "relayer_handle h" rt, unfolded rj]
    stream_signalled(5) [of "validation_handle h" vt, unfolded vj]
  note res = stream_results(1) [of rt "relayer_handle h", unfolded rc fst_conv, symmetric]
    stream_results(2) [of vt "validation_handle h", unfolded vc fst_conv, symmetric]
    stream_results(3) [of rt "relayer_handle h", unfolded rj fst_conv, symmetric]
    stream_results(4) [of vt "validation_handle h", unfolded vj fst_conv, symmetric]
  have 1: "fst (close rt vt h) = (if r = Some (Ok ()) then v else map_option (map_err CE_Relayer) r)"
    by (simp add: close_def rc vc split: option.split sum.split)
  have 2: "fst (join f rt vt h) =
      (let e = map_option (map_err JE_Relayer) r'; g = map_option (map_err JE_Validation) v'
       in if f then (if e = Some (Ok ()) then g else e) else (if g = Some (Ok ()) then e else g))" for f
    by (simp add: join_def rj vj Let_def)
  have "signalled (relayer_handle h) (relayer_handle (snd (close rt vt h)))"
    "signalled (validation_handle h) (validation_handle (snd (close rt vt h)))"
    "signalled (relayer_handle h) (relayer_handle (snd (join first rt vt h)))"
    "signalled (validation_handle h) (validation_handle (snd (join first rt vt h)))"
    using sig by (simp_all add: close_def join_def rc vc rj vj Let_def split: option.splits sum.splits)
  moreover have "(fst (close rt vt h) = Some (Ok ()) \<longleftrightarrow> r = Some (Ok ()) \<and> v = Some (Ok ())) \<and>
      (\<forall>e. fst (close rt vt h) = Some (Err e) \<longleftrightarrow>
        (\<exists>e'. e = CE_Relayer e' \<and> r = Some (Err e')) \<or> r = Some (Ok ()) \<and> v = Some (Err e)) \<and>
      (fst (close rt vt h) = None \<longleftrightarrow> r = None \<or> r = Some (Ok ()) \<and> v = None)"
    unfolding 1 by (cases r rule: stream_end_cases; cases v rule: stream_end_cases) auto
  moreover have "(fst (join first rt vt h) = Some (Ok ()) \<longleftrightarrow> r' = Some (Ok ()) \<and> v' = Some (Ok ())) \<and>
      (\<forall>e. fst (join True rt vt h) = Some (Err e) \<longleftrightarrow>
        (\<exists>e'. e = JE_Relayer e' \<and> r' = Some (Err e')) \<or>
        (\<exists>e'. e = JE_Validation e' \<and> r' = Some (Ok ()) \<and> v' = Some (Err e'))) \<and>
      (fst (join True rt vt h) = None \<longleftrightarrow> r' = None \<or> r' = Some (Ok ()) \<and> v' = None) \<and>
      (\<forall>e. fst (join False rt vt h) = Some (Err e) \<longleftrightarrow>
        (\<exists>e'. e = JE_Validation e' \<and> v' = Some (Err e')) \<or>
        (\<exists>e'. e = JE_Relayer e' \<and> v' = Some (Ok ()) \<and> r' = Some (Err e'))) \<and>
      (fst (join False rt vt h) = None \<longleftrightarrow> v' = None \<or> v' = Some (Ok ()) \<and> r' = None)"
    unfolding 2 by (cases r' rule: stream_end_cases; cases v' rule: stream_end_cases) (simp_all add: Let_def, auto)
  ultimately show ?thesis
    unfolding res Let_def by blast
qed

end
