(* ===== verification/Subscribe.thy ===== *)
theory Subscribe
  imports DbPool
begin

text \<open>
  \<open>subscribe_blocks\<close> of \<open>node-db/src/lib.rs\<close>: the stream of blocks by number.  Each round of its
  loop acquires a connection, lists the blocks of the current number and, if there is none,
  awaits the next notification; the inputs of the rounds are the argument.
\<close>

section \<open>The stream\<close>

text \<open>
  The input of a round: the database behind the acquired connection (\<open>None\<close> if the source of
  connections is closed), whether the transaction begins, and whether \<open>await_new_block\<close>, if it is
  called, resolves to \<open>Some\<close>.
\<close>

record round_input =
  acquired_db :: "db option"
  tx_begun :: "rusqlite_error + unit"
  woken :: bool

definition list_blocks_by_conn ::
  "node_ext \<Rightarrow> rusqlite_error + unit \<Rightarrow> db \<Rightarrow> Word \<Rightarrow> Word \<Rightarrow> QueryError + Block list" where
  "list_blocks_by_conn E bg d lo hi = bind_result (map_err Rusqlite bg) (\<lambda>_. list_blocks E d lo hi)"

datatype round_outcome = Yield "QueryError + Block" Word | Again | Ended

text \<open>The addition \<open>block_ix + 1\<close> wraps, as in a release build.\<close>

definition subscribe_round :: "node_ext \<Rightarrow> Word \<Rightarrow> round_input \<Rightarrow> round_outcome" where
  "subscribe_round E block_ix i =
     (let next_ix = block_ix + 1 in
      case acquired_db i of
        None \<Rightarrow> Ended
      | Some d \<Rightarrow>
          (case list_blocks_by_conn E (tx_begun i) d block_ix next_ix of
             Inl err \<Rightarrow> Yield (Err err) block_ix
           | Inr vec \<Rightarrow>
               if vec = [] then (if woken i then Again else Ended)
               else Yield (Ok (last vec)) next_ix))"

text \<open>The items of the stream, and the number it continues at unless it has ended.\<close>

fun subscribe_blocks ::
  "node_ext \<Rightarrow> Word \<Rightarrow> round_input list \<Rightarrow> (QueryError + Block) list \<times> Word option" where
  "subscribe_blocks E ix [] = ([], Some ix)"
| "subscribe_blocks E ix (i # inputs) =
     (case subscribe_round E ix i of
        Ended \<Rightarrow> ([], None)
      | Again \<Rightarrow> subscribe_blocks E ix inputs
      | Yield item ix' \<Rightarrow> (case subscribe_blocks E ix' inputs of (items, st) \<Rightarrow> (item # items, st)))"

text \<open>
  \<open>ConnectionPool::subscribe_blocks\<close>: a round acquires from the pool, which yields no connection
  once it is closed, and is woken by the receiver of the notifications.
\<close>

definition acquire_connection :: "access \<Rightarrow> db \<Rightarrow> db option" where
  "acquire_connection A d = (if acquired A then Some d else None)"

definition pool_round_input ::
  "access \<Rightarrow> db \<Rightarrow> changed \<Rightarrow> round_input" where
  "pool_round_input A d c =
     \<lparr>acquired_db = acquire_connection A d, tx_begun = begun A, woken = (c = Changed)\<rparr>"

definition pool_subscribe_blocks ::
  "node_ext \<Rightarrow> Word \<Rightarrow> (access \<times> db \<times> changed) list \<Rightarrow> (QueryError + Block) list \<times> Word option" where
  "pool_subscribe_blocks E start_block rounds =
     subscribe_blocks E start_block (map (\<lambda>(A, d, c). pool_round_input A d c) rounds)"

section \<open>Listed headers\<close>

lemma header_push [simp]: "header (b\<lparr>solution_sets := ss\<rparr>) = header b"
  by simp

lemma headers_push:
  assumes "bs \<noteq> []"
  shows "map header (push_solution_set s bs) = map header bs"
proof -
  have "map header bs = map header (butlast bs @ [last bs])"
    using assms by simp
  then show ?thesis
    by (simp add: push_solution_set_def Let_def)
qed

lemma group_rows_headers:
  assumes "group_rows get l bs rows = Ok bs'" and "l \<noteq> None \<Longrightarrow> bs \<noteq> []" and "b \<in> set bs'"
  shows "header b \<in> header ` set bs \<or> (\<exists>r \<in> set rows. \<exists>a ca. decode_list_row r = Ok (a, header b, ca))"
  using assms
proof (induction rows arbitrary: l bs)
  case (Cons r rows)
  obtain a h ca where d: "decode_list_row r = Ok (a, h, ca)"
    using Cons.prems(1) by (cases "decode_list_row r") auto
  define bs1 where "bs1 = (if l = Some a then bs else bs @ [\<lparr>header = h, solution_sets = []\<rparr>])"
  obtain s where s: "get ca = Ok s"
    and rest: "group_rows get (Some a) (push_solution_set s bs1) rows = Ok bs'"
    using Cons.prems(1) d by (cases "get ca") (auto simp: bs1_def Let_def)
  have ne: "bs1 \<noteq> []"
    using Cons.prems(2) by (auto simp: bs1_def)
  have "header ` set (push_solution_set s bs1) = header ` set bs1"
    using headers_push [OF ne, of s] by (metis set_map)
  moreover have "header ` set bs1 \<subseteq> insert h (header ` set bs)"
    by (auto simp: bs1_def)
  moreover have "push_solution_set s bs1 \<noteq> []"
    by (simp add: push_solution_set_def Let_def)
  ultimately show ?case
    using Cons.IH [OF rest _ Cons.prems(3)] d by (metis (no_types, lifting) insert_iff list.set_intros subsetD)
qed auto

lemma list_blocks_number:
  assumes "plan_ok E" and "list_blocks E d lo hi = Ok bs" and "b \<in> set bs"
  shows "sint lo \<le> sint (number (header b)) \<and> sint (number (header b)) < sint hi"
proof -
  obtain r a ca where r: "r \<in> set (run_LIST_BLOCKS E d lo hi)" "decode_list_row r = Ok (a, header b, ca)"
    using group_rows_headers [OF assms(2) [unfolded list_blocks_def] _ assms(3)] by auto
  from r(1) obtain x where x: "x \<in> set (block_join d (number_in_range lo hi))" "r = list_row_of x"
    unfolding run_LIST_BLOCKS_def set_map set_order_by [OF assms(1)] by blast
  obtain b' l ss where x': "x = (b', l, ss)"
    by (rule prod_cases3)
  from x have "number_in_range lo hi (fst r)"
    unfolding x' by (auto simp: block_join_def list_row_of_def split: if_splits)
  moreover from r(2) have "number (header b) = blk_number (fst r)"
    unfolding decode_list_row_def header_of_row_def bind_result_Ok_iff
    by (metis Header.select_convs(1) Inr_inject Pair_inject)
  ultimately show ?thesis
    by (simp add: number_in_range_def)
qed

section \<open>Properties\<close>

lemma subscribe_round_Ok:
  assumes "plan_ok E" and "subscribe_round E ix i = Yield (Ok b) ix'"
  shows "number (header b) = ix \<and> ix' = ix + 1 \<and> ix \<noteq> i64_max"
proof -
  obtain d where d: "acquired_db i = Some d"
    using assms(2) by (cases "acquired_db i") (auto simp: subscribe_round_def)
  obtain bs where conn: "list_blocks_by_conn E (tx_begun i) d ix (ix + 1) = Ok bs"
    using assms(2) d by (cases "list_blocks_by_conn E (tx_begun i) d ix (ix + 1)")
      (auto simp: subscribe_round_def)
  then have bs: "list_blocks E d ix (ix + 1) = Ok bs"
    by (auto simp: list_blocks_by_conn_def bind_result_Ok_iff)
  have "bs \<noteq> []" "b = last bs" and ix': "ix' = ix + 1"
    using assms(2) d conn by (auto simp: subscribe_round_def split: if_splits)
  then have b: "sint ix \<le> sint (number (header b))" "sint (number (header b)) < sint (ix + 1)"
    using list_blocks_number [OF assms(1) bs, of b] by auto
  have "ix \<noteq> i64_max"
  proof
    assume "ix = i64_max"
    then have "sint (ix + 1) = - (2 ^ 63)"
      by (simp add: i64_max_def)
    with b(2) sint_i64_bounds(1) [of "number (header b)"] show False by linarith
  qed
  with b ix' show ?thesis
    using sint_i64_inc [of ix] sint_i64_inject [of "number (header b)" ix] by simp
qed

lemma subscribe_round_Err: "subscribe_round E ix i = Yield (Err e) ix' \<Longrightarrow> ix' = ix"
  by (auto simp: subscribe_round_def Let_def split: option.splits sum.splits if_splits)

definition ok_blocks :: "(QueryError + Block) list \<Rightarrow> Block list" where
  "ok_blocks items = concat (map (\<lambda>r. case r of Inl _ \<Rightarrow> [] | Inr b \<Rightarrow> [b]) items)"

lemma ok_blocks_simps [simp]:
  "ok_blocks [] = []" "ok_blocks (Inl e # items) = ok_blocks items"
  "ok_blocks (Inr b # items) = b # ok_blocks items"
  by (simp_all add: ok_blocks_def)

lemma subscribed_numbers:
  assumes "plan_ok E" and "subscribe_blocks E start_block inputs = (items, st)"
  shows "map (\<lambda>b. sint (number (header b))) (ok_blocks items) =
      map (\<lambda>i. sint start_block + int i) [0..<length (ok_blocks items)] \<and>
    (case st of None \<Rightarrow> True | Some ix \<Rightarrow> sint ix = sint start_block + int (length (ok_blocks items)))"
  using assms(2)
proof (induction inputs arbitrary: start_block items st)
  case (Cons i inputs)
  show ?case
  proof (cases "subscribe_round E start_block i")
    case (Yield item ix')
    obtain rest where rest: "subscribe_blocks E ix' inputs = (rest, st)" "items = item # rest"
      using Cons.prems Yield by (auto split: prod.splits)
    note IH = Cons.IH [OF rest(1)]
    show ?thesis
    proof (cases item)
      case (Inl e)
      with Yield have "ix' = start_block"
        using subscribe_round_Err by blast
      with IH rest(2) Inl show ?thesis by (simp split: option.splits)
    next
      case (Inr b)
      with Yield have b: "number (header b) = start_block" "ix' = start_block + 1" "start_block \<noteq> i64_max"
        using subscribe_round_Ok [OF assms(1)] by blast+
      let ?n = "length (ok_blocks rest)"
      have "map (\<lambda>i. sint start_block + int i) [0..<Suc ?n] =
          sint start_block # map (\<lambda>i. sint ix' + int i) [0..<?n]"
        unfolding map_upt_Suc b(2) sint_i64_inc [OF b(3)] by simp
      moreover have "sint ix' = sint start_block + 1"
        unfolding b(2) by (rule sint_i64_inc [OF b(3)])
      ultimately show ?thesis
        using IH by (cases st) (simp_all add: Inr rest(2) b(1) del: upt_Suc)
    qed
  qed (use Cons in auto)
qed auto

text \<open>
  C26. However the database changes between the rounds, and whatever errors occur, the blocks a
  subscription yields have consecutive numbers from the start block on: none is skipped, none
  is repeated, and an error is followed by another attempt at the same number.
\<close>

theorem subscription_consecutive:
  assumes "plan_ok E" and "subscribe_blocks E start_block inputs = (items, st)"
  shows "map (\<lambda>b. sint (number (header b))) (ok_blocks items) =
      map (\<lambda>i. sint start_block + int i) [0..<length (ok_blocks items)] \<and>
    (case st of None \<Rightarrow> True | Some ix \<Rightarrow> sint ix = sint start_block + int (length (ok_blocks items)))"
  by (rule subscribed_numbers [OF assms])

lemma sort_key_Nil: "sort_key k xs = [] \<longleftrightarrow> xs = []"
  by (simp only: set_empty [symmetric] set_sort)

lemma last_sort_key:
  fixes k :: "'a \<Rightarrow> 'b::linorder"
  assumes "xs \<noteq> []"
  shows "last (sort_key k xs) \<in> set xs \<and> (\<forall>y \<in> set xs. k y \<le> k (last (sort_key k xs)))"
proof -
  have ne: "sort_key k xs \<noteq> []"
    using assms by (metis set_empty set_sort)
  then have "last (sort_key k xs) \<in> set xs"
    by (metis last_in_set set_sort)
  moreover have "k y \<le> k (last (sort_key k xs))" if y: "y \<in> set xs" for y
  proof -
    obtain j where j: "j < length (sort_key k xs)" "y = sort_key k xs ! j"
      using y by (metis in_set_conv_nth set_sort)
    have "map k (sort_key k xs) ! j \<le> map k (sort_key k xs) ! (length (sort_key k xs) - 1)"
      using j(1) by (intro sorted_nth_mono) auto
    with j ne show ?thesis
      by (simp add: last_conv_nth)
  qed
  ultimately show ?thesis by blast
qed

text \<open>
  C27. When a block of the current number is stored, this number is not the greatest \<open>i64\<close>, and each
  stored block of the number has a solution set, then the next round yields one at once: the
  block \<open>get_block\<close> reads at the greatest address of that number.  Where there is a fork, the
  other blocks of the number are not yielded, as the stream moves on to the next number.
\<close>

theorem subscription_yields_greatest:
  assumes "db_wf d" and "plan_ok E" and "blocks_linked d (number_in_range ix (ix + 1))"
    and "r \<in> set (t_block d)" and "blk_number r = ix" and "ix \<noteq> i64_max"
  shows "\<exists>r' b. r' \<in> set (t_block d) \<and> blk_number r' = ix \<and>
    (\<forall>q \<in> set (t_block d). blk_number q = ix \<longrightarrow> blk_address q \<le> blk_address r') \<and>
    get_block E d (blk_address r') = Ok (Some b) \<and>
    subscribe_blocks E ix [\<lparr>acquired_db = Some d, tx_begun = Ok (), woken = w\<rparr>] = ([Ok b], Some (ix + 1))"
proof -
  let ?rs = "filter (number_in_range ix (ix + 1)) (t_block d)"
  have range: "number_in_range ix (ix + 1) q \<longleftrightarrow> blk_number q = ix" for q
    using sint_i64_inc [OF assms(6)] sint_i64_inject [of "blk_number q" ix]
    by (auto simp: number_in_range_def)
  then have ne: "?rs \<noteq> []"
    using assms(4,5) by (auto simp: filter_empty_conv)
  let ?r' = "last (sort_key block_order ?rs)"
  note last = last_sort_key [OF ne, of block_order]
  have r': "?r' \<in> set (t_block d)" "blk_number ?r' = ix"
    using conjunct1 [OF last] by (simp_all add: range)
  have greatest: "blk_address q \<le> blk_address ?r'" if "q \<in> set (t_block d)" "blk_number q = ix" for q
  proof -
    have "block_order q \<le> block_order ?r'"
      using conjunct2 [OF last] that by (simp add: range)
    with that(2) r'(2) show ?thesis by (simp add: block_order_def)
  qed
  obtain bs where bs: "list_blocks E d ix (ix + 1) = Ok bs"
    and listed: "map (\<lambda>b. Ok (Some b)) bs = map (get_block E d) (map blk_address (listed d (number_in_range ix (ix + 1))))"
    using list_blocks_listed [OF assms(1-3)] by (elim exE conjE)
  have get: "map (\<lambda>b. Ok (Some b)) bs = map (\<lambda>r. get_block E d (blk_address r)) (sort_key block_order ?rs)"
    unfolding listed by (simp add: listed_def comp_def)
  have sorted: "sort_key block_order ?rs \<noteq> []"
    using ne unfolding sort_key_Nil .
  have "length bs = length ?rs"
    using arg_cong [OF get, of length] by simp
  with ne have "bs \<noteq> []" by auto
  then have "get_block E d (blk_address ?r') = Ok (Some (last bs))"
    using arg_cong [OF get, of last] sorted by (simp add: last_map)
  with r' greatest bs \<open>bs \<noteq> []\<close> show ?thesis
    by (intro exI [of _ ?r'] exI [of _ "last bs"])
      (simp add: subscribe_round_def list_blocks_by_conn_def)
qed

section \<open>Witnesses\<close>

definition sample_rounds :: "round_input list" where
  "sample_rounds =
     [\<lparr>acquired_db = Some sample_two, tx_begun = Ok (), woken = True\<rparr>,
      \<lparr>acquired_db = Some sample_two, tx_begun = Err (SqliteFailure DatabaseBusy), woken = True\<rparr>,
      \<lparr>acquired_db = Some sample_two, tx_begun = Ok (), woken = True\<rparr>]"

lemma subscription_consecutive_witness:
  "map (\<lambda>b. sint (number (header b))) (ok_blocks (fst (subscribe_blocks sample_ext 1 sample_rounds))) = [1, 2]"
proof -
  let ?r = "subscribe_blocks sample_ext 1 sample_rounds"
  have "length (ok_blocks (fst ?r)) = 2"
    by code_simp
  then show ?thesis
    using subscription_consecutive [OF sample_plan_ok, of 1 sample_rounds "fst ?r" "snd ?r"]
    by (simp add: numeral_2_eq_2)
qed

lemma subscription_yields_greatest_witness:
  "\<exists>b. subscribe_blocks sample_ext 1 [\<lparr>acquired_db = Some sample_two, tx_begun = Ok (), woken = True\<rparr>] =
     ([Ok b], Some 2)"
proof -
  have "\<exists>r \<in> set (t_block sample_two). blk_number r = 1"
    by code_simp
  then obtain r where "r \<in> set (t_block sample_two)" "blk_number r = 1" by blast
  moreover have "(1 :: Word) \<noteq> i64_max"
    by (simp add: i64_max_def)
  ultimately show ?thesis
    using subscription_yields_greatest [OF sample_two_wf sample_plan_ok sample_two_linked, of r 1 True]
    by auto
qed

end
