(* ===== verification/NodeApi.thy ===== *)
theory NodeApi
  imports Node Subscribe
begin

text \<open>
  The HTTP API: the endpoints of \<open>node-api/src/endpoint.rs\<close>, and the server loop of
  \<open>node-api/src/lib.rs\<close> with its limit on connections.  Extracting the parameters of a request,
  writing a response and speaking HTTP are left to \<open>axum\<close> and \<open>hyper\<close>; \<open>hex\<close> and \<open>serde_json\<close>
  are arguments.
\<close>

section \<open>Errors\<close>

record QueryStateParams =
  block_inclusive :: "Word option"
  block_exclusive :: "Word option"
  solution_inclusive :: "u64 option"
  solution_exclusive :: "u64 option"

datatype ApiError =
    HexDecode
  | ConnPoolQuery "QueryError AcquireThenError"
  | InvalidQueryParameters QueryStateParams

datatype SubscriptionError = AxumError | SubscriptionQuery QueryError

text \<open>The status of the response to an error.\<close>

definition into_response :: "ApiError \<Rightarrow> nat" where
  "into_response e =
     (case e of
        ConnPoolQuery _ \<Rightarrow> 500
      | HexDecode \<Rightarrow> 400
      | InvalidQueryParameters _ \<Rightarrow> 400)"

section \<open>Endpoints\<close>

record BlockRange =
  range_start :: Word
  range_end :: Word

definition health_check_handler :: "ApiError + unit" where
  "health_check_handler = Ok ()"

definition list_blocks_handler :: "node_ext \<Rightarrow> access \<Rightarrow> BlockRange \<Rightarrow> db \<Rightarrow> ApiError + Block list" where
  "list_blocks_handler E A block_range d =
     map_err ConnPoolQuery (fst (pool_list_blocks E A (range_start block_range) (range_end block_range) d))"

definition key_words_from_bytes :: "node_ext \<Rightarrow> u8 list \<Rightarrow> Word list" where
  "key_words_from_bytes E key = map (word_from_bytes E) (chunks_exact 8 key)"

text \<open>Parsing an address and decoding bytes from hex.\<close>

record hex =
  parse_address :: "string \<Rightarrow> unit + ContentAddress"
  hex_decode :: "string \<Rightarrow> unit + u8 list"

definition query_by_params ::
  "node_ext \<Rightarrow> access \<Rightarrow> ContentAddress \<Rightarrow> Key \<Rightarrow> QueryStateParams \<Rightarrow> db \<Rightarrow> ApiError + Value option" where
  "query_by_params E A contract_ca key params d =
     (case (block_inclusive params, block_exclusive params, solution_inclusive params, solution_exclusive params) of
        (Some block, None, None, None) \<Rightarrow>
          map_err ConnPoolQuery (fst (pool_query_state_finalized_inclusive_block E A contract_ca key block d))
      | (None, Some block, None, None) \<Rightarrow>
          map_err ConnPoolQuery (fst (pool_query_state_finalized_exclusive_block E A contract_ca key block d))
      | (Some block, None, Some solution_ix, None) \<Rightarrow>
          map_err ConnPoolQuery
            (fst (pool_query_state_finalized_inclusive_solution_set E A contract_ca key block solution_ix d))
      | (Some block, None, None, Some solution_ix) \<Rightarrow>
          map_err ConnPoolQuery
            (fst (pool_query_state_finalized_exclusive_solution_set E A contract_ca key block solution_ix d))
      | (None, None, None, None) \<Rightarrow>
          map_err ConnPoolQuery (fst (pool_query_latest_finalized_block E A contract_ca key d))
      | _ \<Rightarrow> Err (InvalidQueryParameters params))"

definition query_state_handler ::
  "node_ext \<Rightarrow> hex \<Rightarrow> access \<Rightarrow> string \<Rightarrow> string \<Rightarrow> QueryStateParams \<Rightarrow> db \<Rightarrow> ApiError + Value option" where
  "query_state_handler E X A contract_ca key params d =
     bind_result (map_err (\<lambda>_. HexDecode) (parse_address X contract_ca)) (\<lambda>contract_ca.
     bind_result (map_err (\<lambda>_. HexDecode) (hex_decode X key)) (\<lambda>key.
     query_by_params E A contract_ca (key_words_from_bytes E key) params d))"

text \<open>
  \<open>AwaitNewBlock\<close> resolves to \<open>None\<close> when the state has no receiver.  The events of the
  subscription are the JSON text of each block; the response ends at the first error.
\<close>

definition await_new_block :: "'rx option \<Rightarrow> changed \<Rightarrow> changed" where
  "await_new_block rx c = (case rx of None \<Rightarrow> SenderGone | Some _ \<Rightarrow> c)"

definition block_event :: "(Block \<Rightarrow> unit + u8 list) \<Rightarrow> QueryError + Block \<Rightarrow> SubscriptionError + u8 list" where
  "block_event to_json res =
     bind_result (map_err SubscriptionQuery res) (\<lambda>block. map_err (\<lambda>_. AxumError) (to_json block))"

definition api_rounds :: "'rx option \<Rightarrow> (access \<times> db \<times> changed) list \<Rightarrow> (access \<times> db \<times> changed) list" where
  "api_rounds new_block rounds = map (\<lambda>(A, d, c). (A, d, await_new_block new_block c)) rounds"

definition subscribe_blocks_handler ::
  "node_ext \<Rightarrow> (Block \<Rightarrow> unit + u8 list) \<Rightarrow> 'rx option \<Rightarrow> Word \<Rightarrow> (access \<times> db \<times> changed) list \<Rightarrow>
   (SubscriptionError + u8 list) list" where
  "subscribe_blocks_handler E to_json new_block start_block rounds =
     map (block_event to_json)
       (fst (pool_subscribe_blocks E start_block (api_rounds new_block rounds)))"

datatype endpoint = HealthCheck | ListBlocks | QueryState | SubscribeBlocks

definition with_endpoints :: "(string \<times> endpoint) list \<Rightarrow> (string \<times> endpoint) list" where
  "with_endpoints router = router @
     [(''/'', HealthCheck), (''/list-blocks'', ListBlocks), (''/query-state/:contract-ca/:key'', QueryState),
      (''/subscribe-blocks'', SubscribeBlocks)]"

text \<open>
  The state of the handlers, the headers for other origins, and the router with both.
\<close>

record 'rx ApiState =
  state_conn_pool :: AsyncConnectionPool
  state_new_block :: "'rx option"

datatype Origins = Any | Origins "string list"

record CorsLayer =
  allow_origin :: Origins
  allow_methods :: "string list"
  allow_headers :: "string list"

definition cors_layer :: CorsLayer where
  "cors_layer = \<lparr>allow_origin = Any, allow_methods = [''GET'', ''OPTIONS''], allow_headers = [''content-type'']\<rparr>"

record 'rx Router =
  routes :: "(string \<times> endpoint) list"
  layers :: "CorsLayer list"
  router_state :: "'rx ApiState"

definition router :: "'rx ApiState \<Rightarrow> 'rx Router" where
  "router state = \<lparr>routes = with_endpoints [], layers = [cors_layer], router_state = state\<rparr>"

section \<open>The server\<close>

definition DEFAULT_CONNECTION_LIMIT :: nat where "DEFAULT_CONNECTION_LIMIT = 2000"

text \<open>\<open>hyper\<close> serves a stream with a router; its error is wrapped, and only traced by the task.\<close>

datatype 'e ServeConnError = ServeConnError 'e

definition serve_conn :: "('r \<Rightarrow> nat \<Rightarrow> 'e + unit) \<Rightarrow> 'r \<Rightarrow> nat \<Rightarrow> 'e ServeConnError + unit" where
  "serve_conn serve_connection rt stream = map_err ServeConnError (serve_connection rt stream)"

text \<open>
  What happens at one turn of the server: which task \<open>join_next\<close> would see finish and whether
  it has panicked, whether the address of the listener can be read for the trace, and what
  \<open>accept\<close> returns.  The connections are the set of tasks that serve them, a \<open>JoinSet\<close> of \<open>tokio\<close>, which
  documents that \<open>join_next\<close> waits for a task and removes it, and returns \<open>None\<close> if there is none.
\<close>

record turn =
  finishing :: nat
  joined_ok :: "unit + unit"
  local_addr :: "unit + unit"
  accept :: "unit + nat"

definition join_next :: "nat \<Rightarrow> 'a list \<Rightarrow> 'a list option" where
  "join_next i conn_set =
     (if conn_set = [] then None
      else let j = i mod length conn_set in Some (take j conn_set @ drop (Suc j) conn_set))"

definition next_conn :: "turn \<Rightarrow> nat \<Rightarrow> nat list \<Rightarrow> ((unit + nat) \<times> nat list) option" where
  "next_conn t limit conn_set =
     (let accepting = bind_result (local_addr t) (\<lambda>_. accept t) in
      if limit \<le> length conn_set
      then (case join_next (finishing t) conn_set of
              None \<Rightarrow> None
            | Some conn_set' \<Rightarrow> Some (bind_result (joined_ok t) (\<lambda>_. accepting), conn_set'))
      else Some (accepting, conn_set))"

definition serve_next_conn :: "turn \<Rightarrow> nat \<Rightarrow> nat list \<Rightarrow> nat list option" where
  "serve_next_conn t limit conn_set =
     (case next_conn t limit conn_set of
        None \<Rightarrow> None
      | Some (Inl _, conn_set') \<Rightarrow> Some conn_set'
      | Some (Inr stream, conn_set') \<Rightarrow> Some (conn_set' @ [stream]))"

text \<open>The loop of \<open>serve\<close> for as many turns as given; \<open>None\<close> is a panic.\<close>

fun serve_turns :: "nat \<Rightarrow> turn list \<Rightarrow> nat list \<Rightarrow> nat list option" where
  "serve_turns limit [] conn_set = Some conn_set"
| "serve_turns limit (t # ts) conn_set =
     (case serve_next_conn t limit conn_set of
        None \<Rightarrow> None
      | Some conn_set' \<Rightarrow> serve_turns limit ts conn_set')"

definition serve :: "nat \<Rightarrow> turn list \<Rightarrow> nat list option" where
  "serve limit ts = serve_turns limit ts []"

section \<open>What the endpoints answer\<close>

text \<open>
  The part of the history that each documented combination of parameters asks for, \<open>Some None\<close>
  for the latest state; \<open>None\<close> for the combinations that are not documented.
\<close>

fun cut_of :: "Word option \<Rightarrow> Word option \<Rightarrow> u64 option \<Rightarrow> u64 option \<Rightarrow> cut option option" where
  "cut_of None None None None = Some None"
| "cut_of (Some n) None None None = Some (Some (InclusiveBlock n))"
| "cut_of None (Some n) None None = Some (Some (ExclusiveBlock n))"
| "cut_of (Some n) None (Some ix) None = Some (Some (InclusiveSolutionSet n ix))"
| "cut_of (Some n) None None (Some ix) = Some (Some (ExclusiveSolutionSet n ix))"
| "cut_of _ _ _ _ = None"

definition params_cut :: "QueryStateParams \<Rightarrow> cut option option" where
  "params_cut p = cut_of (block_inclusive p) (block_exclusive p) (solution_inclusive p) (solution_exclusive p)"

text \<open>A query without faults is the query of the cut.\<close>

lemma query_by_params_cut:
  "query_by_params E undisturbed c k params d =
     (case params_cut params of
        None \<Rightarrow> Err (InvalidQueryParameters params)
      | Some None \<Rightarrow> map_err (ConnPoolQuery \<circ> Inner) (latest_finalized_value E undisturbed c k d)
      | Some (Some q) \<Rightarrow> map_err (ConnPoolQuery \<circ> Inner) (finalized_query E d c k q))"
proof -
  have err: "map_err ConnPoolQuery (map_err Inner r) = map_err (ConnPoolQuery \<circ> Inner) r" for r :: "QueryError + Value option"
    by (cases r) simp_all
  show ?thesis
    unfolding query_by_params_def params_cut_def
    by (cases "block_inclusive params"; cases "block_exclusive params";
        cases "solution_inclusive params"; cases "solution_exclusive params")
      (simp_all add: reading_def err pool_query_state_finalized_inclusive_block_def
        pool_query_state_finalized_exclusive_block_def pool_query_state_finalized_inclusive_solution_set_def
        pool_query_state_finalized_exclusive_solution_set_def pool_query_latest_finalized_block_def)
qed

lemma key_words_round_trip:
  assumes "codec_ok E"
  shows "key_words_from_bytes E (concat (map (bytes_from_word E) key)) = key"
proof -
  have "chunks_exact 8 (concat (map (bytes_from_word E) key)) = map (bytes_from_word E) key"
    using assms by (intro chunks_exact_concat) (auto simp: codec_ok_def)
  then show ?thesis
    using assms by (simp add: key_words_from_bytes_def codec_ok_def comp_def)
qed

text \<open>
  C15. The endpoint for the state, when no access fails and every solution set writes the key at most once,
  answers a request for a key, sent as the hex text of its words, with
  the value of the last finalized write of the key within the blocks and solution sets that the
  parameters name.  An undocumented combination of parameters is refused.
\<close>

theorem query_state_endpoint:
  assumes "plan_ok E" and "db_wf d" and "codec_ok E" and "parse_address X ca = Ok c"
    and "hex_decode X hexed = Ok (concat (map (bytes_from_word E) k))" and "single_writes E d c k"
  shows "case params_cut params of
      None \<Rightarrow> query_state_handler E X undisturbed ca hexed params d = Err (InvalidQueryParameters params)
    | Some None \<Rightarrow> query_state_handler E X undisturbed ca hexed params d = Ok (replay (finalized_history E d c k))
    | Some (Some q) \<Rightarrow>
        cut_index_ok q \<longrightarrow> query_state_handler E X undisturbed ca hexed params d =
          Ok (replay (filter (\<lambda>w. cut_covers q (fst w)) (finalized_history E d c k)))"
proof -
  have "query_state_handler E X undisturbed ca hexed params d = query_by_params E undisturbed c k params d"
    using assms(4,5) by (simp add: query_state_handler_def key_words_round_trip [OF assms(3)])
  then show ?thesis
    using latest_finalized_value_replay [OF assms(1,2,6)] finalized_query_replay [OF assms(1,6)]
    by (auto simp: query_by_params_cut split: option.split)
qed

text \<open>
  C37. A query of the state is answered with status 400 exactly when an address or key is not hex or the
  parameters are not one of the documented combinations, whatever the database answers; all
  other errors have status 500.
\<close>

theorem query_state_status:
  "case query_state_handler E X A ca hexed params d of
     Inl e \<Rightarrow> into_response e =
       (if parse_address X ca = Err () \<or> hex_decode X hexed = Err () \<or> params_cut params = None then 400 else 500)
   | Inr _ \<Rightarrow> parse_address X ca \<noteq> Err () \<and> hex_decode X hexed \<noteq> Err () \<and> params_cut params \<noteq> None"
proof (cases "parse_address X ca"; cases "hex_decode X hexed")
  fix c key
  assume *: "parse_address X ca = Inr c" "hex_decode X hexed = Inr key"
  let ?r = "query_by_params E A c (key_words_from_bytes E key) params d"
  have db: "case map_err ConnPoolQuery q of Inl e \<Rightarrow> into_response e = 500 | Inr _ \<Rightarrow> P" if P
    for P and q :: "QueryError AcquireThenError + Value option"
    using that by (cases q) (simp_all add: into_response_def)
  have bad: "into_response (InvalidQueryParameters params) = 400"
    by (simp add: into_response_def)
  have "case ?r of Inl e \<Rightarrow> into_response e = (if params_cut params = None then 400 else 500)
      | Inr _ \<Rightarrow> params_cut params \<noteq> None"
    unfolding query_by_params_def params_cut_def
    by (cases "block_inclusive params"; cases "block_exclusive params";
        cases "solution_inclusive params"; cases "solution_exclusive params")
      (simp_all add: db bad)
  with * show ?thesis
    by (auto simp: query_state_handler_def split: sum.splits)
qed (auto simp: query_state_handler_def into_response_def)

definition sample_hex :: hex where
  "sample_hex = \<lparr>parse_address = (\<lambda>s. if s = ''5'' then Ok sample_contract else Err ()),
     hex_decode = (\<lambda>s. if s = ''1'' then Ok (concat (map be_bytes [1])) else Err ())\<rparr>"

lemma query_state_endpoint_witness:
  "query_state_handler sample_ext sample_hex undisturbed ''5'' ''1''
     \<lparr>block_inclusive = Some 1, block_exclusive = None, solution_inclusive = None, solution_exclusive = Some 1\<rparr>
     sample_db = Ok (Some [2])"
proof -
  let ?q = "ExclusiveSolutionSet 1 1"
  have "single_writes sample_ext sample_db sample_contract [1]"
    and "replay (filter (\<lambda>w. cut_covers ?q (fst w)) (finalized_history sample_ext sample_db sample_contract [1])) = Some [2]"
    by code_simp+
  moreover have "cut_index_ok ?q"
    by (simp add: fits_i64_def)
  ultimately show ?thesis
    using query_state_endpoint [OF sample_plan_ok sample_db_wf sample_codec_ok, of sample_hex "''5''" sample_contract
        "''1''" "[1]" "\<lparr>block_inclusive = Some 1, block_exclusive = None, solution_inclusive = None,
           solution_exclusive = Some 1\<rparr>"]
    by (simp add: params_cut_def sample_hex_def sample_ext_def)
qed

section \<open>The limit on connections\<close>

text \<open>The connections accepted at the turns.\<close>

definition accepted :: "turn list \<Rightarrow> nat list" where
  "accepted ts = concat (map (\<lambda>t. case bind_result (local_addr t) (\<lambda>_. accept t) of Inl _ \<Rightarrow> [] | Inr c \<Rightarrow> [c]) ts)"

lemma join_next_Some:
  assumes "conn_set \<noteq> []"
  shows "\<exists>conn_set'. join_next i conn_set = Some conn_set' \<and> mset conn_set' \<subseteq># mset conn_set \<and>
    length conn_set' = length conn_set - 1"
proof -
  let ?j = "i mod length conn_set"
  have j: "?j < length conn_set" using assms by simp
  then have "mset conn_set = add_mset (conn_set ! ?j) (mset (take ?j conn_set @ drop (Suc ?j) conn_set))"
    by (metis (no_types) id_take_nth_drop mset_append mset.simps(2) union_mset_add_mset_right)
  with j assms show ?thesis
    by (auto simp: join_next_def Let_def min_def)
qed

text \<open>One turn keeps the limit, and adds at most the connection it accepts.\<close>

lemma serve_next_conn_limit:
  assumes "0 < limit" and "length conn_set \<le> limit"
  shows "\<exists>conn_set'. serve_next_conn t limit conn_set = Some conn_set' \<and> length conn_set' \<le> limit \<and>
    mset conn_set' \<subseteq># mset conn_set + mset (accepted [t]) \<and>
    (length conn_set < limit \<longrightarrow> conn_set' = conn_set @ accepted [t])"
proof (cases "limit \<le> length conn_set")
  case True
  with assms obtain conn_set' where j: "join_next (finishing t) conn_set = Some conn_set'"
    "mset conn_set' \<subseteq># mset conn_set" "length conn_set' = length conn_set - 1"
    using join_next_Some [of conn_set "finishing t"] by auto
  with True assms show ?thesis
    by (cases "joined_ok t"; cases "local_addr t"; cases "accept t")
      (auto simp: serve_next_conn_def next_conn_def Let_def accepted_def subset_mset.add_mono
        intro: subset_mset.order_trans)
next
  case False
  with assms show ?thesis
    by (cases "local_addr t"; cases "accept t") (auto simp: serve_next_conn_def next_conn_def Let_def accepted_def)
qed

lemma accepted_Cons: "accepted (t # ts) = accepted [t] @ accepted ts"
  by (simp add: accepted_def)

lemma serve_turns_limit:
  assumes "0 < limit" and "length conn_set \<le> limit"
  shows "\<exists>conn_set'. serve_turns limit ts conn_set = Some conn_set' \<and> length conn_set' \<le> limit \<and>
    mset conn_set' \<subseteq># mset conn_set + mset (accepted ts) \<and>
    (length conn_set + length ts \<le> limit \<longrightarrow> conn_set' = conn_set @ accepted ts)"
  using assms(2)
proof (induction ts arbitrary: conn_set)
  case Nil
  then show ?case by (simp add: accepted_def)
next
  case (Cons t ts)
  obtain c1 where c1: "serve_next_conn t limit conn_set = Some c1" "length c1 \<le> limit"
    "mset c1 \<subseteq># mset conn_set + mset (accepted [t])"
    "length conn_set < limit \<longrightarrow> c1 = conn_set @ accepted [t]"
    using serve_next_conn_limit [OF assms(1) Cons.prems] by blast
  obtain c2 where c2: "serve_turns limit ts c1 = Some c2" "length c2 \<le> limit"
    "mset c2 \<subseteq># mset c1 + mset (accepted ts)" "length c1 + length ts \<le> limit \<longrightarrow> c2 = c1 @ accepted ts"
    using Cons.IH [OF c1(2)] by blast
  have "mset c2 \<subseteq># mset conn_set + mset (accepted [t]) + mset (accepted ts)"
    using c2(3) c1(3) by (meson subset_mset.add_right_mono subset_mset.order_trans)
  moreover have "length (accepted [t]) \<le> 1"
    by (simp add: accepted_def split: sum.split)
  ultimately show ?case
    using c1 c2 unfolding accepted_Cons [of t ts] by (auto simp: add.assoc)
qed

text \<open>
  C38. With a positive limit the server never panics and never serves more connections at a time than
  the limit, each of them one that it accepted; it serves all that it accepted as long as there are no
  more turns than the limit.  With the limit 0 its first turn panics.
\<close>

theorem serve_within_limit:
  "if limit = 0 then ts \<noteq> [] \<longrightarrow> serve limit ts = None
   else \<exists>conn_set. serve limit ts = Some conn_set \<and> length conn_set \<le> limit \<and>
     mset conn_set \<subseteq># mset (accepted ts) \<and> (length ts \<le> limit \<longrightarrow> conn_set = accepted ts)"
proof (cases "limit = 0")
  case True
  then show ?thesis
    by (cases ts) (simp_all add: serve_def serve_next_conn_def next_conn_def join_next_def Let_def)
next
  case False
  then show ?thesis
    using serve_turns_limit [of limit "[]" ts] by (simp add: serve_def)
qed

definition sample_turn :: "nat \<Rightarrow> turn" where
  "sample_turn stream = \<lparr>finishing = 0, joined_ok = Ok (), local_addr = Ok (), accept = Ok stream\<rparr>"

lemma serve_within_limit_witness:
  "serve 2 [sample_turn 7, sample_turn 8] = Some [7, 8] \<and>
   (\<exists>conn_set. serve 1 [sample_turn 7, sample_turn 8] = Some conn_set \<and> length conn_set \<le> 1)"
  using serve_within_limit [of 2 "[sample_turn 7, sample_turn 8]"] serve_within_limit [of 1 "[sample_turn 7, sample_turn 8]"]
  by (auto simp: accepted_def sample_turn_def)

end
