(* ===== verification/Follower.thy ===== *)
theory Follower
  imports NodeApi
begin

text \<open>
  A node that follows another: the blocks a source node streams from its database, through the
  subscription endpoint, server-sent events, and the relayer of the follower, into the chain of
  the follower.
\<close>

section \<open>Writes that succeed\<close>

lemma write_block_succeeds:
  assumes wf: "db_wf d" and fits: "fits_i64 (as_secs (timestamp (header b)))"
    and agree: "\<forall>n. (content_addr_block E b, n) \<in> stored_numbers d \<longrightarrow> n = number (header b)"
    and free: "number (header b) \<notin> fst ` finalized_chain d"
  shows "\<exists>d'. write_block E undisturbed b d = (Ok (), d')"
proof -
  let ?a = "content_addr_block E b"
  obtain d1 where i: "insert_block E b d = (Ok ?a, d1)"
    using fits by (cases rule: insert_block_cases [of b E d]) (auto simp: fits_i64_def)
  have wf1: "db_wf d1"
    using insert_block_wf [OF wf, of E b] by (simp add: i)
  obtain r0 where r0: "blk_address r0 = ?a" "blk_number r0 = number (header b)"
    "t_block d1 = insert_or_ignore blk_address r0 (t_block d)" "t_finalized_block d1 = t_finalized_block d"
    using i by (rule insert_block_tables)
  have free1: "number (header b) \<notin> fin_number ` set (t_finalized_block d1)"
    using free by (simp add: finalized_chain_numbers [OF wf] r0(4))
  have "\<exists>d'. FINALIZE_BLOCK ?a d1 = Ok d'"
  proof (cases "block_of_address d1 ?a")
    case (Some r)
    then have r: "r \<in> set (t_block d1)" "blk_address r = ?a"
      using block_of_address_Some [OF db_wf_D(1) [OF wf1]] by auto
    have n: "blk_number r = number (header b)"
    proof (cases "r \<in> set (t_block d)")
      case True
      with r(2) have "(?a, blk_number r) \<in> stored_numbers d"
        by (force simp: stored_numbers_def)
      with agree show ?thesis by blast
    next
      case False
      with r(1) r0(2,3) show ?thesis
        by (auto simp: insert_or_ignore_def split: if_splits)
    qed
    have "blk_id r \<notin> fin_block_id ` set (t_finalized_block d1)"
    proof
      assume "blk_id r \<in> fin_block_id ` set (t_finalized_block d1)"
      then obtain f where f: "f \<in> set (t_finalized_block d1)" "blk_id r = fin_block_id f" by blast
      with finalized_number [OF wf1 f(1) r(1)] free1 n show False
        by (metis image_eqI)
    qed
    with Some n free1 show ?thesis
      by (simp add: FINALIZE_BLOCK_def)
  qed (simp add: FINALIZE_BLOCK_def)
  then have "\<exists>d'. insert_finalize E b d = (Ok (), d')"
    by (auto simp: insert_finalize_def i finalize_block_def of_stmt_def)
  then show ?thesis
    by (auto simp: write_block_def with_tx_def)
qed

lemma sync_loop_all:
  assumes "db_wf d" and "map item inputs = map Ok bs"
    and "\<forall>i \<in> set inputs. chain_keeping (others i) \<and> item_access i = undisturbed"
    and "numbers_agree E d B" and "set bs \<subseteq> B" and "\<forall>b \<in> set bs. fits_i64 (as_secs (timestamp (header b)))"
    and "\<forall>x \<in> finalized_chain d. sint (fst x) \<le> h"
    and "map (\<lambda>b. sint (number (header b))) bs = map (\<lambda>i. h + 1 + int i) [0..<length bs]"
    and "bs \<noteq> [] \<longrightarrow> sint n = h + 1"
  shows "fst (sync_loop E n inputs (d, w)) = Ok ()"
  using assms
proof (induction inputs arbitrary: bs n d w h)
  case (Cons i inputs)
  obtain b bs' where bs: "bs = b # bs'" "item i = Ok b" "map item inputs = map Ok bs'"
    using Cons.prems(2) by (cases bs) auto
  let ?d = "others i d"
  have keeping: "chain_keeping (others i)" and quiet: "item_access i = undisturbed"
    using Cons.prems(3) by simp_all
  note keep = chain_keepingD [OF keeping, of d]
  have wf: "db_wf ?d" by (rule keep(3) [OF Cons.prems(1)])
  have agree: "numbers_agree E ?d B"
    using Cons.prems(4) unfolding numbers_agree_def keep(2) .
  have b: "b \<in> B" using Cons.prems(5) bs(1) by simp
  have here: "\<forall>m. (content_addr_block E b, m) \<in> stored_numbers ?d \<longrightarrow> m = number (header b)"
    using agree b unfolding numbers_agree_def by blast
  have nums: "sint (number (header b)) = h + 1"
    "map (\<lambda>b. sint (number (header b))) bs' = map (\<lambda>i. h + 1 + 1 + int i) [0..<length bs']"
    using Cons.prems(8) unfolding bs(1) by (simp_all add: upt_conv_Cons map_Suc_upt [symmetric] del: upt_Suc)
  then have n: "number (header b) = n"
    using Cons.prems(9) bs(1) sint_i64_inject [of "number (header b)" n] by simp
  have "number (header b) \<notin> fst ` finalized_chain ?d"
    using Cons.prems(7) nums(1) unfolding keep(1) by force
  then obtain d1 where d1: "write_block E undisturbed b ?d = (Ok (), d1)"
    using write_block_succeeds [OF wf _ here] Cons.prems(6) bs(1) by auto
  have ins: "insert_finalize E b ?d = (Ok (), d1)"
    using d1 by (rule write_block_Ok)
  note ch = insert_finalize_chain [OF wf ins here]
  have "fst (sync_loop E (saturating_inc n) inputs (d1, notify w)) = Ok ()"
  proof (rule Cons.IH [OF _ bs(3) _ _ _ _ _ nums(2)])
    show "db_wf d1"
      using insert_finalize_wf [OF wf, of E b] by (simp add: ins)
    show "numbers_agree E d1 B"
      by (rule numbers_agree_write [OF agree b ch(3)])
    show "\<forall>x \<in> finalized_chain d1. sint (fst x) \<le> h + 1"
      using Cons.prems(7) nums(1) by (auto simp: ch(1) keep(1))
    show "bs' \<noteq> [] \<longrightarrow> sint (saturating_inc n) = h + 1 + 1"
    proof
      assume "bs' \<noteq> []"
      then obtain c where "c \<in> set bs'" "sint (number (header c)) = h + 1 + 1"
        using nums(2) by (cases bs') (auto simp: upt_conv_Cons simp del: upt_Suc)
      then have "n \<noteq> i64_max"
        using sint_i64_bounds(2) [of "number (header c)"] nums(1) n by (auto simp: i64_max_def)
      then show "sint (saturating_inc n) = h + 1 + 1"
        using sint_i64_inc [of n] nums(1) n by (simp add: saturating_inc_def)
    qed
  qed (use Cons.prems(3,5,6) bs(1) in auto)
  then show ?case
    by (simp add: bs(2) quiet sync_block_def n d1)
qed simp

section \<open>From the chain of the source to the chain of the follower\<close>

text \<open>The bytes \<open>axum\<close> writes for an event.\<close>

definition sse_event :: "u8 list \<Rightarrow> u8 list" where
  "sse_event text = [100, 97, 116, 97, 58, 32] @ text @ [10, 10]"

lemma block_events_texts:
  "map (block_event (\<lambda>b. Ok (to_vec b))) (map Ok bs) = map Ok texts \<longleftrightarrow> texts = map to_vec bs"
proof (induction bs arbitrary: texts)
  case (Cons b bs)
  then show ?case by (cases texts) (auto simp: block_event_def)
qed simp

lemma sync_inputs_all:
  assumes "length bs \<le> before_shutdown r"
  shows "map item (sync_inputs r (map Ok bs)) = map Ok bs" "length (sync_inputs r (map Ok bs)) = length bs"
  using assms by (simp_all add: sync_inputs_def enumerate0_def comp_def case_prod_unfold)

text \<open>A run that nothing disturbs.\<close>

definition quiet_run :: "stream_run \<Rightarrow> bool" where
  "quiet_run r \<longleftrightarrow> progress_access r = undisturbed \<and> (\<forall>i. write_access r i = undisturbed) \<and>
     (\<forall>i. chain_keeping (writes_of_others r i))"

lemma quiet_run_inputs:
  "quiet_run r \<Longrightarrow> i \<in> set (sync_inputs r items) \<Longrightarrow> chain_keeping (others i) \<and> item_access i = undisturbed"
  by (auto simp: quiet_run_def sync_inputs_def)

lemma ok_blocks_all: "ok_blocks (map Ok bs) = bs"
  by (induction bs) simp_all

text \<open>The whole stream is written when it starts at the head of the chain.\<close>

lemma sync_blocks_all:
  assumes "db_wf d" and "progress_head d progress" and "map item inputs = map Ok bs"
    and "\<forall>i \<in> set inputs. chain_keeping (others i) \<and> item_access i = undisturbed"
    and "numbers_agree E d (set bs)" and "\<forall>b \<in> set bs. fits_i64 (as_secs (timestamp (header b)))"
    and "map (\<lambda>b. sint (number (header b))) bs = map (\<lambda>i. sint (start_block_of progress) + int i) [0..<length bs]"
    and "\<forall>p. progress = Some p \<longrightarrow> bs \<noteq> [] \<and> content_addr_block E (hd bs) = last_block_address p"
  shows "fst (sync_blocks E progress inputs (d, w)) = Ok ()"
proof (cases progress)
  case None
  then have "fst (sync_loop E 0 inputs (d, w)) = Ok ()"
    using assms(7) progress_head_bound [OF assms(2)]
    by (intro sync_loop_all [OF assms(1,3,4,5) order_refl assms(6), of "-1"])
      (simp_all add: start_block_of_def head_number_def)
  with None show ?thesis
    by (simp add: sync_blocks_def next_number_def)
next
  case (Some p)
  then obtain b bs' where bs: "bs = b # bs'" "content_addr_block E b = last_block_address p"
    using assms(8) by (cases bs) auto
  then obtain i inputs' where i: "inputs = i # inputs'" "item i = Ok b" "map item inputs' = map Ok bs'"
    using assms(3) by (cases inputs) auto
  let ?d = "others i d" and ?h = "sint (last_block_number p)"
  have keeping: "chain_keeping (others i)" using assms(4) i(1) by simp
  note keep = chain_keepingD [OF keeping, of d]
  have agree: "numbers_agree E ?d (set bs)"
    using assms(5) unfolding numbers_agree_def keep(2) .
  have nums: "map (\<lambda>b. sint (number (header b))) bs' = map (\<lambda>i. ?h + 1 + int i) [0..<length bs']"
    using assms(7) unfolding bs(1) Some start_block_of_def
    by (simp add: upt_conv_Cons map_Suc_upt [symmetric] del: upt_Suc)
  have next_num: "sint (saturating_inc (last_block_number p)) = ?h + 1" if "bs' \<noteq> []"
  proof -
    have "sint (number (header (hd bs'))) = ?h + 1"
      using nums that by (cases bs') (auto simp: upt_conv_Cons simp del: upt_Suc)
    then have "last_block_number p \<noteq> i64_max"
      using sint_i64_bounds(2) [of "number (header (hd bs'))"] by (auto simp: i64_max_def)
    then show ?thesis
      using sint_i64_inc [of "last_block_number p"] by (simp add: saturating_inc_def)
  qed
  have "fst (sync_loop E (saturating_inc (last_block_number p)) inputs' (?d, w)) = Ok ()"
    using assms(4,6) i(1) bs(1) progress_head_bound [OF assms(2)] next_num
    by (intro sync_loop_all [OF keep(3) [OF assms(1)] i(3) _ agree _ _ _ nums])
      (auto simp: keep(1) Some head_number_def)
  then show ?thesis
    by (simp add: sync_blocks_def Some i(1,2) check_block_fork_def bs(2) next_number_def)
qed

text \<open>
  C13. When nothing fails, a follower copies its source.  If the source streams blocks from the number
  of the head of the follower's chain on, its subscription endpoint sends them as events, and
  the first of them is the head of the follower, then however the response is cut into chunks
  the run of the relayer ends without an error, with all of these blocks in the finalized chain
  and one notification for each new one.
\<close>

theorem follower_copies_source:
  assumes "plan_ok E" and "plan_ok E'" and "json_ok (set bs) from_str to_vec" and "db_wf d"
    and "fst (get_block_progress E undisturbed d) = Ok progress"
    and "fst (pool_subscribe_blocks E' (start_block_of progress) (api_rounds new_block rounds)) = map Ok bs"
    and "subscribe_blocks_handler E' (\<lambda>b. Ok (to_vec b)) new_block (start_block_of progress) rounds = map Ok texts"
    and "url_joins (client r)" and "send (client r) (start_block_of progress) = Ok (200, map Ok body)"
    and "concat body = concat (map sse_event texts)"
    and "quiet_run r" and "length bs \<le> before_shutdown r"
    and "\<forall>p. progress = Some p \<longrightarrow> bs \<noteq> [] \<and> content_addr_block E (hd bs) = last_block_address p"
    and "numbers_agree E d (set bs)" and "\<forall>b \<in> set bs. fits_i64 (as_secs (timestamp (header b)))"
  shows "\<exists>d'. run_blocks E from_str r (d, w) =
      (Ok (), d', (notify ^^ (length bs - (if progress = None then 0 else 1))) w) \<and>
    finalized_chain d' = finalized_chain d \<union> chain_links E bs"
proof -
  have head: "progress_head d progress"
    using assms(5) by (simp add: get_block_progress_eq [OF assms(1,4)])
  obtain st where "subscribe_blocks E' (start_block_of progress)
      (map (\<lambda>(A, d, c). pool_round_input A d c) (api_rounds new_block rounds)) = (map Ok bs, st)"
    using assms(6) by (metis pool_subscribe_blocks_def prod.collapse)
  from subscribed_numbers [OF assms(2) this]
  have nums: "map (\<lambda>b. sint (number (header b))) bs =
      map (\<lambda>i. sint (start_block_of progress) + int i) [0..<length bs]"
    by (simp add: ok_blocks_all)
  have texts: "texts = map to_vec bs"
    using assms(7) unfolding subscribe_blocks_handler_def assms(6) block_events_texts .
  have "framed_read from_str (map Ok body) [] = map Ok bs"
    using assms(10) by (intro framed_read_events [OF assms(3) order_refl])
      (simp add: texts data_event_def [abs_def] sse_event_def comp_def)
  then have stream: "stream_blocks (client r) from_str progress = Ok (map Ok bs)"
    using assms(8,9) by (simp add: stream_blocks_def is_success_def)
  let ?inputs = "sync_inputs r (map Ok bs)"
  note items = sync_inputs_all [OF assms(12)]
  have quiet: "\<forall>i \<in> set ?inputs. chain_keeping (others i) \<and> item_access i = undisturbed"
    using quiet_run_inputs [OF assms(11)] by blast
  have blocks: "{b. \<exists>i \<in> set ?inputs. item i = Ok b} = set bs"
    using arg_cong [OF items(1), of set] by (auto simp: image_iff) (metis Inr_inject image_iff)+
  obtain d' w' where run: "sync_blocks E progress ?inputs (d, w) = (Ok (), d', w')"
    using sync_blocks_all [OF assms(4) head items(1) quiet assms(14,15) nums assms(13), of w]
    by (metis prod.collapse)
  obtain bs' where bs': "map item (drop (if progress = None then 0 else 1) ?inputs) = map Ok bs'"
    "finalized_chain d' = finalized_chain d \<union> chain_links E bs'" "w' = (notify ^^ length bs') w"
    using sync_blocks_chain [OF assms(4) head _ _ run] quiet assms(14) unfolding blocks by auto
  have "map Ok bs' = (map Ok (drop (if progress = None then 0 else 1) bs) :: (RelayerInternal + Block) list)"
    using bs'(1) items(1) by (simp add: drop_map [symmetric] del: drop_map)
  then have new: "bs' = drop (if progress = None then 0 else 1) bs"
    by (rule map_injective) (simp add: inj_def)
  have "finalized_chain d \<union> chain_links E bs' = finalized_chain d \<union> chain_links E bs"
  proof (cases progress)
    case (Some p)
    then obtain b rest where b: "bs = b # rest" "content_addr_block E b = last_block_address p"
      using assms(13) by (cases bs) auto
    have "number (header b) = last_block_number p"
      using nums sint_i64_inject [of "number (header b)" "last_block_number p"] unfolding b(1) Some start_block_of_def
      by (simp add: upt_conv_Cons del: upt_Suc)
    then have "(number (header b), content_addr_block E b) \<in> finalized_chain d"
      using head b(2) by (simp add: progress_head_def Some)
    then show ?thesis
      by (auto simp: new Some b(1) chain_links_def)
  qed (simp add: new)
  then show ?thesis
    using assms(5,11) bs'(2,3) run stream
    by (intro exI [of _ d']) (simp add: run_blocks_def quiet_run_def new)
qed

section \<open>A follower one block behind\<close>

definition follower_db :: db where
  "follower_db = sample_chain\<lparr>t_block := [chain_row 1],
     t_block_solution_set := [\<lparr>bss_block_id = 1, bss_set_id = 1, bss_index = 0\<rparr>],
     t_finalized_block := [\<lparr>fin_number = 1, fin_block_id = 1\<rparr>]\<rparr>"

lemma follower_db_wf: "db_wf follower_db"
  by (simp add: db_wf_defs follower_db_def sample_chain_def create_tables_def chain_row_def)

text \<open>As JSON text of the sample blocks, the digit of their number.\<close>

definition digit_to_vec :: "Block \<Rightarrow> u8 list" where
  "digit_to_vec b = [ucast (number (header b)) + 48]"

definition digit_from_str :: "str \<Rightarrow> Block option" where
  "digit_from_str s = (case s of [c] \<Rightarrow> Some (plain_block (word_of_nat (c - 48))) | _ \<Rightarrow> None)"

definition sample_body :: "u8 list list" where
  "sample_body = (let bs = concat (map (sse_event \<circ> digit_to_vec) (map plain_block [1, 2, 3])) in
     [take 5 bs, take 9 (drop 5 bs), drop 14 bs])"

definition follower_run :: stream_run where
  "follower_run = \<lparr>progress_access = undisturbed,
     client = \<lparr>url_joins = True, send = (\<lambda>_. Ok (200, map Ok sample_body))\<rparr>, before_shutdown = 9,
     write_access = (\<lambda>_. undisturbed), writes_of_others = (\<lambda>_. id)\<rparr>"

lemma follower_copies_source_witness:
  "\<exists>d'. run_blocks chain_ext digit_from_str follower_run (follower_db, block_tx_new) =
      (Ok (), d', (notify ^^ 2) block_tx_new) \<and>
    finalized_chain d' = {(1, ContentAddress 1), (2, ContentAddress 2), (3, ContentAddress 3)}"
proof -
  let ?bs = "map plain_block [1, 2, 3]" and ?p = "\<lparr>last_block_number = 1, last_block_address = ContentAddress 1\<rparr>"
  let ?rounds = "replicate 3 (undisturbed, sample_chain, NotYet)"
  have json: "json_ok (set ?bs) digit_from_str digit_to_vec"
    by (simp add: json_ok_def digit_to_vec_def digit_from_str_def plain_block_def from_utf8_def is_whitespace_def
        data_prefix_def)
  have "progress_head follower_db (Some ?p)"
    by code_simp
  then have progress: "fst (get_block_progress chain_ext undisturbed follower_db) = Ok (Some ?p)"
    by (simp add: get_block_progress_eq [OF chain_plan_ok follower_db_wf])
  have source: "fst (pool_subscribe_blocks chain_ext (start_block_of (Some ?p)) (api_rounds (None :: nat option) ?rounds)) =
      map Ok ?bs"
    by code_simp
  have texts: "subscribe_blocks_handler chain_ext (\<lambda>b. Ok (digit_to_vec b)) (None :: nat option)
      (start_block_of (Some ?p)) ?rounds = map Ok (map digit_to_vec ?bs)"
    unfolding subscribe_blocks_handler_def source block_events_texts ..
  have body: "concat sample_body = concat (map sse_event (map digit_to_vec ?bs))"
    by code_simp
  have hashes: "map (content_addr_block chain_ext) ?bs = map ContentAddress [1, 2, 3]"
    by code_simp
  have stored: "stored_numbers follower_db = {(ContentAddress 1, 1)}" "finalized_chain follower_db = {(1, ContentAddress 1)}"
    by code_simp+
  have agree: "numbers_agree chain_ext follower_db (set ?bs)"
    using hashes by (simp add: numbers_agree_def stored plain_block_def)
  have quiet: "quiet_run follower_run" "length ?bs \<le> before_shutdown follower_run"
    "url_joins (client follower_run)" "send (client follower_run) (start_block_of (Some ?p)) = Ok (200, map Ok sample_body)"
    by (simp_all add: quiet_run_def follower_run_def chain_keeping_id)
  have "\<forall>b \<in> set ?bs. fits_i64 (as_secs (timestamp (header b)))"
    by (simp add: plain_block_def fits_i64_def)
  then show ?thesis
    using follower_copies_source [OF chain_plan_ok chain_plan_ok json follower_db_wf progress source texts quiet(3,4)
        body quiet(1,2) _ agree, of block_tx_new] hashes
    by (simp add: stored chain_links_def plain_block_def insert_commute numeral_2_eq_2)
qed

end
