(* ===== verification/Started.thy ===== *)
theory Started
  imports Node
begin

text \<open>
  The validation stream of a node that has been started: the start and the stream together, and
  what both streams do once the pool is closed.
\<close>

section \<open>The progress is never missing\<close>

lemma handle_last_progress_none:
  "handle_internal_error e = Err CE_LastProgressNone \<longleftrightarrow> e = Critical CE_LastProgressNone"
  by (cases e rule: map_recoverable.cases)
    (auto simp: handle_internal_error_def split: AcquireThenError.splits QueryError.splits)

lemma validation_errors_keep_progress:
  "internal_of_validation_error e \<noteq> Critical CE_LastProgressNone"
  "internal_of_acquire_error e' \<noteq> Critical CE_LastProgressNone"
proof -
  show *: "internal_of_validation_error e \<noteq> Critical CE_LastProgressNone" for e
    by (cases e rule: internal_of_validation_error.cases; simp)
      (metis CriticalError.distinct InternalError.distinct InternalError.inject(2) SolutionSetPredicatesError.exhaust
        internal_of_predicates_error.simps)
  show "internal_of_acquire_error e' \<noteq> Critical CE_LastProgressNone"
    using * by (cases e') simp_all
qed

lemma get_next_block_keeps_progress: "get_next_block E A p d \<noteq> Err (Critical CE_LastProgressNone)"
proof -
  have "next_block_query E A p d \<noteq> Ok (Err (Critical CE_LastProgressNone))"
    by (auto simp: next_block_query_def bind_result_Ok_iff)
  then show ?thesis
    by (auto simp: get_next_block_def acquire_then_def reading_def split: sum.splits if_splits)
qed

lemma round_keeps_progress:
  assumes "run_GET_VALIDATION_PROGRESS E d \<noteq> None"
  shows "validate_next_block E C R creg preg d \<noteq> Some (Err (Critical CE_LastProgressNone), d')"
proof -
  have progress: "get_last_progress E (at_progress R) d \<noteq> Ok None"
    using assms by (auto simp: get_last_progress_def pool_get_validation_progress_def acquire_then_def
        reading_def get_validation_progress_def split: if_splits)
  have acq: "map_err internal_of_acquire_error r \<noteq> Err (Critical CE_LastProgressNone)"
    for r :: "ValidationError AcquireThenError + bool"
    using validation_errors_keep_progress(2) by (cases r) auto
  show ?thesis
    using progress acq validation_errors_keep_progress(1) get_next_block_keeps_progress
    by (auto simp: validate_next_block_def Let_def split: sum.split option.split ValidateOutcome.split prod.split)
qed

text \<open>Whatever other tasks add between its accesses, a stream that has a progress keeps it.\<close>

definition rounds_growing :: "(round \<times> wake) list \<Rightarrow> bool" where
  "rounds_growing inputs \<longleftrightarrow>
     (\<forall>(R, _) \<in> set inputs.
        blocks_growing (before_next R) \<and> blocks_growing (before_validate R) \<and> blocks_growing (before_outcome R))"

lemma stream_keeps_progress:
  assumes "plan_ok E" and "db_wf d" and "run_GET_VALIDATION_PROGRESS E d \<noteq> None" and "rounds_growing inputs"
    and "validation_stream E C creg preg inputs d = (t, d')"
  shows "t \<noteq> TaskPanicked \<and> t \<noteq> TaskEnded (Err CE_LastProgressNone) \<and> db_wf d' \<and>
    run_GET_VALIDATION_PROGRESS E d' \<noteq> None"
  using assms(2-5)
proof (induction inputs arbitrary: d)
  case (Cons i inputs)
  obtain R w where i: "i = (R, w)" by fastforce
  have grow: "blocks_growing (before_next R)" "blocks_growing (before_validate R)"
    "blocks_growing (before_outcome R)" "rounds_growing inputs"
    using Cons.prems(3) by (auto simp: rounds_growing_def i)
  obtain res d1 where round: "validate_next_block E C R creg preg d = Some (res, d1)" "db_wf d1"
    "get_validation_progress E d1 = get_validation_progress E d \<or> (\<exists>a. get_validation_progress E d1 = Ok (Some a))"
    using round_result [OF assms(1) Cons.prems(1) grow(1-3), of C creg preg] by blast
  then have p1: "run_GET_VALIDATION_PROGRESS E d1 \<noteq> None"
    using Cons.prems(2) by (auto simp: get_validation_progress_def)
  note IH = Cons.IH [OF round(2) p1 grow(4)]
  show ?case
  proof (cases res)
    case (Inl e)
    have "handle_internal_error e \<noteq> Err CE_LastProgressNone"
      using round_keeps_progress [OF Cons.prems(2), of C R creg preg d1] round(1) Inl
      by (auto simp: handle_last_progress_none)
    with IH Cons.prems(4) round(1,2) p1 Inl show ?thesis
      by (auto simp: i split: sum.splits)
  next
    case (Inr more_left)
    with IH Cons.prems(4) round(1,2) p1 show ?thesis
      by (cases more_left; cases w) (auto simp: i)
  qed
qed simp

lemma start_has_progress:
  assumes "plan_ok E" and "db_wf d" and "ensure_big_bang_block E A bb d = (r, d')"
  shows "db_wf d' \<and> (\<forall>a. r = Ok a \<longrightarrow> run_GET_VALIDATION_PROGRESS E d' \<noteq> None)"
proof -
  obtain r1 d1 where 1: "ensure_first_block E A (big_bang_block bb) d = (r1, d1)" by fastforce
  have "d1 = d \<or> d1 = snd (write_block E (insert_access A) (big_bang_block bb) d)"
    using 1 by (auto simp: ensure_first_block_def write_block_def Let_def split: sum.splits list.splits prod.splits)
  then have "db_wf d1"
    using assms(2) blocks_growingD(1) [OF write_block_growing assms(2)] by blast
  with ensure_rest_result [OF assms(1) this assms(3) 1] show ?thesis
    by auto
qed

text \<open>
  In a node that has been started successfully, whatever the accesses answered and whatever blocks
  other tasks write, the validation stream never panics and never ends for want of a progress.
\<close>

theorem started_validation_has_progress:
  assumes "plan_ok E" and "db_wf d" and "ensure_big_bang_block E A bb d = (Ok ca, d')"
    and "rounds_growing inputs"
  shows "fst (validation_stream E C creg preg inputs d') \<notin> {TaskPanicked, TaskEnded (Err CE_LastProgressNone)}"
proof -
  obtain t d2 where run: "validation_stream E C creg preg inputs d' = (t, d2)" by fastforce
  from start_has_progress [OF assms(1-3)] have "db_wf d'" "run_GET_VALIDATION_PROGRESS E d' \<noteq> None" by auto
  from stream_keeps_progress [OF assms(1) this assms(4) run] run show ?thesis by simp
qed

lemma started_validation_has_progress_witness:
  "fst (validation_stream sample_ext sample_checker sample_contract sample_contract [(quiet_round, BlockNotified)]
     (snd (ensure_big_bang_block sample_ext quiet_start sample_big_bang create_tables))) \<noteq> TaskPanicked"
proof -
  obtain d' where start: "ensure_big_bang_block sample_ext quiet_start sample_big_bang create_tables =
      (Ok (content_addr_block sample_ext (big_bang_block sample_big_bang)), d')"
    using sample_start by blast
  have "rounds_growing [(quiet_round, BlockNotified)]"
    by (simp add: rounds_growing_def quiet_round_def id_def blocks_growing_id)
  from started_validation_has_progress [OF sample_plan_ok create_tables_wf start this,
      of sample_checker sample_contract sample_contract]
  show ?thesis by (simp only: start snd_conv) blast
qed

section \<open>A closed pool\<close>

text \<open>The pool is closed when a round reads the progress, or when the relayer does.\<close>

lemma closed_round:
  assumes "\<not> acquired (at_progress R)"
  shows "validate_next_block E C R creg preg d = Some (Err (Recoverable (RE_LastProgress Acquire)), d)"
  using assms
  by (simp add: validate_next_block_def get_last_progress_def pool_get_validation_progress_def acquire_then_def)

lemma closed_stream:
  "\<forall>(R, w) \<in> set inputs. \<not> acquired (at_progress R) \<Longrightarrow>
    validation_stream E C creg preg inputs d = (Running, d)"
  by (induction inputs) (auto simp: closed_round handle_internal_error_def)

text \<open>
  C40. Once the pool of the node is closed, the validation stream goes on for ever: each round fails to
  read the progress, which counts as recoverable, and the next one begins at once, without a look at the
  channel that closes the stream.  The relayer ends at its next run, with a critical error.
\<close>

theorem closed_pool_streams:
  assumes "\<forall>(R, w) \<in> set inputs. \<not> acquired (at_progress R)" and "\<not> acquired (progress_access r)"
  shows "validation_stream E C creg preg inputs d = (Running, d) \<and>
    run_relayer E from_str (r # rs) s = (Some (Err (DbPoolRusqlite Acquire)), s)"
proof
  show "validation_stream E C creg preg inputs d = (Running, d)"
    using assms(1) by (rule closed_stream)
  show "run_relayer E from_str (r # rs) s = (Some (Err (DbPoolRusqlite Acquire)), s)"
    using assms(2)
    by (simp add: run_blocks_def get_block_progress_def acquire_then_def handle_error_def map_recoverable_errors_def)
qed

lemma closed_pool_streams_witness:
  "let closed = undisturbed\<lparr>acquired := False\<rparr> in
   validation_stream sample_ext sample_checker sample_contract sample_contract
     (replicate 5 (quiet_round\<lparr>at_progress := closed\<rparr>, StreamClose)) sample_db = (Running, sample_db) \<and>
   run_relayer sample_ext (\<lambda>_. None) [sample_run\<lparr>progress_access := closed\<rparr>] (sample_db, block_tx_new) =
     (Some (Err (DbPoolRusqlite Acquire)), sample_db, block_tx_new)"
  unfolding Let_def by (rule closed_pool_streams) simp_all

end
