(* ===== verification/NodeRun.thy ===== *)
theory NodeRun
  imports Started
begin

text \<open>
  The database of a running node as a state machine: it starts with the big bang block, the
  relayer extends it run by run, the validation stream moves its progress round by round, and the
  process may be restarted.  The two streams interleave: between the writes of a run anything may be
  written that a round writes (\<open>record_valid_validating\<close>, \<open>record_failed_validating\<close>), and between the
  accesses of a round anything that a run writes (\<open>sync_blocks_relayed\<close>).  In every reachable state the
  stored blocks are one finalized chain, on which the validation can catch up.
\<close>

section \<open>What a run of the relayer keeps\<close>

lemma sync_loop_keeps:
  assumes "sync_loop E n inputs (d, w) = (r, d', w')" and "P d"
    and "\<And>i x. i \<in> set inputs \<Longrightarrow> P x \<Longrightarrow> P (others i x)"
    and "\<And>i b x x'. i \<in> set inputs \<Longrightarrow> item i = Ok b \<Longrightarrow> P x \<Longrightarrow> insert_finalize E b x = (Ok (), x') \<Longrightarrow> P x'"
  shows "P d'"
  using assms
proof (induction inputs arbitrary: n d w)
  case (Cons i inputs)
  let ?d = "others i d"
  have P: "P ?d"
    using Cons.prems(2,3) by simp
  show ?case
  proof (cases "item i")
    case (Inl e)
    with Cons.prems(1) P show ?thesis by simp
  next
    case (Inr b)
    show ?thesis
    proof (cases "\<exists>n' w1 d1. sync_block E (item_access i) n b (?d, w) = (Ok (), n', d1, w1) \<and> insert_finalize E b ?d = (Ok (), d1)")
      case True
      then obtain n' w1 d1 where s: "sync_block E (item_access i) n b (?d, w) = (Ok (), n', d1, w1)"
        "insert_finalize E b ?d = (Ok (), d1)" by blast
      have loop: "sync_loop E n' inputs (d1, w1) = (r, d', w')"
        using Cons.prems(1) by (simp add: Inr s(1))
      have "P d1"
        by (rule Cons.prems(4) [OF _ Inr P s(2)]) simp
      with loop show ?thesis
        by (rule Cons.IH) (auto intro: Cons.prems(3,4))
    next
      case False
      then have "fst (snd (snd (sync_block E (item_access i) n b (?d, w)))) = ?d \<and>
          fst (sync_block E (item_access i) n b (?d, w)) \<noteq> Ok ()"
        using write_block_Ok [of E "item_access i" b ?d] write_block_Err [of E "item_access i" b ?d]
        by (auto simp: sync_block_def Let_def split: sum.splits prod.splits if_splits)
      with Cons.prems(1) P show ?thesis
        by (auto simp: Inr split: sum.splits prod.splits)
    qed
  qed
qed simp

lemma sync_blocks_keeps:
  assumes "sync_blocks E progress inputs (d, w) = (r, d', w')" and "P d"
    and "\<And>i x. i \<in> set inputs \<Longrightarrow> P x \<Longrightarrow> P (others i x)"
    and "\<And>i b x x'. i \<in> set inputs \<Longrightarrow> item i = Ok b \<Longrightarrow> P x \<Longrightarrow> insert_finalize E b x = (Ok (), x') \<Longrightarrow> P x'"
  shows "P d'"
proof (cases rule: sync_blocks_cases [OF assms(1)])
  case (1 d0)
  have "P d0"
    using 1(1) assms(2,3) by blast
  from 1(3) this show ?thesis
    by (rule sync_loop_keeps) (auto dest: in_set_dropD intro: assms(3,4))
next
  case 2
  with assms(2,3) show ?thesis by blast
qed

section \<open>The node as a state machine\<close>

text \<open>
  Writes such as those of the validation stream: they leave the blocks and do not lose the progress.
\<close>

definition validating :: "node_ext \<Rightarrow> (db \<Rightarrow> db) \<Rightarrow> bool" where
  "validating E f \<longleftrightarrow> chain_keeping f \<and>
     (\<forall>d. db_wf d \<and> run_GET_VALIDATION_PROGRESS E d \<noteq> None \<longrightarrow> run_GET_VALIDATION_PROGRESS E (f d) \<noteq> None)"

text \<open>
  Writes such as those of a run of the relayer: each adds the finalized block that follows the head of
  the chain, whose address no stored block of another number has.
\<close>

inductive relayed :: "node_ext \<Rightarrow> db \<Rightarrow> db \<Rightarrow> bool" for E d where
  relayed_none: "relayed E d d"
| relayed_block: "relayed E d d1 \<Longrightarrow>
    \<forall>x \<in> finalized_chain d1. sint (fst x) < sint (number (header b)) \<Longrightarrow>
    \<exists>x \<in> finalized_chain d1. sint (number (header b)) = sint (fst x) + 1 \<Longrightarrow>
    \<forall>n. (content_addr_block E b, n) \<in> stored_numbers d1 \<longrightarrow> n = number (header b) \<Longrightarrow>
    insert_finalize E b d1 = (Ok (), d2) \<Longrightarrow> relayed E d d2"

definition node_start :: "node_ext \<Rightarrow> BigBang \<Rightarrow> db \<Rightarrow> bool" where
  "node_start E bb d \<longleftrightarrow> (\<exists>A ca. ensure_big_bang_block E A bb create_tables = (Ok ca, d))"

inductive node_step ::
  "node_ext \<Rightarrow> 'pe checker \<Rightarrow> BigBang \<Rightarrow> db \<Rightarrow> db \<Rightarrow> bool" for E C bb where
  relays: "fst (get_block_progress E undisturbed d) = Ok progress \<Longrightarrow>
    \<forall>i \<in> set inputs. validating E (others i) \<Longrightarrow>
    numbers_agree E d {b. \<exists>i \<in> set inputs. item i = Ok b} \<Longrightarrow>
    sync_blocks E progress inputs (d, w) = (r, d', w') \<Longrightarrow> node_step E C bb d d'"
| validates: "relayed E d (before_next R d) \<Longrightarrow>
    relayed E (before_next R d) (before_validate R (before_next R d)) \<Longrightarrow>
    relayed E (before_validate R (before_next R d)) (before_outcome R (before_validate R (before_next R d))) \<Longrightarrow>
    validate_next_block E C R (contract (contract_registry bb)) (contract (program_registry bb)) d = Some (res, d') \<Longrightarrow>
    node_step E C bb d d'"
| restarts: "\<forall>n. (content_addr_block E (big_bang_block bb), n) \<in> stored_numbers d \<longrightarrow> n = 0 \<Longrightarrow>
    ensure_big_bang_block E A bb d = (res', d') \<Longrightarrow> node_step E C bb d d'"

inductive_cases node_step_elim: "node_step E C bb d d'"

text \<open>All stored blocks are finalized, with consecutive numbers from 0 on.\<close>

definition linear :: "db \<Rightarrow> bool" where
  "linear d \<longleftrightarrow> (\<forall>x \<in> stored_numbers d. prod.swap x \<in> finalized_chain d) \<and>
     (\<exists>h. (\<lambda>x. sint (fst x)) ` finalized_chain d = {0..h})"

definition node_inv :: "node_ext \<Rightarrow> db \<Rightarrow> bool" where
  "node_inv E d \<longleftrightarrow> db_wf d \<and> linear d \<and> run_GET_VALIDATION_PROGRESS E d \<noteq> None"

lemma linear_frame:
  "t_block d' = t_block d \<Longrightarrow> t_finalized_block d' = t_finalized_block d \<Longrightarrow> linear d' = linear d"
  by (simp add: linear_def stored_numbers_def finalized_chain_def)

text \<open>A start on empty tables inserts the big bang block, and nothing else.\<close>

lemma node_start_chain:
  assumes "plan_ok E" and "node_start E bb d"
  shows "stored_numbers d = {(content_addr_block E (big_bang_block bb), 0)}"
    and "finalized_chain d = {(0, content_addr_block E (big_bang_block bb))}"
    and "db_wf d" and "run_GET_VALIDATION_PROGRESS E d \<noteq> None"
proof -
  obtain A ca where start: "ensure_big_bang_block E A bb create_tables = (Ok ca, d)"
    using assms(2) by (auto simp: node_start_def)
  let ?b = "big_bang_block bb"
  obtain r1 d1 where 1: "ensure_first_block E A ?b create_tables = (r1, d1)" by fastforce
  have n: "number (header ?b) = 0" by (simp add: big_bang_block_def)
  have agree: "\<forall>n. (content_addr_block E ?b, n) \<in> stored_numbers create_tables \<longrightarrow> n = number (header ?b)"
    by simp
  have none: "list_blocks E create_tables 0 1 = Ok []"
    by (rule list_blocks_none [OF create_tables_wf assms(1)]) simp
  have wf1: "db_wf d1"
    using ensure_first_result [OF create_tables_wf agree 1] by blast
  note rest = ensure_rest_result [OF assms(1) wf1 start 1]
  then have "r1 = Ok ()" by auto
  then have ins: "insert_finalize E ?b create_tables = (Ok (), d1)"
    using 1 none
    by (auto simp: ensure_first_block_def pool_list_blocks_def acquire_then_def reading_def with_tx_def Let_def
        split: if_splits sum.splits prod.splits list.splits)
  note ch = insert_finalize_chain [OF create_tables_wf ins agree, unfolded n]
  have "stored_numbers d = stored_numbers d1" "finalized_chain d = finalized_chain d1"
    using rest by (auto simp: stored_numbers_def)
  with ch(1,3) show "stored_numbers d = {(content_addr_block E ?b, 0)}"
    "finalized_chain d = {(0, content_addr_block E ?b)}"
    by simp_all
  show "db_wf d" "run_GET_VALIDATION_PROGRESS E d \<noteq> None"
    using start_has_progress [OF assms(1) create_tables_wf start] by blast+
qed

lemma node_inv_start:
  assumes "plan_ok E" and "node_start E bb d"
  shows "node_inv E d"
proof -
  note chain = node_start_chain [OF assms]
  have "linear d"
    unfolding linear_def chain(1,2) by (auto intro: exI [of _ 0])
  with chain(3,4) show ?thesis
    by (simp add: node_inv_def)
qed

text \<open>What every point of a run keeps, where \<open>B\<close> are the blocks that it may receive.\<close>

definition run_inv :: "node_ext \<Rightarrow> Block set \<Rightarrow> db \<Rightarrow> bool" where
  "run_inv E B d \<longleftrightarrow> db_wf d \<and> run_GET_VALIDATION_PROGRESS E d \<noteq> None \<and> numbers_agree E d B \<and>
     (\<forall>x \<in> stored_numbers d. prod.swap x \<in> finalized_chain d)"

lemma run_inv_others:
  assumes "run_inv E B d" and "validating E f"
  shows "run_inv E B (f d)"
proof -
  have keeping: "chain_keeping f" and progress: "run_GET_VALIDATION_PROGRESS E (f d) \<noteq> None"
    using assms unfolding validating_def run_inv_def by blast+
  note keep = chain_keepingD [OF keeping, of d]
  show ?thesis
    using assms(1) keep(3) progress unfolding run_inv_def numbers_agree_def keep(1,2) by blast
qed

lemma run_progress_insert_finalize:
  assumes "plan_ok E" and "db_wf d" and "insert_finalize E b d = (Ok (), d')"
  shows "db_wf d'" and "run_GET_VALIDATION_PROGRESS E d' = run_GET_VALIDATION_PROGRESS E d"
    and "set (t_block d) \<subseteq> set (t_block d')"
proof -
  have "snd (write_block E undisturbed b d) = d'"
    using assms(3) by (simp add: write_block_def with_tx_def)
  note grow = blocks_growingD [OF write_block_growing [of E undisturbed b] assms(2), unfolded this]
  show "db_wf d'" "set (t_block d) \<subseteq> set (t_block d')"
    by (rule grow)+
  show "run_GET_VALIDATION_PROGRESS E d' = run_GET_VALIDATION_PROGRESS E d"
    by (rule progress_grow [OF assms(1,2) grow])
qed

lemma run_inv_insert:
  assumes "plan_ok E" and "run_inv E B d" and "b \<in> B" and ins: "insert_finalize E b d = (Ok (), d')"
  shows "run_inv E B d'"
proof -
  have wf: "db_wf d" and agree: "numbers_agree E d B"
    using assms(2) by (simp_all add: run_inv_def)
  have here: "\<forall>n. (content_addr_block E b, n) \<in> stored_numbers d \<longrightarrow> n = number (header b)"
    using agree assms(3) unfolding numbers_agree_def by blast
  note ch = insert_finalize_chain [OF wf ins here]
  note run_progress_insert_finalize [OF assms(1) wf ins]
  moreover have "numbers_agree E d' B"
    by (rule numbers_agree_write [OF agree assms(3) ch(3)])
  ultimately show ?thesis
    using assms(2) by (simp add: run_inv_def ch(1,3))
qed

text \<open>A run that begins at the head extends the numbers without a gap.\<close>

lemma head_of_linear:
  assumes "linear d" and "progress_head d progress"
  shows "- 1 \<le> head_number progress \<and> (\<lambda>x. sint (fst x)) ` finalized_chain d = {0..head_number progress}"
proof -
  obtain h where h: "(\<lambda>x. sint (fst x)) ` finalized_chain d = {0..h}"
    using assms(1) by (auto simp: linear_def)
  show ?thesis
  proof (cases progress)
    case None
    with assms(2) show ?thesis by (simp add: progress_head_def head_number_def)
  next
    case (Some p)
    with assms(2) have p: "(last_block_number p, last_block_address p) \<in> finalized_chain d"
      "\<forall>x \<in> finalized_chain d. sint (fst x) \<le> sint (last_block_number p)"
      by (simp_all add: progress_head_def)
    have "sint (last_block_number p) \<in> {0..h}"
      unfolding h [symmetric] using p(1) by force
    moreover have "m \<le> sint (last_block_number p)" if "m \<in> {0..h}" for m
      using that p(2) unfolding h [symmetric] by blast
    ultimately have "sint (last_block_number p) = h"
      by (meson atLeastAtMost_iff order_antisym order_refl order_trans)
    with h Some \<open>sint (last_block_number p) \<in> {0..h}\<close> show ?thesis
      by (simp add: head_number_def)
  qed
qed

lemma image_links:
  assumes "map (\<lambda>b. sint (number (header b))) bs = map (\<lambda>i. h + 1 + int i) [0..<length bs]"
  shows "(\<lambda>x. sint (fst x)) ` chain_links E bs = {h + 1..h + int (length bs)}"
proof -
  have "(\<lambda>x. sint (fst x)) ` chain_links E bs = set (map (\<lambda>b. sint (number (header b))) bs)"
    by (simp add: chain_links_def image_image)
  also have "\<dots> = {h + 1..h + int (length bs)}"
    unfolding assms
  proof (intro equalityI subsetI)
    fix m
    assume "m \<in> {h + 1..h + int (length bs)}"
    then show "m \<in> set (map (\<lambda>i. h + 1 + int i) [0..<length bs])"
      by (auto intro!: image_eqI [of _ _ "nat (m - h - 1)"])
  qed auto
  finally show ?thesis .
qed

lemma node_inv_relays:
  assumes "plan_ok E" and "node_inv E d" and "fst (get_block_progress E undisturbed d) = Ok progress"
    and "\<forall>i \<in> set inputs. validating E (others i)"
    and "numbers_agree E d {b. \<exists>i \<in> set inputs. item i = Ok b}"
    and "sync_blocks E progress inputs (d, w) = (r, d', w')"
  shows "node_inv E d'"
proof -
  let ?P = "run_inv E {b. \<exists>i \<in> set inputs. item i = Ok b}"
  have inv: "db_wf d" "linear d" "run_GET_VALIDATION_PROGRESS E d \<noteq> None"
    using assms(2) by (simp_all add: node_inv_def)
  have keeping: "\<forall>i \<in> set inputs. chain_keeping (others i)"
    using assms(4) by (simp add: validating_def)
  have "?P d"
    using inv assms(5) by (simp add: run_inv_def linear_def)
  with assms(6) have "?P d'"
  proof (rule sync_blocks_keeps)
    show "?P (others i x)" if "i \<in> set inputs" "?P x" for i x
      using run_inv_others [OF that(2)] assms(4) that(1) by simp
  qed (rule run_inv_insert [OF assms(1)], assumption, blast, assumption)
  moreover have "\<exists>h. (\<lambda>x. sint (fst x)) ` finalized_chain d' = {0..h}"
  proof -
    have head: "progress_head d progress"
      using assms(3) by (simp add: get_block_progress_eq [OF assms(1) inv(1)])
    obtain bs where bs: "finalized_chain d' = finalized_chain d \<union> chain_links E bs"
      "map (\<lambda>b. sint (number (header b))) bs = map (\<lambda>i. head_number progress + 1 + int i) [0..<length bs]"
      using sync_blocks_chain [OF inv(1) head keeping assms(5,6)] by blast
    note h = head_of_linear [OF inv(2) head]
    have "(\<lambda>x. sint (fst x)) ` finalized_chain d' =
        {0..head_number progress} \<union> {head_number progress + 1..head_number progress + int (length bs)}"
      using h by (simp add: bs(1) image_Un image_links [OF bs(2)])
    also have "\<dots> = {0..head_number progress + int (length bs)}"
      using h by auto
    finally show ?thesis by blast
  qed
  ultimately show ?thesis
    by (simp add: node_inv_def run_inv_def linear_def)
qed

text \<open>A round of the validation, in which the relayer writes between the accesses.\<close>

lemma node_inv_relayed:
  assumes "relayed E d d'" and "plan_ok E" and "node_inv E d"
  shows "node_inv E d'"
  using assms
proof (induction rule: relayed.induct)
  case (relayed_block d1 b d2)
  then have wf: "db_wf d1" and lin: "linear d1" and progress: "run_GET_VALIDATION_PROGRESS E d1 \<noteq> None"
    by (simp_all add: node_inv_def)
  note ch = insert_finalize_chain [OF wf relayed_block.hyps(5,4)]
  obtain h where h: "(\<lambda>x. sint (fst x)) ` finalized_chain d1 = {0..h}"
    using lin by (auto simp: linear_def)
  have "sint (number (header b)) = h + 1"
  proof (rule antisym)
    obtain x where x: "x \<in> finalized_chain d1" "sint (number (header b)) = sint (fst x) + 1"
      using relayed_block.hyps(3) by blast
    then have "sint (fst x) \<in> {0..h}"
      unfolding h [symmetric] by blast
    then have "h \<in> {0..h}" and "sint (number (header b)) \<le> h + 1"
      using x(2) by auto
    then show "sint (number (header b)) \<le> h + 1" by simp
    obtain y where "y \<in> finalized_chain d1" "sint (fst y) = h"
      using \<open>h \<in> {0..h}\<close> unfolding h [symmetric] by blast
    with relayed_block.hyps(2) show "h + 1 \<le> sint (number (header b))"
      by force
  qed
  moreover obtain x where "x \<in> finalized_chain d1"
    using relayed_block.hyps(3) by blast
  then have "0 \<le> h"
    using h by (metis (no_types, lifting) atLeastAtMost_iff imageI order_trans)
  ultimately have "(\<lambda>x. sint (fst x)) ` finalized_chain d2 = {0..h + 1}"
    using h by (auto simp: ch(1))
  then have "linear d2"
    using lin unfolding linear_def ch(1,3) by auto
  with run_progress_insert_finalize [OF assms(2) wf relayed_block.hyps(5)] progress show ?case
    by (simp add: node_inv_def)
qed

text \<open>The writes of a run of the relayer are those that a round allows between its accesses.\<close>

lemma relayed_trans: "relayed E d1 d2 \<Longrightarrow> relayed E d0 d1 \<Longrightarrow> relayed E d0 d2"
  by (induction rule: relayed.induct) (auto intro: relayed.intros)

lemma sync_loop_relayed:
  assumes "sync_loop E n inputs (d, w) = (r, d', w')" and "db_wf d" and "\<forall>i \<in> set inputs. others i = id"
    and "numbers_agree E d B" and "\<forall>i \<in> set inputs. \<forall>b. item i = Ok b \<longrightarrow> b \<in> B"
    and "\<forall>x \<in> finalized_chain d. sint (fst x) \<le> h" and "\<exists>x \<in> finalized_chain d. sint (fst x) = h"
    and "sint n = h + 1 \<or> n = i64_max \<and> n \<in> fst ` finalized_chain d"
  shows "relayed E d d'"
  using assms
proof (induction inputs arbitrary: n d w h)
  case (Cons i inputs)
  have same: "others i d = d"
    using Cons.prems(3) by simp
  show ?case
  proof (cases "item i")
    case (Inl e)
    with Cons.prems(1) same show ?thesis
      by (simp add: relayed_none)
  next
    case (Inr b)
    then have b: "b \<in> B" using Cons.prems(5) by simp
    show ?thesis
    proof (cases "number (header b) = n \<and> (\<exists>d1. write_block E (item_access i) b d = (Ok (), d1))")
      case False
      have "d' = d"
        using Cons.prems(1) Inr False write_block_Err [of E "item_access i" b d]
        by (auto simp: sync_block_def same Let_def split: sum.splits prod.splits if_splits)
      then show ?thesis by (simp add: relayed_none)
    next
      case True
      then obtain d1 where n: "number (header b) = n" and d1: "write_block E (item_access i) b d = (Ok (), d1)"
        by blast
      have step: "sync_loop E (saturating_inc n) inputs (d1, notify w) = (r, d', w')"
        using Cons.prems(1) by (simp add: Inr sync_block_def n d1 same)
      note ins = write_block_Ok [OF d1]
      have here: "\<forall>m. (content_addr_block E b, m) \<in> stored_numbers d \<longrightarrow> m = number (header b)"
        using Cons.prems(4) b unfolding numbers_agree_def by blast
      note ch = insert_finalize_chain [OF Cons.prems(2) ins here, unfolded n]
      have h: "sint n = h + 1"
        using Cons.prems(8) ch(2) by simp
      have "relayed E d d1"
        using relayed_none _ _ here ins
      proof (rule relayed_block)
        show "\<forall>x \<in> finalized_chain d. sint (fst x) < sint (number (header b))"
          using Cons.prems(6) h n by auto
        show "\<exists>x \<in> finalized_chain d. sint (number (header b)) = sint (fst x) + 1"
          using Cons.prems(7) h n by auto
      qed
      moreover have "relayed E d1 d'"
      proof (rule Cons.IH [OF step])
        show "db_wf d1"
          using insert_finalize_wf [OF Cons.prems(2), of E b] by (simp add: ins)
        show "\<forall>i \<in> set inputs. others i = id" "\<forall>i \<in> set inputs. \<forall>b. item i = Ok b \<longrightarrow> b \<in> B"
          using Cons.prems(3,5) by (blast intro: list.set_intros(2))+
        show "numbers_agree E d1 B"
          using numbers_agree_write [OF Cons.prems(4) b] ch(3) n by simp
        show "\<forall>x \<in> finalized_chain d1. sint (fst x) \<le> h + 1" "\<exists>x \<in> finalized_chain d1. sint (fst x) = h + 1"
          using Cons.prems(6) h by (auto simp: ch(1))
        show "sint (saturating_inc n) = h + 1 + 1 \<or> saturating_inc n = i64_max \<and> saturating_inc n \<in> fst ` finalized_chain d1"
          using sint_i64_inc [of n] h ch(1) by (cases "n = i64_max") (simp_all add: saturating_inc_def)
      qed
      ultimately show ?thesis
        by (rule relayed_trans [rotated])
    qed
  qed
qed (simp add: relayed_none)

lemma sync_blocks_relayed:
  assumes "plan_ok E" and "node_inv E d" and "fst (get_block_progress E undisturbed d) = Ok progress"
    and "\<forall>i \<in> set inputs. others i = id"
    and "numbers_agree E d {b. \<exists>i \<in> set inputs. item i = Ok b}"
    and "sync_blocks E progress inputs (d, w) = (r, d', w')"
  shows "relayed E d d'"
proof (cases rule: sync_blocks_cases [OF assms(6)])
  case (1 d0)
  have inv: "db_wf d" "linear d" "run_GET_VALIDATION_PROGRESS E d \<noteq> None"
    using assms(2) by (simp_all add: node_inv_def)
  have head: "progress_head d progress"
    using assms(3) by (simp add: get_block_progress_eq [OF assms(1) inv(1)])
  obtain x where "x \<in> set (t_block d)"
    using inv(3) progress_rows [OF assms(1) inv(1)] by auto
  then have "finalized_chain d \<noteq> {}"
    using inv(2) by (auto simp: linear_def stored_numbers_def)
  then obtain p where p: "progress = Some p" "(last_block_number p, last_block_address p) \<in> finalized_chain d"
    using head by (cases progress) (auto simp: progress_head_def)
  have "d0 = d"
    using 1(1) assms(4) by auto
  with 1(3) have "sync_loop E (next_number progress) (drop 1 inputs) (d, w) = (r, d', w')"
    by (simp add: p(1))
  then show ?thesis
    using inv(1) _ assms(5) _ progress_head_bound [OF head] _ next_number_head [OF head]
  proof (rule sync_loop_relayed)
    show "\<forall>i \<in> set (drop 1 inputs). others i = id"
      using assms(4) by (blast dest: in_set_dropD)
    show "\<forall>i \<in> set (drop 1 inputs). \<forall>b. item i = Ok b \<longrightarrow> b \<in> {b. \<exists>i \<in> set inputs. item i = Ok b}"
      by (blast dest: in_set_dropD)
    show "\<exists>x \<in> finalized_chain d. sint (fst x) = head_number progress"
      using p by (force simp: head_number_def)
  qed
next
  case 2
  with assms(4) have "d' = d" by auto
  then show ?thesis by (simp add: relayed_none)
qed

text \<open>What a round writes at its end is a write of the validation.\<close>

lemma record_valid_validating:
  assumes "plan_ok E"
  shows "validating E (\<lambda>d. snd (record_valid E A a n d))"
proof -
  have "t_block (snd (record_valid E A a n d)) = t_block d \<and>
      t_finalized_block (snd (record_valid E A a n d)) = t_finalized_block d" for d
    by (auto simp: record_valid_def acquire_then_def update_validation_progress_def of_stmt_def
        INSERT_VALIDATION_PROGRESS_def split: if_splits sum.splits option.splits prod.splits)
  with record_valid_result [OF assms, of _ A a n] show ?thesis
    unfolding validating_def chain_keeping_def by (metis (no_types, lifting) option.distinct(1) prod.collapse)
qed

lemma record_failed_validating:
  assumes "plan_ok E"
  shows "validating E (\<lambda>d. snd (record_failed A a ca d))"
proof -
  have "t_block (snd (record_failed A a ca d)) = t_block d \<and>
      t_finalized_block (snd (record_failed A a ca d)) = t_finalized_block d" for d
    by (auto simp: record_failed_def acquire_then_def insert_failed_block_def of_stmt_def
        INSERT_FAILED_BLOCK_def split: if_splits sum.splits option.splits prod.splits)
  moreover have "db_wf (snd (record_failed A a ca d)) \<and>
      run_GET_VALIDATION_PROGRESS E (snd (record_failed A a ca d)) = run_GET_VALIDATION_PROGRESS E d" if "db_wf d" for d
    using record_failed_result [OF that, of A a ca] that progress_grow [OF assms that]
    by (metis order_refl prod.collapse)
  ultimately show ?thesis
    unfolding validating_def chain_keeping_def by metis
qed

lemma node_inv_validating:
  assumes "node_inv E d" and "validating E f"
  shows "node_inv E (f d)"
proof -
  have "t_block (f d) = t_block d" "t_finalized_block (f d) = t_finalized_block d" "db_wf d \<longrightarrow> db_wf (f d)"
    using assms(2) by (simp_all add: validating_def chain_keeping_def)
  with assms linear_frame [of "f d" d] show ?thesis
    by (simp add: node_inv_def validating_def)
qed

lemma node_inv_validates:
  assumes "plan_ok E" and "node_inv E d"
    and "relayed E d (before_next R d)"
    and "relayed E (before_next R d) (before_validate R (before_next R d))"
    and "relayed E (before_validate R (before_next R d)) (before_outcome R (before_validate R (before_next R d)))"
    and "validate_next_block E C R creg preg d = Some (res, d')"
  shows "node_inv E d'"
proof -
  note inv1 = node_inv_relayed [OF assms(3,1,2)]
  note inv2 = node_inv_relayed [OF assms(4,1) inv1]
  note inv3 = node_inv_relayed [OF assms(5,1) inv2]
  show ?thesis
  proof (cases rule: round_cases [of E C R creg preg d])
    case (early x res)
    with assms(2,6) inv1 inv2 show ?thesis by auto
  next
    case (valid p b g r x)
    with node_inv_validating [OF inv3 record_valid_validating [OF assms(1)]] assms(6) show ?thesis
      by (metis Pair_inject option.inject snd_conv)
  next
    case (invalid p b f ix r x)
    with node_inv_validating [OF inv3 record_failed_validating [OF assms(1)]] assms(6) show ?thesis
      by (metis Pair_inject option.inject snd_conv)
  qed
qed

lemma node_inv_restarts:
  assumes "plan_ok E" and "node_inv E d"
    and "\<forall>n. (content_addr_block E (big_bang_block bb), n) \<in> stored_numbers d \<longrightarrow> n = 0"
    and "ensure_big_bang_block E A bb d = (r, d')"
  shows "d' = d"
proof -
  let ?b = "big_bang_block bb"
  have wf: "db_wf d" and lin: "linear d" and progress: "run_GET_VALIDATION_PROGRESS E d \<noteq> None"
    using assms(2) by (simp_all add: node_inv_def)
  have n: "number (header ?b) = 0" by (simp add: big_bang_block_def)
  obtain r1 d1 where 1: "ensure_first_block E A ?b d = (r1, d1)" by fastforce
  obtain x where "x \<in> set (t_block d)"
    using progress progress_rows [OF assms(1) wf] by auto
  then have "finalized_chain d \<noteq> {}"
    using lin by (auto simp: linear_def stored_numbers_def)
  then have "0 \<in> (\<lambda>x. sint (fst x)) ` finalized_chain d"
    using lin by (auto simp: linear_def)
  then have "0 \<in> fst ` finalized_chain d"
    by (metis (no_types, lifting) imageE image_eqI signed_0 signed_word_eqI)
  then have "insert_finalize E ?b d \<noteq> (Ok (), y)" for y
    using insert_finalize_chain(2) [OF wf, of E ?b] assms(3) n by metis
  then have same: "d1 = d"
    using 1 by (auto simp: ensure_first_block_def acquire_then_def with_tx_def Let_def
        split: if_splits sum.splits prod.splits list.splits)
  show ?thesis
    using ensure_rest_result [OF assms(1) _ assms(4) 1] wf progress unfolding same by blast
qed

interpretation started_node: inv_machine "node_start E bb" "node_step E C bb"
    "\<lambda>d. plan_ok E \<longrightarrow> node_inv E d"
  by unfold_locales
    (auto intro: node_inv_start node_inv_relays node_inv_validates dest: node_inv_restarts elim!: node_step_elim)

section \<open>Catching up\<close>

lemma round_at_head:
  assumes "plan_ok E" and "db_wf d" and "r0 \<in> set (t_block d)"
    and "\<forall>x \<in> set (t_block d). sint (blk_number x) \<noteq> sint (blk_number r0) + 1"
  shows "validate_next_block E C quiet_round creg preg (with_progress d r0) = Some (Ok False, with_progress d r0)"
proof -
  let ?d = "with_progress d r0"
  have "get_next_block_addresses E ?d (blk_address r0) = Ok []"
    using assms db_wf_D(1) [OF with_progress_wf [OF assms(2,3)]] by (intro no_next_address) simp_all
  then have "get_next_block E undisturbed (blk_address r0) ?d = Ok None"
    by (simp add: get_next_block_def reading_def next_block_query_def)
  with run_progress_with [OF assms(1-3)] show ?thesis
    by (simp add: validate_next_block_def get_last_progress_def pool_get_validation_progress_def reading_def
        get_validation_progress_def)
qed

text \<open>A linear chain has one row for each number up to its head.\<close>

lemma linear_rows:
  assumes "db_wf d" and "linear d"
  obtains h row where "(\<lambda>x. sint (fst x)) ` finalized_chain d = {0..h}"
    "\<And>m. m \<in> {0..h} \<Longrightarrow> row m \<in> set (t_block d)"
    "\<And>m x. m \<in> {0..h} \<Longrightarrow> x \<in> set (t_block d) \<Longrightarrow> sint (blk_number x) = m \<longleftrightarrow> x = row m"
    "\<And>x. x \<in> set (t_block d) \<Longrightarrow> sint (blk_number x) \<in> {0..h}"
proof -
  obtain h where h: "(\<lambda>x. sint (fst x)) ` finalized_chain d = {0..h}"
    using assms(2) by (auto simp: linear_def)
  have fin: "(blk_number x, blk_address x) \<in> finalized_chain d" if "x \<in> set (t_block d)" for x
    using assms(2) that by (auto simp: linear_def stored_numbers_def)
  have one: "x = y" if "x \<in> set (t_block d)" "y \<in> set (t_block d)" "sint (blk_number x) = sint (blk_number y)" for x y
  proof -
    have "blk_number x = blk_number y"
      using that(3) by (rule signed_word_eqI)
    then have "blk_address x = blk_address y"
      using finalized_chain_unique [OF assms(1) fin [OF that(1)]] fin [OF that(2)] by simp
    with db_wf_D(1) [OF assms(1)] that(1,2) show ?thesis
      by (auto simp: block_table_wf_def dest: distinct_map_inject)
  qed
  have ex: "\<exists>x. x \<in> set (t_block d) \<and> sint (blk_number x) = m" if "m \<in> {0..h}" for m
  proof -
    obtain z where z: "z \<in> finalized_chain d" "sint (fst z) = m"
      using \<open>m \<in> {0..h}\<close> unfolding h [symmetric] by blast
    from z(1) obtain b where "b \<in> set (t_block d)" "fst z = blk_number b"
      by (auto simp: finalized_chain_def)
    with z(2) show ?thesis by auto
  qed
  define row where "row m = (SOME x. x \<in> set (t_block d) \<and> sint (blk_number x) = m)" for m
  have row: "row m \<in> set (t_block d) \<and> sint (blk_number (row m)) = m" if "m \<in> {0..h}" for m
    unfolding row_def by (rule someI_ex [OF ex [OF that]])
  show thesis
  proof (rule that [OF h])
    show "row m \<in> set (t_block d)" if "m \<in> {0..h}" for m
      using row [OF that] by simp
    show "sint (blk_number x) = m \<longleftrightarrow> x = row m" if "m \<in> {0..h}" "x \<in> set (t_block d)" for m x
      using row [OF that(1)] one [OF that(2), of "row m"] by auto
    show "sint (blk_number x) \<in> {0..h}" if "x \<in> set (t_block d)" for x
      unfolding h [symmetric] using fin [OF that] by force
  qed
qed

lemma catches_up:
  assumes "plan_ok E" and "node_inv E d"
    and "\<forall>x \<in> set (t_block d). blk_number x \<noteq> 0 \<longrightarrow> row_valid E C creg preg d x"
  shows "\<exists>n r. validation_stream E C creg preg (replicate n (quiet_round, SenderDropped)) d =
      (TaskEnded (Ok ()), with_progress d r) \<and> r \<in> set (t_block d) \<and>
    (blk_number r, blk_address r) \<in> finalized_chain d \<and>
    (\<forall>x \<in> finalized_chain d. sint (fst x) \<le> sint (blk_number r))"
proof -
  have wf: "db_wf d" and lin: "linear d" and progress: "run_GET_VALIDATION_PROGRESS E d \<noteq> None"
    using assms(2) by (simp_all add: node_inv_def)
  obtain h row where h: "(\<lambda>x. sint (fst x)) ` finalized_chain d = {0..h}"
    "\<And>m. m \<in> {0..h} \<Longrightarrow> row m \<in> set (t_block d)"
    "\<And>m x. m \<in> {0..h} \<Longrightarrow> x \<in> set (t_block d) \<Longrightarrow> sint (blk_number x) = m \<longleftrightarrow> x = row m"
    "\<And>x. x \<in> set (t_block d) \<Longrightarrow> sint (blk_number x) \<in> {0..h}"
    using linear_rows [OF wf lin] by blast
  obtain r0 where r0: "r0 \<in> set (t_block d)" "t_validation_progress d = [\<lparr>vp_id = 1, vp_block_id = blk_id r0\<rparr>]"
    using progress progress_rows [OF assms(1) wf] by auto
  then have d: "with_progress d r0 = d"
    by (simp add: with_progress_def)
  let ?k = "sint (blk_number r0)"
  have k: "?k \<in> {0..h}" by (rule h(4) [OF r0(1)])
  have num: "sint (blk_number (row m)) = m" if "m \<in> {0..h}" for m
    using h(2,3) [OF that] by simp
  have "sint (fst x) \<in> {0..h}" if "x \<in> finalized_chain d" for x
    unfolding h(1) [symmetric] using that by blast
  then have bound: "\<forall>x \<in> finalized_chain d. sint (fst x) \<le> h"
    by simp
  have fin: "(blk_number (row h), blk_address (row h)) \<in> finalized_chain d"
    using lin h(2) [of h] k by (auto simp: linear_def stored_numbers_def)
  have "\<exists>n. validation_stream E C creg preg (replicate n (quiet_round, SenderDropped)) (with_progress d r0) =
      (TaskEnded (Ok ()), with_progress d (row h))"
  proof (cases "?k = h")
    case True
    have "r0 = row h"
      using h(3) [OF k r0(1)] True by simp
    have "\<forall>x \<in> set (t_block d). sint (blk_number x) \<noteq> ?k + 1"
      using h(4) True by fastforce
    from round_at_head [OF assms(1) wf r0(1) this, of C creg preg]
    show ?thesis
      by (intro exI [of _ 1]) (simp add: \<open>r0 = row h\<close> [symmetric])
  next
    case False
    let ?rs = "map (\<lambda>i. row (?k + 1 + int i)) [0..<nat (h - ?k)]"
    have inr: "?k + 1 + int i \<in> {0..h}" if "i < nat (h - ?k)" for i
      using that k by auto
    have ne: "?rs \<noteq> []" using False k by simp
    have sub: "set ?rs \<subseteq> set (t_block d)"
      using h(2) inr by auto
    have chain: "\<forall>i < length ?rs. \<forall>x \<in> set (t_block d). sint (blk_number x) = ?k + 1 + int i \<longleftrightarrow> x = ?rs ! i"
      using h(3) inr by simp
    have "blk_number (row m) \<noteq> 0" if "m \<in> {0..h}" "m \<noteq> 0" for m
      using num [OF that(1)] that(2) by (metis signed_0)
    then have valid: "\<forall>r \<in> set ?rs. row_valid E C creg preg d r"
      using assms(3) h(2) inr k by fastforce
    have "int (nat (h - ?k) - 1) = h - ?k - 1"
      using False k by (subst of_nat_diff) auto
    then have last: "last ?rs = row h"
      using ne by (simp add: last_map)
    from chain_validated [OF assms(1) wf r0(1) ne sub chain valid, unfolded last, OF fin] bound num [of h] k
    show ?thesis by auto
  qed
  then obtain n where "validation_stream E C creg preg (replicate n (quiet_round, SenderDropped)) d =
      (TaskEnded (Ok ()), with_progress d (row h))"
    unfolding d by blast
  moreover have "row h \<in> set (t_block d)"
    using h(2) k by simp
  ultimately show ?thesis
    using fin bound num [of h] k by (intro exI [of _ n] exI [of _ "row h"]) simp
qed

text \<open>
  C9. In every state that a started node reaches, by runs of the relayer that receive anything,
  rounds of the validation, each with writes of the other in between, and restarts, all stored blocks are finalized, with
  consecutive numbers from 0 on and one block for each, and the validation progress is one of them.
\<close>

theorem started_node_chain:
  assumes "plan_ok E" and "reachable (node_start E bb) (node_step E C bb) d"
  shows "db_wf d \<and> (\<forall>x \<in> set (t_block d). (blk_number x, blk_address x) \<in> finalized_chain d) \<and>
    (\<exists>h. bij_betw (\<lambda>x. sint (fst x)) (finalized_chain d) {0..h}) \<and>
    (\<exists>x \<in> finalized_chain d. get_validation_progress E d = Ok (Some (snd x)))"
proof -
  have "node_inv E d"
    using started_node.reachable_inv [OF assms(2)] assms(1) by blast
  then have wf: "db_wf d" and lin: "linear d" and progress: "run_GET_VALIDATION_PROGRESS E d \<noteq> None"
    by (simp_all add: node_inv_def)
  obtain h where h: "(\<lambda>x. sint (fst x)) ` finalized_chain d = {0..h}"
    using lin by (auto simp: linear_def)
  have "inj_on (\<lambda>x. sint (fst x)) (finalized_chain d)"
  proof (rule inj_onI)
    fix x y
    assume xy: "x \<in> finalized_chain d" "y \<in> finalized_chain d" "sint (fst x) = sint (fst y)"
    have "fst x = fst y" using xy(3) by (rule signed_word_eqI)
    with finalized_chain_unique [OF wf, of "fst x" "snd x" "snd y"] xy(1,2) show "x = y"
      by (cases x; cases y) simp
  qed
  with h have "bij_betw (\<lambda>x. sint (fst x)) (finalized_chain d) {0..h}"
    by (simp add: bij_betw_def)
  moreover have all: "\<forall>x \<in> set (t_block d). (blk_number x, blk_address x) \<in> finalized_chain d"
    using lin by (auto simp: linear_def stored_numbers_def)
  moreover obtain r where r: "r \<in> set (t_block d)" "run_GET_VALIDATION_PROGRESS E d = Some (blk_address r)"
    using progress progress_rows [OF assms(1) wf] by auto
  have "\<exists>x \<in> finalized_chain d. get_validation_progress E d = Ok (Some (snd x))"
    using all r by (intro bexI [of _ "(blk_number r, blk_address r)"]) (simp_all add: get_validation_progress_def)
  ultimately show ?thesis
    using wf by blast
qed

text \<open>
  C10. From every state that a started node reaches, if the stored blocks behind the big bang are valid
  and nothing disturbs it, the validation stream comes to the head of the finalized chain, changes
  nothing else, and waits there.
\<close>

theorem started_node_catches_up:
  assumes "plan_ok E" and "reachable (node_start E bb) (node_step E C bb) d"
    and "\<forall>x \<in> set (t_block d). blk_number x \<noteq> 0 \<longrightarrow>
      row_valid E C (contract (contract_registry bb)) (contract (program_registry bb)) d x"
  shows "\<exists>n d'. validation_stream E C (contract (contract_registry bb)) (contract (program_registry bb))
      (replicate n (quiet_round, SenderDropped)) d = (TaskEnded (Ok ()), d') \<and>
    d' = d\<lparr>t_validation_progress := t_validation_progress d'\<rparr> \<and>
    (\<exists>x \<in> finalized_chain d'. get_validation_progress E d' = Ok (Some (snd x)) \<and>
      get_latest_finalized_block_address E d' = Ok (Some (snd x)) \<and>
      (\<forall>y \<in> finalized_chain d'. sint (fst y) \<le> sint (fst x)))"
proof -
  have inv: "node_inv E d"
    using started_node.reachable_inv [OF assms(2)] assms(1) by blast
  then have wf: "db_wf d"
    by (simp add: node_inv_def)
  obtain n r where r: "validation_stream E C (contract (contract_registry bb)) (contract (program_registry bb))
        (replicate n (quiet_round, SenderDropped)) d =
      (TaskEnded (Ok ()), with_progress d r)" "r \<in> set (t_block d)"
    "(blk_number r, blk_address r) \<in> finalized_chain d"
    "\<forall>x \<in> finalized_chain d. sint (fst x) \<le> sint (blk_number r)"
    using catches_up [OF assms(1) inv assms(3)] by blast
  let ?d = "with_progress d r"
  have wf': "db_wf ?d" by (rule with_progress_wf [OF wf r(2)])
  have "get_validation_progress E ?d = Ok (Some (blk_address r))"
    by (simp add: get_validation_progress_def run_progress_with [OF assms(1) wf r(2)])
  moreover have "get_latest_finalized_block_address E ?d = Ok (Some (blk_address r))"
  proof (cases "get_latest_finalized_block_address E ?d")
    case (Inl e)
    with latest_finalized_head [OF assms(1) wf'] show ?thesis by simp
  next
    case (Inr a)
    note head = latest_finalized_head [OF assms(1) wf', unfolded Inr with_progress_simps, simplified]
    obtain a' where a': "a = Some a'"
      using head r(3) by (cases a) auto
    with head obtain h :: Header where a: "(number h, a') \<in> finalized_chain d"
      "\<forall>x \<in> finalized_chain d. sint (fst x) \<le> sint (number h)"
      by auto
    have "sint (number h) = sint (blk_number r)"
      using a r(3,4) by fastforce
    then have "number h = blk_number r" by (rule signed_word_eqI)
    with finalized_chain_unique [OF wf r(3)] a(1) a' Inr show ?thesis by simp
  qed
  ultimately have "\<exists>x \<in> finalized_chain ?d. get_validation_progress E ?d = Ok (Some (snd x)) \<and>
      get_latest_finalized_block_address E ?d = Ok (Some (snd x)) \<and>
      (\<forall>y \<in> finalized_chain ?d. sint (fst y) \<le> sint (fst x))"
    using r(3,4) by (intro bexI [of _ "(blk_number r, blk_address r)"]) simp_all
  moreover have "?d = d\<lparr>t_validation_progress := t_validation_progress ?d\<rparr>"
    by (simp add: with_progress_def)
  ultimately show ?thesis
    using r(1) by blast
qed

section \<open>A sample run\<close>

text \<open>A start with a big bang without solutions, and a run that receives the head and one block more.\<close>

definition quiet_big_bang :: BigBang where
  "quiet_big_bang = sample_big_bang\<lparr>bb_solution_set := \<lparr>solutions = []\<rparr>\<rparr>"

definition start_db :: db where
  "start_db = snd (ensure_big_bang_block chain_ext quiet_start quiet_big_bang create_tables)"

definition sample_inputs :: "sync_input list" where
  "sample_inputs = map (\<lambda>b. \<lparr>item = Ok b, item_access = undisturbed, others = (\<lambda>d. d)\<rparr>)
     [big_bang_block quiet_big_bang, plain_block 1]"

definition sample_progress :: "BlockProgress option" where
  "sample_progress = Some \<lparr>last_block_number = 0, last_block_address = ContentAddress 0\<rparr>"

definition next_db :: db where
  "next_db = fst (snd (sync_blocks chain_ext sample_progress sample_inputs (start_db, close_channel)))"

lemma start_db_start: "node_start chain_ext quiet_big_bang start_db"
proof -
  have "case fst (ensure_big_bang_block chain_ext quiet_start quiet_big_bang create_tables) of Inr a \<Rightarrow> True | _ \<Rightarrow> False"
    by code_simp
  then show ?thesis
    unfolding node_start_def start_db_def by (metis (no_types, lifting) old.sum.simps(5) prod.collapse sum.exhaust_sel)
qed

lemma sample_inputs_agree: "numbers_agree chain_ext start_db {b. \<exists>i \<in> set sample_inputs. item i = Ok b}"
proof -
  have B: "{b. \<exists>i \<in> set sample_inputs. item i = Ok b} = {big_bang_block quiet_big_bang, plain_block 1}"
    by (auto simp: sample_inputs_def)
  have stored: "\<forall>x \<in> stored_numbers start_db. x = (ContentAddress 0, 0)"
    by code_simp
  have addr: "content_addr_block chain_ext (big_bang_block quiet_big_bang) = ContentAddress 0"
    "content_addr_block chain_ext (plain_block 1) = ContentAddress 1"
    by code_simp+
  have "number (header (big_bang_block quiet_big_bang)) = 0"
    by (simp add: big_bang_block_def)
  with stored addr show ?thesis
    unfolding numbers_agree_def B by fastforce
qed

lemma next_db_reachable:
  "reachable (node_start chain_ext quiet_big_bang) (node_step chain_ext C quiet_big_bang) next_db"
proof (rule reach_step [OF reach_start [where start = "node_start chain_ext quiet_big_bang", OF start_db_start]])
  obtain r d' w' where run: "sync_blocks chain_ext sample_progress sample_inputs (start_db, close_channel) = (r, d', w')"
    by (metis prod_cases3)
  have "fst (get_block_progress chain_ext undisturbed start_db) = Ok sample_progress"
    by code_simp
  moreover have "\<forall>i \<in> set sample_inputs. validating chain_ext (others i)"
    by (simp add: sample_inputs_def validating_def chain_keeping_def)
  ultimately have "node_step chain_ext C quiet_big_bang start_db d'"
    using sample_inputs_agree run by (rule relays)
  with run show "node_step chain_ext C quiet_big_bang start_db next_db"
    by (simp add: next_db_def)
qed

lemma started_node_chain_witness:
  "(\<exists>h. bij_betw (\<lambda>x. sint (fst x)) (finalized_chain next_db) {0..h}) \<and> map blk_number (t_block next_db) = [0, 1]"
proof -
  have "map blk_number (t_block next_db) = [0, 1]"
    by code_simp
  with started_node_chain [OF chain_plan_ok next_db_reachable] show ?thesis by blast
qed

lemma started_node_catches_up_witness:
  "\<exists>n d'. validation_stream chain_ext sample_checker (ContentAddress 3) (ContentAddress 5)
       (replicate n (quiet_round, SenderDropped)) next_db = (TaskEnded (Ok ()), d') \<and>
     (\<exists>a. get_validation_progress chain_ext d' = Ok (Some a) \<and> get_latest_finalized_block_address chain_ext d' = Ok (Some a))"
proof -
  have "\<forall>x \<in> set (t_block next_db). blk_number x \<noteq> 0 \<longrightarrow>
      row_valid chain_ext sample_checker (ContentAddress 3) (ContentAddress 5) next_db x"
    by code_simp
  moreover have "contract (contract_registry quiet_big_bang) = ContentAddress 3"
    "contract (program_registry quiet_big_bang) = ContentAddress 5"
    by (simp_all add: quiet_big_bang_def sample_big_bang_def)
  ultimately show ?thesis
    using started_node_catches_up [OF chain_plan_ok next_db_reachable, of sample_checker] by fastforce
qed

end
