(* ===== verification/NodeCli.thy ===== *)
theory NodeCli
  imports NodeApi NodeRun
begin

text \<open>
  The command line (\<open>node-cli/src/lib.rs\<close>): the configuration of the database, the big bang
  configuration, and the run of a node with its streams and its API from start to close.  The parser
  of the arguments, the file system, YAML and the signals of the process are arguments; tracing is
  left out.
\<close>

section \<open>Arguments\<close>

datatype CliDb = MemoryDb | PersistentDb

record Args =
  relayer_source :: "string option"
  disable_validation :: bool
  cli_db :: CliDb
  db_path :: "string option"
  api_db_conn_limit :: nat
  node_db_conn_limit :: nat
  tcp_conn_limit :: nat
  big_bang :: "string option"

text \<open>The arguments of a command line without any option, on a machine with that many processors.\<close>

definition Args_default :: "nat \<Rightarrow> Args" where
  "Args_default num_cpus =
     \<lparr>relayer_source = None, disable_validation = False, cli_db = MemoryDb, db_path = None,
      api_db_conn_limit = default_conn_limit num_cpus, node_db_conn_limit = default_conn_limit num_cpus,
      tcp_conn_limit = DEFAULT_CONNECTION_LIMIT, big_bang = None\<rparr>"

lemma Args_default_limits:
  assumes "0 < num_cpus"
  shows "0 < node_db_conn_limit (Args_default num_cpus)" and "0 < api_db_conn_limit (Args_default num_cpus)"
    and "0 < tcp_conn_limit (Args_default num_cpus)"
  using assms by (simp_all add: Args_default_def default_conn_limit_def usize_max_def DEFAULT_CONNECTION_LIMIT_def)

text \<open>
  What the process sees: the data directory, files, YAML, the default configuration, SQLite for
  each of the two pools, the accesses of the start, the relayer's client, and the socket.
\<close>

record cli_env =
  data_dir :: "string option"
  read_to_string :: "string \<Rightarrow> unit + string"
  from_yaml :: "string \<Rightarrow> unit + BigBang"
  default_big_bang :: string
  node_open :: open_env
  node_begun :: "rusqlite_error + unit"
  node_committed :: "rusqlite_error + unit"
  api_open :: open_env
  api_begun :: "rusqlite_error + unit"
  api_committed :: "rusqlite_error + unit"
  starting :: start_accesses
  endpoint_parses :: "string \<Rightarrow> bool"
  client_builds :: bool
  bind_address :: "unit + unit"

datatype CliError =
    NoDataDir
  | Sqlite rusqlite_error
  | ReadBigBang
  | ParseBigBang
  | EnsureBigBang BigBangError
  | RunNode CriticalError
  | Bind
  | CloseNode "(Connection \<times> rusqlite_error) list"
  | CloseApi "(Connection \<times> rusqlite_error) list"

section \<open>Configuration\<close>

definition default_db_path :: "cli_env \<Rightarrow> string option" where
  "default_db_path env = map_option (\<lambda>path. path @ ''/essential/node/db.sqlite'') (data_dir env)"

definition node_db_conf_from_args :: "cli_env \<Rightarrow> Args \<Rightarrow> CliError + Config" where
  "node_db_conf_from_args env args =
     bind_result
       (case (cli_db args, db_path args) of
          (MemoryDb, None) \<Rightarrow> Ok default_memory
        | (_, Some path) \<Rightarrow> Ok (Path path)
        | (PersistentDb, None) \<Rightarrow>
            (case default_db_path env of None \<Rightarrow> Err NoDataDir | Some path \<Rightarrow> Ok (Path path)))
       (\<lambda>src. Ok (Config_new src (node_db_conn_limit args)))"

text \<open>\<open>None\<close> is the panic of a default configuration that does not parse.\<close>

definition load_big_bang_or_default :: "cli_env \<Rightarrow> string option \<Rightarrow> (CliError + BigBang) option" where
  "load_big_bang_or_default env path =
     (case path of
        None \<Rightarrow>
          map_option Ok (BigBang_default (from_yaml env) (default_big_bang env))
      | Some path \<Rightarrow> Some
          (bind_result (map_err (\<lambda>_. ReadBigBang) (read_to_string env path)) (\<lambda>big_bang_str.
           map_err (\<lambda>_. ParseBigBang) (from_yaml env big_bang_str))))"

section \<open>Running a node\<close>

text \<open>
  The start: the pool of the node, the big bang block and the streams, which the two registries are
  handed to.
\<close>

record started =
  node_conf :: Config
  node_db :: AsyncConnectionPool
  contract_reg :: ContentAddress
  program_reg :: ContentAddress
  node_handle :: NodeHandle
  block_rx :: nat
  block_channel :: watch

definition start_node ::
  "node_ext \<Rightarrow> cli_env \<Rightarrow> Args \<Rightarrow> db option \<Rightarrow> ((CliError + started) \<times> db option) option" where
  "start_node E env args d =
     (case node_db_conf_from_args env args of
        Inl e \<Rightarrow> Some (Err e, d)
      | Inr node_db_conf \<Rightarrow>
          (case with_tables (node_open env) (node_begun env) (node_committed env) node_db_conf d of
             None \<Rightarrow> None
           | Some (Inl e, d1) \<Rightarrow> Some (Err (Sqlite e), d1)
           | Some (Inr p, d1) \<Rightarrow>
               (case load_big_bang_or_default env (big_bang args) of
                  None \<Rightarrow> None
                | Some (Inl e) \<Rightarrow> Some (Err e, d1)
                | Some (Inr bb) \<Rightarrow>
                    (case ensure_big_bang_block E (starting env) bb (the d1) of
                       (Inl e, d2) \<Rightarrow> Some (Err (EnsureBigBang e), Some d2)
                     | (Inr _, d2) \<Rightarrow>
                         let (rx, w) = new_listener block_tx_new;
                             run_conf = \<lparr>relayer_source_endpoint = relayer_source args,
                               run_validation = \<not> disable_validation args\<rparr> in
                         (case run (endpoint_parses env) (client_builds env) run_conf w of
                            (Inl e, _) \<Rightarrow> Some (Err (RunNode e), Some d2)
                          | (Inr h, w') \<Rightarrow> Some (Ok \<lparr>node_conf = node_db_conf, node_db = p,
                              contract_reg = contract (contract_registry bb),
                              program_reg = contract (program_registry bb), node_handle = h, block_rx = rx, block_channel = w'\<rparr>, Some d2))))))"

text \<open>
  The streams run as tasks beside the API.  Each step is one run of the relayer or one round of the
  validation, in the order in which they end; what the other stream writes meanwhile is in
  \<open>writes_of_others\<close> of the run and in \<open>before_next\<close>, \<open>before_validate\<close> and \<open>before_outcome\<close> of the round.
  A stream that the arguments disable, and a task that has ended, takes no step.
\<close>

datatype task_step = RelayerRun stream_run | ValidationRound round wake

record node_tasks =
  tasks_db :: db
  tasks_channel :: watch
  relayer_task :: "RelayerError task"
  validation_task :: "CriticalError task"

fun run_task ::
  "node_ext \<Rightarrow> 'pe checker \<Rightarrow> (str \<Rightarrow> Block option) \<Rightarrow> started \<Rightarrow> task_step \<Rightarrow> node_tasks \<Rightarrow> node_tasks" where
  "run_task E C from_str node (RelayerRun r) s =
     (if relayer_handle (node_handle node) = None \<or> relayer_task s \<noteq> Running then s
      else case run_relayer E from_str [r] (tasks_db s, tasks_channel s) of
        (e, d, w) \<Rightarrow> s\<lparr>tasks_db := d, tasks_channel := w,
          relayer_task := (case e of None \<Rightarrow> Running | Some e \<Rightarrow> TaskEnded e)\<rparr>)"
| "run_task E C from_str node (ValidationRound R wake) s =
     (if validation_handle (node_handle node) = None \<or> validation_task s \<noteq> Running then s
      else case validation_stream E C (contract_reg node) (program_reg node) [(R, wake)] (tasks_db s) of
        (t, d) \<Rightarrow> s\<lparr>tasks_db := d, validation_task := t\<rparr>)"

definition run_tasks ::
  "node_ext \<Rightarrow> 'pe checker \<Rightarrow> (str \<Rightarrow> Block option) \<Rightarrow> started \<Rightarrow> task_step list \<Rightarrow> node_tasks \<Rightarrow> node_tasks" where
  "run_tasks E C from_str node = fold (run_task E C from_str node)"

text \<open>
  The future that ends when the streams of the node do: it stays pending when no stream runs, while
  the streams that it waits for run, and when the validation ends well in a node without a relayer.
  Which stream ends first is an argument, as for \<open>join\<close>.
\<close>

datatype 'a future = Pending | Ready 'a | Panicking

definition task_result :: "'e task \<Rightarrow> JoinError + ('e + unit)" where
  "task_result t =
     (case t of TaskEnded r \<Rightarrow> Inr r | TaskPanicked \<Rightarrow> Err JoinPanic | Running \<Rightarrow> Err JoinCancelled)"

definition join_pending :: "bool \<Rightarrow> NodeHandle \<Rightarrow> node_tasks \<Rightarrow> bool" where
  "join_pending relayer_first h s =
     (let relayer = relayer_handle h \<noteq> None \<and> relayer_task s = Running;
          validation = validation_handle h \<noteq> None \<and> validation_task s = Running
      in if relayer_first then relayer \<or> relayer_task s = TaskEnded (Ok ()) \<and> validation
         else validation \<or> validation_task s = TaskEnded (Ok ()) \<and> relayer)"

definition node_future :: "Args \<Rightarrow> bool \<Rightarrow> NodeHandle \<Rightarrow> node_tasks \<Rightarrow> (NodeHandleJoinError + unit) future" where
  "node_future args relayer_first h s =
     (if relayer_source args = None \<and> disable_validation args then Pending
      else if join_pending relayer_first h s then Pending
      else case fst (join relayer_first (\<lambda>_. task_result (relayer_task s)) (\<lambda>_. task_result (validation_task s)) h) of
        None \<Rightarrow> Panicking
      | Some r \<Rightarrow> if r = Ok () \<and> relayer_source args = None then Pending else Ready r)"

text \<open>
  What happens while the node runs: the steps of its streams before the API serves and from then on,
  which stream ends first, the turns of the API server, which only reads the database, and how the
  connections close.
\<close>

record running =
  tasks_before :: "task_step list"
  tasks_serving :: "task_step list"
  relayer_ends_first :: bool
  server_turns :: "turn list"
  node_closes :: "Connection \<Rightarrow> rusqlite_error option"
  api_closes :: "Connection \<Rightarrow> rusqlite_error option"

text \<open>
  The \<open>select!\<close> ends with the signal or with the future of the node, whose error is only traced;
  then the pools are closed.  A panic of the server or of the streams ends the run.
\<close>

definition select_panics :: "Args \<Rightarrow> running \<Rightarrow> NodeHandle \<Rightarrow> node_tasks \<Rightarrow> bool" where
  "select_panics args R h s \<longleftrightarrow>
     serve (tcp_conn_limit args) (server_turns R) = None \<or> node_future args (relayer_ends_first R) h s = Panicking"

definition cli_run ::
  "node_ext \<Rightarrow> 'pe checker \<Rightarrow> (str \<Rightarrow> Block option) \<Rightarrow> cli_env \<Rightarrow> running \<Rightarrow> Args \<Rightarrow> db option \<Rightarrow>
   ((CliError + unit) \<times> db option) option" where
  "cli_run E C from_str env R args d =
     (case start_node E env args d of
        None \<Rightarrow> None
      | Some (Inl e, d1) \<Rightarrow> Some (Err e, d1)
      | Some (Inr node, d1) \<Rightarrow>
          let s1 = run_tasks E C from_str node (tasks_before R)
                \<lparr>tasks_db = the d1, tasks_channel = block_channel node, relayer_task = Running, validation_task = Running\<rparr>;
              api_db_conf = (node_conf node)\<lparr>conn_limit := api_db_conn_limit args\<rparr> in
          (case with_tables (api_open env) (api_begun env) (api_committed env) api_db_conf (Some (tasks_db s1)) of
             None \<Rightarrow> None
           | Some (Inl e, d2) \<Rightarrow> Some (Err (Sqlite e), d2)
           | Some (Inr api_db, d2) \<Rightarrow>
               (case bind_address env of
                  Inl _ \<Rightarrow> Some (Err Bind, d2)
                | Inr _ \<Rightarrow>
                    let s2 = run_tasks E C from_str node (tasks_serving R) (s1\<lparr>tasks_db := the d2\<rparr>) in
                    if select_panics args R (node_handle node) s2 then None
                    else
                      (case fst (conn_pool_close (node_closes R) (node_db node)) of
                         Inl errs \<Rightarrow> Some (Err (CloseNode errs), Some (tasks_db s2))
                       | Inr _ \<Rightarrow>
                           (case fst (conn_pool_close (api_closes R) api_db) of
                              Inl errs \<Rightarrow> Some (Err (CloseApi errs), Some (tasks_db s2))
                            | Inr _ \<Rightarrow> Some (Ok (), Some (tasks_db s2)))))))"

section \<open>The run of a node\<close>

text \<open>A well-formed database, or one without its tables.\<close>

definition tables_wf :: "db option \<Rightarrow> bool" where
  "tables_wf d \<longleftrightarrow> (case d of None \<Rightarrow> True | Some d \<Rightarrow> db_wf d)"

lemma with_tables_result:
  assumes "0 < conn_limit conf" and "tables_wf d"
  obtains (failed) e where "with_tables env bg cm conf d = Some (Err e, d)"
  | (opened) p t where "with_tables env bg cm conf d = Some (Ok p, Some t)" "db_wf t" "\<forall>t'. d = Some t' \<longrightarrow> t = t'"
proof -
  note opens = with_tables_opens [where env = env and bg = bg and cm = cm and conf = conf and d = d]
  obtain r d' where rd: "with_tables env bg cm conf d = Some (r, d')"
    using opens assms(1) by (cases "with_tables env bg cm conf d") auto
  show thesis
  proof (cases r)
    case (Inl e)
    with opens rd failed show thesis by simp
  next
    case (Inr p)
    with opens rd have "d' = Some (case d of None \<Rightarrow> create_tables | Some t \<Rightarrow> t)" by simp
    with rd Inr assms(2) opened [of p "case d of None \<Rightarrow> create_tables | Some t \<Rightarrow> t"] create_tables_wf show thesis
      by (simp add: tables_wf_def split: option.splits)
  qed
qed

lemma conf_limit:
  "node_db_conf_from_args env args = Ok conf \<Longrightarrow> conn_limit conf = node_db_conn_limit args"
  by (auto simp: node_db_conf_from_args_def bind_result_Ok_iff Config_new_def)

lemma load_big_bang_cases:
  assumes "path = None \<longrightarrow> from_yaml env (default_big_bang env) \<noteq> Err ()"
  obtains (failed) e where "load_big_bang_or_default env path = Some (Err e)" "e \<in> {ReadBigBang, ParseBigBang}"
  | (loaded) bb where "load_big_bang_or_default env path = Some (Ok bb)"
proof (cases path)
  case None
  then obtain bb where "from_yaml env (default_big_bang env) = Ok bb"
    using assms by (cases "from_yaml env (default_big_bang env)") auto
  with None loaded show thesis by (simp add: load_big_bang_or_default_def BigBang_default_def)
next
  case (Some yml)
  show thesis
  proof (cases "read_to_string env yml")
    case (Inl u)
    with Some failed [of ReadBigBang] show thesis by (simp add: load_big_bang_or_default_def)
  next
    case read: (Inr str)
    show thesis
      using Some read failed [of ParseBigBang] loaded
      by (cases "from_yaml env str") (simp_all add: load_big_bang_or_default_def)
  qed
qed

text \<open>The errors of the start are those of its own calls.\<close>

definition start_error :: "CliError \<Rightarrow> bool" where
  "start_error e \<longleftrightarrow> (case e of Bind \<Rightarrow> False | CloseNode _ \<Rightarrow> False | CloseApi _ \<Rightarrow> False | _ \<Rightarrow> True)"

lemma node_db_conf_Err: "node_db_conf_from_args env args = Err e \<Longrightarrow> e = NoDataDir"
  by (cases "cli_db args"; cases "db_path args"; cases "default_db_path env")
    (auto simp: node_db_conf_from_args_def)

text \<open>
  A start whose pool has connections and whose default configuration parses does not panic.  When
  it succeeds, the node has a pool, and a database with its tables and a progress.
\<close>

lemma start_node_result:
  assumes "plan_ok E" and "tables_wf d" and "0 < node_db_conn_limit args"
    and "big_bang args = None \<longrightarrow> from_yaml env (default_big_bang env) \<noteq> Err ()"
  shows "\<exists>r d'. start_node E env args d = Some (r, d') \<and> tables_wf d' \<and>
    (case r of
       Inl e \<Rightarrow> start_error e \<and> (e = NoDataDir \<longrightarrow> d' = d)
     | Inr node \<Rightarrow> conn_limit (node_conf node) = node_db_conn_limit args \<and>
         (\<exists>t. d' = Some t \<and> run_GET_VALIDATION_PROGRESS E t \<noteq> None))"
proof (cases "node_db_conf_from_args env args")
  case (Inl e)
  with assms(2) node_db_conf_Err [OF Inl] show ?thesis
    by (simp add: start_node_def start_error_def)
next
  case (Inr conf)
  note limit = conf_limit [OF Inr]
  from limit assms(3) have pos: "0 < conn_limit conf" by simp
  show ?thesis
  proof (cases rule: with_tables_result [OF pos assms(2), of "node_open env" "node_begun env" "node_committed env"])
    case (1 e)
    with Inr assms(2) show ?thesis
      by (simp add: start_node_def start_error_def)
  next
    case opened: (2 p t)
    show ?thesis
    proof (cases rule: load_big_bang_cases [OF assms(4)])
      case (1 e)
      with Inr opened show ?thesis
        by (auto simp: start_node_def tables_wf_def start_error_def)
    next
      case loaded: (2 bb)
      obtain r2 d2 where 2: "ensure_big_bang_block E (starting env) bb t = (r2, d2)" by fastforce
      have "db_wf d2 \<and> (\<forall>a. r2 = Ok a \<longrightarrow> run_GET_VALIDATION_PROGRESS E d2 \<noteq> None)"
        by (rule start_has_progress [OF assms(1) opened(2) 2])
      moreover obtain rx w where 3: "new_listener block_tx_new = (rx, w)" by fastforce
      moreover obtain h w' where 4: "run (endpoint_parses env) (client_builds env)
          \<lparr>relayer_source_endpoint = relayer_source args, run_validation = \<not> disable_validation args\<rparr> w = (h, w')"
        by fastforce
      ultimately show ?thesis
        using 2 loaded opened(1) Inr limit
        by (cases r2; cases h) (simp_all add: start_node_def tables_wf_def start_error_def)
    qed
  qed
qed

section \<open>What the streams keep\<close>

text \<open>A database with a progress that has kept all blocks of another one, and which of them are finalized.\<close>

definition kept :: "node_ext \<Rightarrow> db \<Rightarrow> db \<Rightarrow> bool" where
  "kept E d d' \<longleftrightarrow> db_wf d' \<and> run_GET_VALIDATION_PROGRESS E d' \<noteq> None \<and>
     set (t_block d) \<subseteq> set (t_block d') \<and> set (t_finalized_block d) \<subseteq> set (t_finalized_block d')"

text \<open>Writes such as those of the relayer: they add blocks, and finalize blocks.\<close>

definition chain_growing :: "(db \<Rightarrow> db) \<Rightarrow> bool" where
  "chain_growing f \<longleftrightarrow> blocks_growing f \<and>
     (\<forall>d. db_wf d \<longrightarrow> set (t_finalized_block d) \<subseteq> set (t_finalized_block (f d)))"

text \<open>
  In each step, the other stream writes what it may: the validation as \<open>record_valid_validating\<close> and
  \<open>record_failed_validating\<close> show of its writes, the relayer as \<open>write_block_chain_growing\<close> shows of its own.
\<close>

definition tasks_apart :: "node_ext \<Rightarrow> task_step list \<Rightarrow> bool" where
  "tasks_apart E ts \<longleftrightarrow>
     (\<forall>r. RelayerRun r \<in> set ts \<longrightarrow> (\<forall>i. validating E (writes_of_others r i))) \<and>
     (\<forall>R w. ValidationRound R w \<in> set ts \<longrightarrow>
        chain_growing (before_next R) \<and> chain_growing (before_validate R) \<and> chain_growing (before_outcome R))"

lemma finalize_block_grows: "set (t_finalized_block d) \<subseteq> set (t_finalized_block (snd (finalize_block a d)))"
  by (auto simp: finalize_block_def of_stmt_def FINALIZE_BLOCK_def split: sum.splits option.splits if_splits)

lemma insert_finalize_grows:
  assumes "insert_finalize E b d = (Ok (), d')"
  shows "set (t_finalized_block d) \<subseteq> set (t_finalized_block d')"
proof -
  obtain d1 where i: "insert_block E b d = (Ok (content_addr_block E b), d1)"
    and f: "finalize_block (content_addr_block E b) d1 = (Ok (), d')"
    using assms by (rule insert_finalize_cases)
  obtain "t_finalized_block d1 = t_finalized_block d"
    using i by (rule insert_block_tables)
  with finalize_block_grows [of d1 "content_addr_block E b"] f show ?thesis
    by simp
qed

lemma write_block_chain_growing: "chain_growing (\<lambda>d. snd (write_block E A b d))"
proof -
  have "set (t_finalized_block d) \<subseteq> set (t_finalized_block (snd (write_block E A b d)))" for d
  proof (cases "write_block E A b d")
    case (Pair r d')
    with write_block_Ok [of E A b d] write_block_Err [of E A b d] insert_finalize_grows show ?thesis
      by (cases r) (auto dest!: insert_finalize_grows)
  qed
  with write_block_growing show ?thesis
    by (simp add: chain_growing_def)
qed

lemma kept_validating:
  assumes "kept E d x" and "validating E f"
  shows "kept E d (f x)"
  using assms unfolding kept_def validating_def chain_keeping_def by auto

lemma kept_growing:
  assumes "plan_ok E" and "kept E d x" and "chain_growing f"
  shows "kept E d (f x)"
proof -
  have wf: "db_wf x" using assms(2) by (simp add: kept_def)
  have "blocks_growing f" using assms(3) by (simp add: chain_growing_def)
  note grow = blocks_growingD [OF this wf]
  have "set (t_finalized_block x) \<subseteq> set (t_finalized_block (f x))"
    using assms(3) wf by (simp add: chain_growing_def)
  with assms(2) grow progress_grow [OF assms(1) wf grow] show ?thesis
    unfolding kept_def by (simp, blast)
qed

lemma kept_insert_finalize:
  assumes "plan_ok E" and "kept E d x" and "insert_finalize E b x = (Ok (), x')"
  shows "kept E d x'"
  using assms(2) run_progress_insert_finalize [OF assms(1) _ assms(3)] insert_finalize_grows [OF assms(3)]
  unfolding kept_def by auto

lemma relayer_run_kept:
  assumes "plan_ok E" and "kept E d0 d" and "\<forall>i. validating E (writes_of_others r i)"
    and "run_relayer E from_str [r] (d, w) = (e, d', w')"
  shows "kept E d0 d'"
proof -
  obtain x where "run_blocks E from_str r (d, w) = (x, d', w')"
    using assms(4) by (auto split: sum.splits prod.splits)
  then consider "d' = d" | progress items where "sync_blocks E progress (sync_inputs r items) (d, w) = (x, d', w')"
    by (auto simp: run_blocks_def split: sum.splits)
  then show ?thesis
  proof cases
    case 2
    from this assms(2) show ?thesis
    proof (rule sync_blocks_keeps)
      fix i y
      assume i: "i \<in> set (sync_inputs r items)" and y: "kept E d0 y"
      then obtain k where "others i = writes_of_others r k"
        by (auto simp: sync_inputs_def)
      with y assms(3) show "kept E d0 (others i y)"
        by (simp add: kept_validating)
    qed (rule kept_insert_finalize [OF assms(1)])
  qed (use assms(2) in simp)
qed

lemma round_kept:
  assumes "plan_ok E" and "kept E d0 d"
    and "chain_growing (before_next R)" and "chain_growing (before_validate R)" and "chain_growing (before_outcome R)"
    and "validate_next_block E C R creg preg d = Some (res, d')"
  shows "kept E d0 d'"
proof -
  note k1 = kept_growing [OF assms(1,2,3)]
  note k2 = kept_growing [OF assms(1) k1 assms(4)]
  note k3 = kept_growing [OF assms(1) k2 assms(5)]
  show ?thesis
  proof (cases rule: round_cases [of E C R creg preg d])
    case (early x res)
    with assms(2,6) k1 k2 show ?thesis by auto
  next
    case (valid p b g r x)
    with kept_validating [OF k3 record_valid_validating [OF assms(1)]] assms(6) show ?thesis
      by (metis Pair_inject option.inject snd_conv)
  next
    case (invalid p b f ix r x)
    with kept_validating [OF k3 record_failed_validating [OF assms(1)]] assms(6) show ?thesis
      by (metis Pair_inject option.inject snd_conv)
  qed
qed

lemma run_task_keeps:
  assumes "plan_ok E" and "tasks_apart E [t]" and "kept E d (tasks_db s)"
    and "relayer_task s \<noteq> TaskPanicked" and "validation_task s \<noteq> TaskPanicked"
  shows "kept E d (tasks_db (run_task E C from_str node t s)) \<and>
    relayer_task (run_task E C from_str node t s) \<noteq> TaskPanicked \<and>
    validation_task (run_task E C from_str node t s) \<noteq> TaskPanicked"
proof (cases t)
  case (RelayerRun r)
  obtain e d' w' where run: "run_relayer E from_str [r] (tasks_db s, tasks_channel s) = (e, d', w')"
    by (metis prod_cases3)
  have "kept E d d'"
    using relayer_run_kept [OF assms(1,3) _ run] assms(2) RelayerRun by (simp add: tasks_apart_def)
  with assms(3-5) RelayerRun run show ?thesis
    by (simp del: run_relayer.simps split: option.split)
next
  case (ValidationRound R w)
  let ?reg = "contract_reg node" and ?preg = "program_reg node"
  have grow: "chain_growing (before_next R)" "chain_growing (before_validate R)" "chain_growing (before_outcome R)"
    using assms(2) ValidationRound by (simp_all add: tasks_apart_def)
  then have blocks: "rounds_growing [(R, w)]"
    by (simp add: rounds_growing_def chain_growing_def)
  have db: "db_wf (tasks_db s)" "run_GET_VALIDATION_PROGRESS E (tasks_db s) \<noteq> None"
    using assms(3) by (simp_all add: kept_def)
  obtain v d' where run: "validation_stream E C ?reg ?preg [(R, w)] (tasks_db s) = (v, d')"
    by fastforce
  obtain res where "validate_next_block E C R ?reg ?preg (tasks_db s) = Some (res, d')"
    using run round_result [OF assms(1) db(1), of R C ?reg ?preg] grow
    by (auto simp: chain_growing_def split: sum.splits bool.splits wake.splits)
  from round_kept [OF assms(1,3) grow this] stream_keeps_progress [OF assms(1) db blocks run]
  show ?thesis
    using assms(3-5) ValidationRound run by (simp del: validation_stream.simps)
qed

lemma run_tasks_keep:
  assumes "plan_ok E" and "tasks_apart E ts" and "kept E d (tasks_db s)"
    and "relayer_task s \<noteq> TaskPanicked" and "validation_task s \<noteq> TaskPanicked"
  shows "kept E d (tasks_db (run_tasks E C from_str node ts s)) \<and>
    relayer_task (run_tasks E C from_str node ts s) \<noteq> TaskPanicked \<and>
    validation_task (run_tasks E C from_str node ts s) \<noteq> TaskPanicked"
  using assms(2-5)
proof (induction ts arbitrary: s)
  case (Cons t ts)
  have apart: "tasks_apart E [t]" "tasks_apart E ts"
    using Cons.prems(1) by (auto simp: tasks_apart_def)
  have step: "run_tasks E C from_str node (t # ts) s = run_tasks E C from_str node ts (run_task E C from_str node t s)"
    by (simp add: run_tasks_def)
  show ?case
    unfolding step
    using run_task_keeps [OF assms(1) apart(1) Cons.prems(2-4), of C from_str node]
    by (intro Cons.IH [OF apart(2)]) simp_all
qed (simp add: run_tasks_def)

lemma node_future_calm:
  assumes "relayer_task s \<noteq> TaskPanicked" and "validation_task s \<noteq> TaskPanicked"
  shows "node_future args f h s \<noteq> Panicking"
proof -
  have calm: "flatten_result (task_result t) \<noteq> None" if "t \<noteq> TaskPanicked" for t :: "'e task"
    using that by (cases t) (simp_all add: task_result_def flatten_result_def)
  have "fst (join f (\<lambda>_. task_result (relayer_task s)) (\<lambda>_. task_result (validation_task s)) h) \<noteq> None"
    using calm [OF assms(1)] calm [OF assms(2)]
    by (auto simp: join_def close_stream_def handle_join_def validation_join_def Let_def split: option.splits)
  then show ?thesis
    by (auto simp: node_future_def split: option.splits)
qed

lemma serving_goes_on:
  assumes "0 < tcp_conn_limit args" and "relayer_task s \<noteq> TaskPanicked" and "validation_task s \<noteq> TaskPanicked"
  shows "\<not> select_panics args R h s"
proof -
  obtain y where "serve_turns (tcp_conn_limit args) (server_turns R) [] = Some y"
    using serve_turns_limit [of "tcp_conn_limit args" "[]" "server_turns R"] assms(1) by auto
  with node_future_calm [OF assms(2,3)] show ?thesis
    by (simp add: select_panics_def serve_def)
qed

lemma finalized_chain_mono:
  "set (t_block d) \<subseteq> set (t_block d') \<Longrightarrow> set (t_finalized_block d) \<subseteq> set (t_finalized_block d') \<Longrightarrow>
    finalized_chain d \<subseteq> finalized_chain d'"
  unfolding finalized_chain_def by blast

text \<open>A run whose start succeeds.\<close>

lemma cli_run_started:
  assumes "plan_ok E" and "start_node E env args d = Some (Ok node, Some t)" and "kept E t t"
    and "0 < api_db_conn_limit args" and "0 < tcp_conn_limit args"
    and "tasks_apart E (tasks_before R @ tasks_serving R)"
  shows "\<exists>r d'. cli_run E C from_str env R args d = Some (r, Some d') \<and> kept E t d' \<and> r \<noteq> Err NoDataDir"
proof -
  let ?s = "\<lparr>tasks_db = t, tasks_channel = block_channel node, relayer_task = Running, validation_task = Running\<rparr>"
  let ?s1 = "run_tasks E C from_str node (tasks_before R) ?s"
  let ?s2 = "run_tasks E C from_str node (tasks_serving R) ?s1"
  have apart: "tasks_apart E (tasks_before R)" "tasks_apart E (tasks_serving R)"
    using assms(6) by (auto simp: tasks_apart_def)
  have s1: "kept E t (tasks_db ?s1)" "relayer_task ?s1 \<noteq> TaskPanicked" "validation_task ?s1 \<noteq> TaskPanicked"
    using run_tasks_keep [OF assms(1) apart(1), of t ?s C from_str node] assms(3) by simp_all
  note s2 = run_tasks_keep [OF assms(1) apart(2) s1, of C from_str node]
  have calm: "\<not> select_panics args R (node_handle node) ?s2"
    using serving_goes_on [OF assms(5)] s2 by blast
  have pos: "0 < conn_limit ((node_conf node)\<lparr>conn_limit := api_db_conn_limit args\<rparr>)"
    using assms(4) by simp
  have wf1: "tables_wf (Some (tasks_db ?s1))"
    using s1(1) by (simp add: tables_wf_def kept_def)
  show ?thesis
  proof (cases rule: with_tables_result [OF pos wf1, of "api_open env" "api_begun env" "api_committed env"])
    case (1 e)
    with assms(2) s1(1) show ?thesis
      by (simp add: cli_run_def)
  next
    case (2 p t')
    then have "t' = tasks_db ?s1" by simp
    with assms(2) 2(1) calm s1(1) s2 show ?thesis
      by (simp add: cli_run_def Let_def split: sum.split)
  qed
qed

text \<open>
  C39. A run of the node with positive limits, on a database that is well-formed or new, panics only
  if the default big bang does not parse, whatever its streams do and however they interleave; between the
  accesses of one, the other only adds and finalizes blocks, or leaves the blocks and a progress
  (\<open>tasks_apart\<close>).  When it cannot find a place for its database, it changes nothing.  When it gets as far as closing its pools,
  whether that succeeds or not, the database that it leaves has its tables and a validation progress,
  and all blocks that the start found or wrote, with those of them finalized that were so.
\<close>

theorem cli_run_outcome:
  assumes "plan_ok E" and "tables_wf d" and "0 < node_db_conn_limit args" and "0 < api_db_conn_limit args"
    and "0 < tcp_conn_limit args" and "big_bang args = None \<longrightarrow> from_yaml env (default_big_bang env) \<noteq> Err ()"
    and "tasks_apart E (tasks_before R @ tasks_serving R)"
  shows "\<exists>r d'. cli_run E C from_str env R args d = Some (r, d') \<and> tables_wf d' \<and>
    (r = Err NoDataDir \<longrightarrow> d' = d) \<and>
    (\<forall>errs. r \<in> {Ok (), Err (CloseNode errs), Err (CloseApi errs)} \<longrightarrow>
      (\<exists>node t t'. start_node E env args d = Some (Ok node, Some t) \<and> d' = Some t' \<and>
        db_wf t' \<and> run_GET_VALIDATION_PROGRESS E t' \<noteq> None \<and>
        set (t_block t) \<subseteq> set (t_block t') \<and> finalized_chain t \<subseteq> finalized_chain t'))"
proof -
  obtain r1 d1 where 1: "start_node E env args d = Some (r1, d1)" "tables_wf d1"
    "case r1 of Inl e \<Rightarrow> start_error e \<and> (e = NoDataDir \<longrightarrow> d1 = d)
     | Inr node \<Rightarrow> conn_limit (node_conf node) = node_db_conn_limit args \<and>
         (\<exists>t. d1 = Some t \<and> run_GET_VALIDATION_PROGRESS E t \<noteq> None)"
    using start_node_result [OF assms(1-3,6)] by blast
  show ?thesis
  proof (cases r1)
    case (Inl e)
    with 1 show ?thesis
      by (auto simp: cli_run_def start_error_def)
  next
    case (Inr node)
    with 1 obtain t where t: "start_node E env args d = Some (Ok node, Some t)" "kept E t t"
      by (auto simp: tables_wf_def kept_def)
    obtain r t' where run: "cli_run E C from_str env R args d = Some (r, Some t')" "kept E t t'" "r \<noteq> Err NoDataDir"
      using cli_run_started [OF assms(1) t assms(4,5,7)] by blast
    with t(1) finalized_chain_mono [of t t'] show ?thesis
      by (auto simp: kept_def tables_wf_def)
  qed
qed

definition sample_env :: cli_env where
  "sample_env = (let sqlite = \<lparr>open_path = (\<lambda>_ i. Ok i), open_memdb = (\<lambda>_ i. Ok i), pragma_update = (\<lambda>_ _. Ok ())\<rparr> in
     \<lparr>data_dir = None, read_to_string = (\<lambda>_. Err ()), from_yaml = (\<lambda>_. Ok sample_big_bang), default_big_bang = [],
      node_open = sqlite, node_begun = Ok (), node_committed = Ok (),
      api_open = sqlite, api_begun = Ok (), api_committed = Ok (), starting = quiet_start,
      endpoint_parses = (\<lambda>_. True), client_builds = True, bind_address = Ok ()\<rparr>)"

definition sample_args :: Args where
  "sample_args = \<lparr>relayer_source = Some [], disable_validation = False, cli_db = MemoryDb, db_path = None,
     api_db_conn_limit = 2, node_db_conn_limit = 2, tcp_conn_limit = 1, big_bang = None\<rparr>"

text \<open>A run in which the relayer gets no answer, starts over, and the validation finds nothing new.\<close>

definition sample_running :: running where
  "sample_running = \<lparr>tasks_before = [RelayerRun failing_run],
     tasks_serving = [ValidationRound quiet_round BlockNotified, RelayerRun failing_run],
     relayer_ends_first = True, server_turns = [], node_closes = (\<lambda>_. None), api_closes = (\<lambda>_. None)\<rparr>"

lemma validating_id: "validating E id"
  by (simp add: validating_def chain_keeping_id)

lemma sample_running_apart: "tasks_apart E (tasks_before sample_running @ tasks_serving sample_running)"
  by (auto simp: tasks_apart_def sample_running_def failing_run_def sample_run_def quiet_round_def
      validating_id chain_growing_def blocks_growing_id [folded id_def])

lemma cli_run_outcome_witness:
  "\<exists>r d'. cli_run sample_ext sample_checker (\<lambda>_. None) sample_env sample_running sample_args None = Some (r, d') \<and>
     (r = Ok () \<longrightarrow> (\<exists>t. d' = Some t \<and> db_wf t \<and> run_GET_VALIDATION_PROGRESS sample_ext t \<noteq> None))"
proof -
  have "tables_wf None" by (simp add: tables_wf_def)
  moreover have "0 < node_db_conn_limit sample_args" "0 < api_db_conn_limit sample_args" "0 < tcp_conn_limit sample_args"
    by (simp_all add: sample_args_def)
  moreover have "big_bang sample_args = None \<longrightarrow> from_yaml sample_env (default_big_bang sample_env) \<noteq> Err ()"
    by (simp add: sample_env_def Let_def)
  ultimately show ?thesis
    using cli_run_outcome [OF sample_plan_ok _ _ _ _ _ sample_running_apart, of None sample_args sample_env
        sample_checker "\<lambda>_. None"]
    by (fastforce simp only: insert_iff)
qed

end
