(* ===== verification/Watched.thy ===== *)
theory Watched
  imports NodeRun
begin

text \<open>
  What the validation progress means: a running node is watched together with the set of the
  blocks that its rounds have found valid, and no block up to the progress is missing from it.
\<close>

section \<open>The audited node\<close>

text \<open>The block, if any, that a round validates with success.\<close>

definition found_valid ::
  "node_ext \<Rightarrow> 'pe checker \<Rightarrow> round \<Rightarrow> ContentAddress \<Rightarrow> ContentAddress \<Rightarrow> db \<Rightarrow> Block list" where
  "found_valid E C R creg preg d =
     (case get_last_progress E (at_progress R) d of
        Inr (Some p) \<Rightarrow>
          (case get_next_block E (at_next R) p (before_next R d) of
             Inr (Some b) \<Rightarrow>
               (case validate E C (validate_faults R) (before_validate R (before_next R d)) creg preg b of
                  Inr (Valid _) \<Rightarrow> [b]
                | _ \<Rightarrow> [])
           | _ \<Rightarrow> [])
      | _ \<Rightarrow> [])"

text \<open>
  The relayer writes block by block, also between the accesses of a round, and the process may be
  restarted; a round adds what it has found valid.
\<close>

inductive audit_step ::
  "node_ext \<Rightarrow> 'pe checker \<Rightarrow> BigBang \<Rightarrow> db \<times> Block set \<Rightarrow> db \<times> Block set \<Rightarrow> bool" for E C bb where
  audit_relayed: "relayed E d d' \<Longrightarrow> audit_step E C bb (d, V) (d', V)"
| audit_round: "relayed E d (before_next R d) \<Longrightarrow>
    relayed E (before_next R d) (before_validate R (before_next R d)) \<Longrightarrow>
    relayed E (before_validate R (before_next R d)) (before_outcome R (before_validate R (before_next R d))) \<Longrightarrow>
    validate_next_block E C R (contract (contract_registry bb)) (contract (program_registry bb)) d = Some (res, d') \<Longrightarrow>
    audit_step E C bb (d, V)
      (d', V \<union> set (found_valid E C R (contract (contract_registry bb)) (contract (program_registry bb)) d))"
| audit_restart: "\<forall>n. (content_addr_block E (big_bang_block bb), n) \<in> stored_numbers d \<longrightarrow> n = 0 \<Longrightarrow>
    ensure_big_bang_block E A bb d = (res', d') \<Longrightarrow> audit_step E C bb (d, V) (d', V)"

inductive_cases audit_step_elim: "audit_step E C bb s s'"

definition audit_start :: "node_ext \<Rightarrow> BigBang \<Rightarrow> db \<times> Block set \<Rightarrow> bool" where
  "audit_start E bb s \<longleftrightarrow> node_start E bb (fst s) \<and> snd s = {}"

text \<open>No two blocks of different numbers have the same address.\<close>

definition address_fixes_number :: "node_ext \<Rightarrow> bool" where
  "address_fixes_number E \<longleftrightarrow>
     (\<forall>b b'. content_addr_block E b = content_addr_block E b' \<longrightarrow> number (header b) = number (header b'))"

text \<open>Every stored block is stored under the address of a block of its number.\<close>

definition stored_addressed :: "node_ext \<Rightarrow> db \<Rightarrow> bool" where
  "stored_addressed E d \<longleftrightarrow>
     (\<forall>x \<in> stored_numbers d. \<exists>b. content_addr_block E b = fst x \<and> number (header b) = snd x)"

definition valid_up_to :: "node_ext \<Rightarrow> db \<Rightarrow> Block set \<Rightarrow> Word \<Rightarrow> bool" where
  "valid_up_to E d V n \<longleftrightarrow>
     (\<forall>m. 0 < m \<and> m \<le> sint n \<longrightarrow>
       (\<exists>b \<in> V. sint (number (header b)) = m \<and> (content_addr_block E b, number (header b)) \<in> stored_numbers d))"

definition audited :: "node_ext \<Rightarrow> db \<times> Block set \<Rightarrow> bool" where
  "audited E s \<longleftrightarrow> (case s of (d, V) \<Rightarrow>
     node_inv E d \<and> stored_addressed E d \<and>
     (\<forall>p n. run_GET_VALIDATION_PROGRESS E d = Some p \<longrightarrow> (p, n) \<in> stored_numbers d \<longrightarrow> valid_up_to E d V n))"

section \<open>Each step is audited\<close>

lemma valid_up_to_mono:
  "valid_up_to E d V n \<Longrightarrow> stored_numbers d \<subseteq> stored_numbers d' \<Longrightarrow> V \<subseteq> V' \<Longrightarrow> valid_up_to E d' V' n"
  unfolding valid_up_to_def by (meson subsetD)

lemma stored_numbers_mono: "set (t_block d) \<subseteq> set (t_block d') \<Longrightarrow> stored_numbers d \<subseteq> stored_numbers d'"
  by (auto simp: stored_numbers_def)

lemma relayed_grows:
  assumes "relayed E d d'" and "plan_ok E" and "node_inv E d"
  shows "set (t_block d) \<subseteq> set (t_block d') \<and> (stored_addressed E d \<longrightarrow> stored_addressed E d') \<and>
    run_GET_VALIDATION_PROGRESS E d' = run_GET_VALIDATION_PROGRESS E d"
  using assms
proof (induction rule: relayed.induct)
  case (relayed_block d1 b d2)
  have wf: "db_wf d1"
    using node_inv_relayed [OF relayed_block.hyps(1) assms(2,3)] by (simp add: node_inv_def)
  note grow = run_progress_insert_finalize [OF assms(2) wf relayed_block.hyps(5)]
  have "stored_addressed E d2" if "stored_addressed E d1"
    using that unfolding stored_addressed_def insert_finalize_chain(3) [OF wf relayed_block.hyps(5,4)]
    by (metis insert_iff fst_conv snd_conv)
  with grow relayed_block show ?case by auto
qed simp

lemma unique_number:
  assumes "db_wf d" and "(a, n) \<in> stored_numbers d" and "(a, m) \<in> stored_numbers d"
  shows "n = m"
  using assms db_wf_D(1) [OF assms(1)]
  by (auto simp: stored_numbers_def block_table_wf_def dest: distinct_map_inject)

lemma audited_relayed:
  assumes "plan_ok E" and "relayed E d d'" and "audited E (d, V)"
  shows "audited E (d', V)"
proof -
  have inv: "node_inv E d" "stored_addressed E d"
    using assms(3) by (simp_all add: audited_def)
  note inv' = node_inv_relayed [OF assms(2,1) inv(1)] and grow = relayed_grows [OF assms(2,1) inv(1)]
  have sub: "stored_numbers d \<subseteq> stored_numbers d'"
    using grow stored_numbers_mono by blast
  have "valid_up_to E d' V n" if p: "run_GET_VALIDATION_PROGRESS E d' = Some p" "(p, n) \<in> stored_numbers d'" for p n
  proof -
    have run: "run_GET_VALIDATION_PROGRESS E d = Some p"
      using p(1) grow by simp
    then obtain r where "r \<in> set (t_block d)" "blk_address r = p"
      using progress_rows [OF assms(1), of d p] inv(1) by (auto simp: node_inv_def)
    then have r: "(p, blk_number r) \<in> stored_numbers d"
      by (auto simp: stored_numbers_def)
    moreover have "blk_number r = n"
      using unique_number [of d' p] inv' r sub p(2) by (auto simp: node_inv_def)
    ultimately show ?thesis
      using assms(3) run valid_up_to_mono [OF _ sub order_refl] by (auto simp: audited_def)
  qed
  with inv' grow inv(2) show ?thesis
    by (simp add: audited_def)
qed

lemma audited_kept:
  assumes "audited E (d, V)" and "node_inv E d'" and "stored_numbers d' = stored_numbers d"
    and "run_GET_VALIDATION_PROGRESS E d' = run_GET_VALIDATION_PROGRESS E d"
  shows "audited E (d', V)"
  using assms unfolding audited_def valid_up_to_def stored_addressed_def by simp

lemma audited_more: "audited E (d, V) \<Longrightarrow> V \<subseteq> V' \<Longrightarrow> audited E (d, V')"
  unfolding audited_def using valid_up_to_mono [OF _ order_refl] by blast

text \<open>The progress moves to the block that the round has found valid, whose number follows.\<close>

lemma audited_progress:
  assumes "plan_ok E" and "address_fixes_number E" and "audited E (d3, V)" and "b \<in> V"
    and "run_GET_VALIDATION_PROGRESS E d3 = Some p" and "(p, n) \<in> stored_numbers d3"
    and "sint (number (header b)) = sint n + 1"
    and "node_inv E d'" and "stored_numbers d' = stored_numbers d3"
    and "run_GET_VALIDATION_PROGRESS E d' = Some (content_addr_block E b)"
  shows "audited E (d', V)"
proof -
  have addressed: "stored_addressed E d'"
    using assms(3,9) by (simp add: audited_def stored_addressed_def)
  have old: "valid_up_to E d3 V n"
    using assms(3,5,6) by (auto simp: audited_def)
  have "valid_up_to E d' V m" if m: "(content_addr_block E b, m) \<in> stored_numbers d'" for m
  proof -
    obtain b' where "content_addr_block E b' = content_addr_block E b" "number (header b') = m"
      using bspec [OF addressed [unfolded stored_addressed_def] m] by auto
    with assms(2) have "m = number (header b)"
      unfolding address_fixes_number_def by metis
    with m have b: "(content_addr_block E b, number (header b)) \<in> stored_numbers d'" "sint m = sint n + 1"
      using assms(7) by simp_all
    show ?thesis
      unfolding valid_up_to_def
    proof (intro allI impI)
      fix i
      assume i: "0 < i \<and> i \<le> sint m"
      show "\<exists>b \<in> V. sint (number (header b)) = i \<and> (content_addr_block E b, number (header b)) \<in> stored_numbers d'"
      proof (cases "i = sint m")
        case True
        with b assms(4,7) show ?thesis by auto
      next
        case False
        with i b(2) have "i \<le> sint n" by simp
        with old i show ?thesis
          unfolding valid_up_to_def assms(9) by blast
      qed
    qed
  qed
  with assms(8,10) addressed show ?thesis
    by (simp add: audited_def)
qed

lemma audited_round:
  assumes "plan_ok E" and "address_fixes_number E" and "audited E (d, V)"
    and "relayed E d (before_next R d)"
    and "relayed E (before_next R d) (before_validate R (before_next R d))"
    and "relayed E (before_validate R (before_next R d)) (before_outcome R (before_validate R (before_next R d)))"
    and "validate_next_block E C R creg preg d = Some (res, d')"
  shows "audited E (d', V \<union> set (found_valid E C R creg preg d))"
proof -
  let ?d1 = "before_next R d" and ?d2 = "before_validate R (before_next R d)"
  let ?d3 = "before_outcome R ?d2" and ?V = "V \<union> set (found_valid E C R creg preg d)"
  note a1 = audited_relayed [OF assms(1,4,3)]
  note a2 = audited_relayed [OF assms(1,5) a1]
  note a3 = audited_relayed [OF assms(1,6) a2]
  have inv: "node_inv E d" "node_inv E ?d1" "node_inv E ?d2" "node_inv E ?d3"
    using assms(3) a1 a2 a3 by (simp_all add: audited_def)
  note g1 = relayed_grows [OF assms(4,1) inv(1)] and g2 = relayed_grows [OF assms(5,1) inv(2)]
    and g3 = relayed_grows [OF assms(6,1) inv(3)]
  have wf: "db_wf d" "db_wf ?d1" "db_wf ?d3"
    using inv by (simp_all add: node_inv_def)
  show ?thesis
  proof (cases rule: round_cases [of E C R creg preg d])
    case (early x res)
    then have "audited E (d', V)"
      using assms(3,7) a1 a2 by auto
    then show ?thesis
      by (rule audited_more) simp
  next
    case (valid p b g r x)
    then have x: "x = d'" and V: "set (found_valid E C R creg preg d) = {b}"
      using assms(7) by (simp_all add: found_valid_def)
    have a3': "audited E (?d3, ?V)"
      by (rule audited_more [OF a3]) simp
    have same: "t_block d' = t_block ?d3" "node_inv E d'"
      using record_valid_validating [OF assms(1), of "at_outcome R" "content_addr_block E b" "number (header b)"]
        node_inv_validating [OF inv(4) record_valid_validating [OF assms(1)]] valid(4) x
      unfolding validating_def chain_keeping_def by (metis snd_conv)+
    then have numbers: "stored_numbers d' = stored_numbers ?d3"
      by (simp add: stored_numbers_def)
    obtain n where n: "run_GET_VALIDATION_PROGRESS E d = Some p" "(p, n) \<in> stored_numbers d"
      "sint (number (header b)) = sint n + 1"
      using next_of_progress [OF assms(1) wf(1,2) conjunct1 [OF g1] valid(1,2)] by blast
    have p3: "run_GET_VALIDATION_PROGRESS E ?d3 = Some p" "(p, n) \<in> stored_numbers ?d3"
      using g1 g2 g3 n(1,2) stored_numbers_mono [of d ?d3] by auto
    from record_valid_result [OF assms(1) wf(3) valid(4)] x
    consider "d' = ?d3" | "run_GET_VALIDATION_PROGRESS E d' = Some (content_addr_block E b)"
      by blast
    then show ?thesis
    proof cases
      case 1
      with a3' show ?thesis by simp
    next
      case 2
      show ?thesis
        by (rule audited_progress [OF assms(1,2) a3' _ p3 n(3) same(2) numbers 2]) (simp add: V)
    qed
  next
    case (invalid p b f ix r x)
    then have x: "x = d'"
      using assms(7) by simp
    note res = record_failed_result [OF wf(3) invalid(4), unfolded x]
    have "run_GET_VALIDATION_PROGRESS E d' = run_GET_VALIDATION_PROGRESS E ?d3"
      using res by (intro progress_grow [OF assms(1) wf(3)]) simp_all
    moreover have "node_inv E d'"
      using node_inv_validating [OF inv(4) record_failed_validating [OF assms(1)]] invalid(4) x
      by (metis snd_conv)
    ultimately have "audited E (d', V)"
      using res by (intro audited_kept [OF a3]) (simp_all add: stored_numbers_def)
    then show ?thesis
      by (rule audited_more) simp
  qed
qed

lemma audited_start:
  assumes "plan_ok E" and "audit_start E bb s"
  shows "audited E s"
proof -
  obtain d where s: "s = (d, {})" and start: "node_start E bb d"
    using assms(2) by (cases s) (auto simp: audit_start_def)
  note inv = node_inv_start [OF assms(1) start]
  have only: "stored_numbers d = {(content_addr_block E (big_bang_block bb), 0)}"
    by (rule node_start_chain(1) [OF assms(1) start])
  have "number (header (big_bang_block bb)) = 0"
    by (simp add: big_bang_block_def)
  with inv only show ?thesis
    unfolding s audited_def stored_addressed_def valid_up_to_def by auto
qed

interpretation audited_node: inv_machine "audit_start E bb" "audit_step E C bb"
    "\<lambda>s. plan_ok E \<and> address_fixes_number E \<longrightarrow> audited E s"
proof unfold_locales
  fix s s'
  assume inv: "plan_ok E \<and> address_fixes_number E \<longrightarrow> audited E s" and step: "audit_step E C bb s s'"
  show "plan_ok E \<and> address_fixes_number E \<longrightarrow> audited E s'"
  proof
    assume ok: "plan_ok E \<and> address_fixes_number E"
    with inv have a: "audited E s" by blast
    from step show "audited E s'"
    proof (cases rule: audit_step.cases)
      case (audit_restart d A res' d' V)
      with a ok show ?thesis
        using node_inv_restarts [of E d bb A res' d'] by (simp add: audited_def)
    qed (use a ok in \<open>auto intro: audited_relayed audited_round\<close>)
  qed
qed (use audited_start in blast)

section \<open>Properties\<close>

text \<open>
  C8. The validation progress is sound.  In every state that a node reaches, however the writes of the
  relayer, the rounds of the validation and restarts interleave, a round has found valid each block of the
  finalized chain behind the big bang up to the progress, if addresses of blocks with different numbers differ.
\<close>

theorem progress_validated:
  assumes "plan_ok E" and "address_fixes_number E"
    and "reachable (audit_start E bb) (audit_step E C bb) (d, V)"
    and "get_validation_progress E d = Ok (Some a)" and "(n, a) \<in> finalized_chain d"
    and "0 < m" and "m \<le> sint n"
  shows "\<exists>b \<in> V. sint (number (header b)) = m \<and> (number (header b), content_addr_block E b) \<in> finalized_chain d"
proof -
  have a: "audited E (d, V)"
    using audited_node.reachable_inv [OF assms(3)] assms(1,2) by blast
  have "(a, n) \<in> stored_numbers d"
    using assms(5) by (auto simp: finalized_chain_def stored_numbers_def)
  moreover have "run_GET_VALIDATION_PROGRESS E d = Some a"
    using assms(4) by (simp add: get_validation_progress_def)
  ultimately have "valid_up_to E d V n"
    using a by (simp add: audited_def)
  with assms(6,7) obtain b where b: "b \<in> V" "sint (number (header b)) = m"
    "(content_addr_block E b, number (header b)) \<in> stored_numbers d"
    unfolding valid_up_to_def by blast
  have "\<forall>x \<in> stored_numbers d. prod.swap x \<in> finalized_chain d"
    using a by (simp add: audited_def node_inv_def linear_def)
  from bspec [OF this b(3)] b(1,2) show ?thesis by auto
qed

text \<open>A start, a block of the relayer and a round.\<close>

definition audited_db :: db where
  "audited_db = snd (the (validate_next_block chain_ext sample_checker quiet_round
     (contract (contract_registry quiet_big_bang)) (contract (program_registry quiet_big_bang)) next_db))"

lemma chain_address_fixes_number: "address_fixes_number chain_ext"
proof -
  have "content_addr_block chain_ext b = ContentAddress (ucast (number (header b)))" for b
    by (simp add: content_addr_block_parts from_header_and_solution_set_addrs_slice_def chain_ext_def)
  moreover have "n = m" if "ucast n = (ucast m :: 256 word)" for n m :: Word
  proof -
    have "ucast (ucast x :: 256 word) = x" for x :: Word
      by (rule ucast_up_ucast_id) (simp add: is_up)
    with arg_cong [OF that, of "ucast :: 256 word \<Rightarrow> Word"] show ?thesis by simp
  qed
  ultimately show ?thesis
    by (simp add: address_fixes_number_def)
qed

lemma audited_db_reachable:
  "\<exists>V. reachable (audit_start chain_ext quiet_big_bang) (audit_step chain_ext sample_checker quiet_big_bang) (audited_db, V)"
proof -
  have "audit_start chain_ext quiet_big_bang (start_db, {})"
    using start_db_start by (simp add: audit_start_def)
  then have 1: "reachable (audit_start chain_ext quiet_big_bang) (audit_step chain_ext sample_checker quiet_big_bang) (start_db, {})"
    by (rule reach_start)
  obtain r d' w' where run: "sync_blocks chain_ext sample_progress sample_inputs (start_db, close_channel) = (r, d', w')"
    by (metis prod_cases3)
  have progress: "fst (get_block_progress chain_ext undisturbed start_db) = Ok sample_progress"
    by code_simp
  have others: "\<forall>i \<in> set sample_inputs. others i = id"
    by (simp add: sample_inputs_def id_def)
  have "relayed chain_ext start_db next_db"
    using sync_blocks_relayed [OF chain_plan_ok node_inv_start [OF chain_plan_ok start_db_start] progress others
        sample_inputs_agree run] run
    by (simp add: next_db_def)
  from reach_step [OF 1 audit_relayed [OF this]]
  have 2: "reachable (audit_start chain_ext quiet_big_bang) (audit_step chain_ext sample_checker quiet_big_bang) (next_db, {})" .
  have "validate_next_block chain_ext sample_checker quiet_round (contract (contract_registry quiet_big_bang))
      (contract (program_registry quiet_big_bang)) next_db \<noteq> None"
    by code_simp
  then obtain res where "validate_next_block chain_ext sample_checker quiet_round (contract (contract_registry quiet_big_bang))
      (contract (program_registry quiet_big_bang)) next_db = Some (res, audited_db)"
    by (auto simp: audited_db_def)
  from reach_step [OF 2 audit_round [OF _ _ _ this]] show ?thesis
    by (auto intro: relayed_none)
qed

lemma progress_validated_witness:
  "\<exists>V. \<exists>b \<in> V. sint (number (header b)) = 1 \<and>
     (number (header b), content_addr_block chain_ext b) \<in> finalized_chain audited_db"
proof -
  obtain V where V: "reachable (audit_start chain_ext quiet_big_bang) (audit_step chain_ext sample_checker quiet_big_bang)
      (audited_db, V)"
    using audited_db_reachable by blast
  have "get_validation_progress chain_ext audited_db = Ok (Some (ContentAddress 1))"
    by code_simp
  moreover have "(1, ContentAddress 1) \<in> finalized_chain audited_db"
    by code_simp
  ultimately have "\<exists>b \<in> V. sint (number (header b)) = 1 \<and>
      (number (header b), content_addr_block chain_ext b) \<in> finalized_chain audited_db"
    by (rule progress_validated [OF chain_plan_ok chain_address_fixes_number V]) simp_all
  then show ?thesis by blast
qed

end
