(* ===== verification/Wakeups.thy ===== *)
theory Wakeups
  imports Relayer Subscribe
begin

text \<open>
  The relayer and a subscription together: the relayer writes a block and then notifies
  (\<open>relayer/src/sync.rs\<close>), the subscription looks for the block of its number and, when there is none, waits
  for a notification (\<open>subscribe_blocks\<close> of \<open>node-db/src/lib.rs\<close>).  Their interleavings are a step
  relation; its invariant is that no wake-up is lost.
\<close>

section \<open>The steps\<close>






section \<open>The invariant\<close>












section \<open>No wake-up is lost\<close>







end
