(* ===== verification/AddressState.thy ===== *)
theory AddressState
  imports FinalizedState
begin

text \<open>
  The queries by block address (\<open>node-db/src/query_range/address.rs\<close>).  As no block of a reachable
  database has a parent, the recursive statement stops at the block itself: the value of a key is
  what the solution sets of this block write.
\<close>

section \<open>The recursive statement without parents\<close>

lemma chain_base_only:
  assumes "db_wf d" and "no_parents d"
  shows "chain d c k a = chain_base d c k a"
proof -
  have "blk_id b' \<noteq> 0" if "b' \<in> set (t_block d)" for b'
    using db_wf_D(1) [OF assms(1)] that by (auto simp: block_table_wf_def)
  then have step: "chain_step d c k r = []" if "r \<in> set (chain_base d c k a)" for r
    using that assms(2) by (fastforce simp: chain_base_def chain_step_def no_parents_def)
  then have "concat (map (chain_step d c k) (chain_base d c k a)) = []"
    by simp
  then show ?thesis
    unfolding chain_def next_rowid_def chain_levels.simps by (simp only: chain_levels_Nil append_Nil2)
qed

lemma in_left_join [simp]:
  "Some y \<in> set (left_join P xs) \<longleftrightarrow> y \<in> set xs \<and> P y"
  "None \<in> set (left_join P xs) \<longleftrightarrow> (\<forall>y \<in> set xs. \<not> P y)"
  by (auto simp: left_join_def filter_empty_conv)

lemma bex_option: "(\<exists>x \<in> A. Q x) \<longleftrightarrow> None \<in> A \<and> Q None \<or> (\<exists>y. Some y \<in> A \<and> Q (Some y))"
  by (metis option.exhaust)

lemma in_concat_map: "x \<in> set (concat (map f xs)) \<longleftrightarrow> (\<exists>y \<in> set xs. x \<in> set (f y))"
  by auto

lemma found_value_iff:
  "Some v \<in> set (found_values d c k o') \<longleftrightarrow>
     (\<exists>s m. s \<in> set (t_solution d) \<and> Some (sol_set_id s) = o' \<and> sol_contract s = c \<and>
        m \<in> set (t_mutation d) \<and> mu_solution_id m = sol_id s \<and> mu_key m = k \<and> mu_value m = v)"
proof -
  let ?A = "left_join (\<lambda>s. Some (sol_set_id s) = o' \<and> sol_contract s = c) (t_solution d)"
  let ?B = "\<lambda>s. left_join (\<lambda>m. case s of None \<Rightarrow> False | Some s' \<Rightarrow> mu_solution_id m = sol_id s' \<and> mu_key m = k) (t_mutation d)"
  have "Some v \<in> set (found_values d c k o') \<longleftrightarrow> (\<exists>s \<in> set ?A. \<exists>m \<in> set (?B s). map_option mu_value m = Some v)"
    unfolding found_values_def in_concat_map set_map image_iff eq_commute [of "Some v"] ..
  then show ?thesis
    unfolding bex_option by auto
qed

lemma chain_base_found:
  "(b, Some v, n) \<in> set (chain_base d c k a) \<longleftrightarrow>
     b \<in> set (t_block d) \<and> blk_address b = a \<and> n = 0 \<and> (\<exists>i. (i, v) \<in> set (block_writes d c k (blk_id b)))"
proof -
  have "(b, Some v, n) \<in> set (chain_base d c k a) \<longleftrightarrow> b \<in> set (t_block d) \<and> blk_address b = a \<and> n = 0 \<and>
      (\<exists>l \<in> set (left_join (\<lambda>l. bss_block_id l = blk_id b) (t_block_solution_set d)).
        Some v \<in> set (found_values d c k (map_option bss_set_id l)))"
    unfolding chain_base_def by auto
  then show ?thesis
    unfolding bex_option found_value_iff by (auto simp: block_writes_def)
qed

section \<open>The writes of a stored block\<close>

text \<open>The solution sets of a block are stored, and each writes the key at most once.\<close>

definition writes_of_sets ::
  "node_ext \<Rightarrow> db \<Rightarrow> nat \<Rightarrow> SolutionSet list \<Rightarrow> ContentAddress \<Rightarrow> Key \<Rightarrow> bool" where
  "writes_of_sets E d bid sets c k \<longleftrightarrow>
     (\<forall>i v. (i, v) \<in> set (block_writes d c (blob_from_words E k) bid) \<longleftrightarrow>
        i < length sets \<and> (\<exists>w \<in> set (set_writes (sets ! i) c k). v = blob_from_words E w)) \<and>
     (\<forall>s \<in> set sets. length (set_writes s c k) \<le> 1)"

lemma run_block_value_sets:
  assumes plan: "plan_ok E" and writes: "writes_of_sets E d bid sets c k"
    and cut: "\<And>i. i < length sets \<Longrightarrow> (case ix of None \<Rightarrow> True | Some j \<Rightarrow> int i \<le> sint j) \<longleftrightarrow> i < n"
  shows "run_block_value E d c (blob_from_words E k) bid ix =
    map_option (blob_from_words E) (sets_value (take n sets) c k)"
proof -
  let ?kb = "blob_from_words E k"
  let ?rows = "filter (\<lambda>(i, v). case ix of None \<Rightarrow> True | Some j \<Rightarrow> int i \<le> sint j) (block_writes d c ?kb bid)"
  let ?first = "first_row (order_by E d (QUERY_STATE_BLOCK_ADDRESS_VALUE c ?kb bid ix) (\<lambda>(i, v). - int i) ?rows)"
  have rows: "(i, v) \<in> set ?rows \<longleftrightarrow> i < length sets \<and> i < n \<and>
      (\<exists>w \<in> set (set_writes (sets ! i) c k). v = blob_from_words E w)" for i v
    using writes cut [of i] by (auto simp: writes_of_sets_def)
  show ?thesis
  proof (cases "sets_value (take n sets) c k")
    case None
    have "(i, v) \<notin> set ?rows" for i v
    proof
      assume "(i, v) \<in> set ?rows"
      then have i: "i < length sets" "i < n" "set_writes (sets ! i) c k \<noteq> []"
        unfolding rows by auto
      then have "sets ! i \<in> set (take n sets)"
        by (auto simp: in_set_conv_nth intro!: exI [of _ i])
      with None i(3) show False
        by (simp add: sets_value_None)
    qed
    then have "?rows = []"
      by (metis last_in_set prod.collapse)
    then have "?first = None"
      by (simp only: first_row_order_by_None [OF plan])
    with None show ?thesis
      unfolding run_block_value_def by simp
  next
    case (Some v)
    from sets_value_Some [OF Some] obtain i where i: "i < length sets" "i < n"
      "v \<in> set (set_writes (sets ! i) c k)"
      "\<forall>j < length sets. j < n \<longrightarrow> i < j \<longrightarrow> set_writes (sets ! j) c k = []"
      by auto
    have mem: "(i, blob_from_words E v) \<in> set ?rows"
      unfolding rows using i by blast
    then have "?rows \<noteq> []"
      by (metis empty_iff empty_set)
    then have "?first \<noteq> None"
      unfolding first_row_order_by_None [OF plan] .
    then obtain r where r: "?first = Some r" by blast
    obtain i' v' where r': "r = (i', v')" by (cases r)
    from first_row_order_by(1) [OF plan r] obtain w where w: "i' < length sets" "i' < n"
      "w \<in> set (set_writes (sets ! i') c k)" "v' = blob_from_words E w"
      unfolding r' rows by blast
    have "i \<le> i'"
      using first_row_order_by(2) [OF plan r mem] by (simp add: r')
    with i(4) w(1-3) have "i' = i"
      by (cases "i = i'") auto
    have one: "length (set_writes (sets ! i) c k) \<le> 1"
      using writes i(1) by (simp add: writes_of_sets_def)
    have "w = v"
      using one i(3) w(3) unfolding \<open>i' = i\<close> by (cases "set_writes (sets ! i) c k") auto
    with r w(4) Some show ?thesis
      unfolding run_block_value_def r' by simp
  qed
qed

lemma run_address_query:
  assumes wf: "db_wf d" and plan: "plan_ok E" and np: "no_parents d" and r: "r \<in> set (t_block d)"
    and writes: "writes_of_sets E d (blk_id r) sets c k"
  shows "run_QUERY_STATE_BLOCK_ADDRESS E d c (blob_from_words E k) (blk_address r) ix =
    (if sets_value sets c k = None then None
     else Some (run_block_value E d c (blob_from_words E k) (blk_id r) ix, blk_number r))"
proof -
  let ?kb = "blob_from_words E k"
  let ?rows = "filter (\<lambda>(b, v, depth). v \<noteq> None) (chain d c ?kb (blk_address r))"
  let ?first = "first_row (order_by E d (QUERY_STATE_BLOCK_ADDRESS c ?kb (blk_address r) ix) (\<lambda>(b, v, depth). depth) ?rows)"
  have rows: "(b, v, n) \<in> set ?rows \<longleftrightarrow> b = r \<and> n = 0 \<and>
      (\<exists>u i. v = Some u \<and> (i, u) \<in> set (block_writes d c ?kb (blk_id r)))" for b v n
  proof (cases v)
    case (Some u)
    have "b \<in> set (t_block d) \<and> blk_address b = blk_address r \<longleftrightarrow> b = r"
      using r db_wf_D(1) [OF wf] by (auto simp: block_table_wf_def dest: distinct_map_inject)
    then show ?thesis
      unfolding chain_base_only [OF wf np] Some by (auto simp: chain_base_found)
  qed simp
  have some: "(\<exists>u i. (i, u) \<in> set (block_writes d c ?kb (blk_id r))) \<longleftrightarrow> sets_value sets c k \<noteq> None"
  proof -
    have "(\<exists>u i. (i, u) \<in> set (block_writes d c ?kb (blk_id r))) \<longleftrightarrow>
        (\<exists>i < length sets. set_writes (sets ! i) c k \<noteq> [])"
      using writes unfolding writes_of_sets_def by (metis empty_iff empty_set last_in_set)
    then show ?thesis
      unfolding sets_value_None by (metis in_set_conv_nth)
  qed
  show ?thesis
  proof (cases ?first)
    case None
    then have "?rows = []"
      by (simp only: first_row_order_by_None [OF plan])
    then have "\<not> (\<exists>u i. (i, u) \<in> set (block_writes d c ?kb (blk_id r)))"
      using rows [of r _ 0] by (metis empty_iff empty_set)
    with some None show ?thesis
      unfolding run_QUERY_STATE_BLOCK_ADDRESS_def by simp
  next
    case (Some x)
    obtain b v n where x: "x = (b, v, n)"
      by (metis prod_cases3)
    have "(b, v, n) \<in> set ?rows"
      using first_row_order_by(1) [OF plan Some] unfolding x .
    then have "x = (r, v, 0)" "\<exists>u i. (i, u) \<in> set (block_writes d c ?kb (blk_id r))"
      unfolding rows x by blast+
    with some Some show ?thesis
      unfolding run_QUERY_STATE_BLOCK_ADDRESS_def by simp
  qed
qed

section \<open>The state at a block address\<close>

lemma finalize_block_only: "\<exists>x. snd (finalize_block a d) = d\<lparr>t_finalized_block := x\<rparr>"
proof -
  have "\<exists>x. d = d\<lparr>t_finalized_block := x\<rparr>"
    by (rule exI [of _ "t_finalized_block d"]) simp
  then show ?thesis
    by (auto simp: finalize_block_def of_stmt_def FINALIZE_BLOCK_def split: option.split)
qed

lemma finalize_block_same: "d = d\<lparr>t_finalized_block := t_finalized_block d\<rparr>"
  by simp

lemma no_parents_inserted:
  assumes "reachable (\<lambda>d. d = create_tables) (db_step E) d"
    and "\<And>b. content_addr_block E b \<noteq> ContentAddress 0"
    and "d' = snd (insert_block E b d) \<or>
      finalize_block (content_addr_block E b) (snd (insert_block E b d)) = (Ok (), d')"
  shows "no_parents d'" and "db_wf d'"
    and "t_block d' = t_block (snd (insert_block E b d))"
    and "block_writes d' = block_writes (snd (insert_block E b d))"
proof -
  let ?d = "snd (insert_block E b d)"
  have frame: "d' = ?d \<or> d' = snd (finalize_block (content_addr_block E b) ?d)"
    using assms(3) by auto
  show "db_wf d'"
    using frame node_db.reachable_inv [OF assms(1)] insert_block_wf finalize_block_wf by blast
  obtain x where "d' = ?d\<lparr>t_finalized_block := x\<rparr>"
    using frame finalize_block_only by (metis finalize_block_same)
  then show same: "t_block d' = t_block ?d" "block_writes d' = block_writes ?d"
    by (simp_all add: block_writes_def fun_eq_iff cong: if_cong)
  have "no_parents ?d"
    by (rule no_parents_insert_block [OF reachable_no_parents [OF assms(1,2)] assms(2)])
  then show "no_parents d'"
    by (simp add: no_parents_def same(1))
qed

text \<open>
  C20. Let a new block be inserted into a reachable database, and perhaps be finalized, its solution
  sets writing a key at most once each, and let no hash be zero.  The query inclusive of the
  block's address returns the value that its solution sets write last, and nothing when they do not
  write the key, whatever the blocks before it have written.  The query inclusive of a solution
  set returns the value written last up to that set; when only later sets write the key, it falls back
  to the finalized query inclusive of the block's number; and it returns nothing when no set writes the key.
\<close>

theorem address_block_state:
  assumes "reachable (\<lambda>d. d = create_tables) (db_step E) d" and "plan_ok E" and "codec_ok E"
    and "\<And>b. content_addr_block E b \<noteq> ContentAddress 0" and "fresh_block E d b"
    and "\<forall>s \<in> set (solution_sets b). length (set_writes s c k) \<le> 1"
    and "d' = snd (insert_block E b d) \<or>
      finalize_block (content_addr_block E b) (snd (insert_block E b d)) = (Ok (), d')"
    and "fits_i64 ix"
  shows "address_inclusive_block E d' c k (content_addr_block E b) = Ok (sets_value (solution_sets b) c k) \<and>
    address_inclusive_solution_set E d' c k (content_addr_block E b) ix =
      (if sets_value (solution_sets b) c k = None then Ok None
       else case sets_value (take (Suc (unat ix)) (solution_sets b)) c k of
         Some v \<Rightarrow> Ok (Some v)
       | None \<Rightarrow> finalized_inclusive_block E d' c k (number (header b)))"
proof -
  let ?d = "snd (insert_block E b d)" and ?ss = "solution_sets b" and ?kb = "blob_from_words E k"
  note ins = no_parents_inserted [OF assms(1,4,7)]
  obtain r where r: "block_stored ?d r (header b) (map (content_addr_solution_set E) ?ss)"
    "blk_address r = content_addr_block E b"
    and stored: "\<forall>s \<in> set ?ss. set_stored E ?d (content_addr_solution_set E s) s"
    by (rule insert_block_fresh [OF node_db.reachable_inv [OF assms(1)] assms(5)], rule that)
  have rin: "r \<in> set (t_block d')" and num: "number (header b) = blk_number r"
    using r(1) header_of_row_number by (auto simp: block_stored_def ins(3))
  have writes: "writes_of_sets E d' (blk_id r) ?ss c k"
    unfolding writes_of_sets_def ins(4)
    using block_writes_stored [OF assms(3) r(1), of ?ss _ _ c k] stored assms(6) by simp
  note run = run_address_query [OF ins(2) assms(2) ins(1) rin writes, unfolded r(2)]
  have all: "run_block_value E d' c ?kb (blk_id r) None = map_option (blob_from_words E) (sets_value ?ss c k)"
    using run_block_value_sets [OF assms(2) writes, of None "length ?ss"] by simp
  have "sint ix = int (unat ix)"
    using assms(8) unfolding fits_i64_def sint_i64_uint unat_less_i64_max by simp
  then have cut: "int i \<le> sint ix \<longleftrightarrow> i < Suc (unat ix)" for i
    by linarith
  have upto: "run_block_value E d' c ?kb (blk_id r) (Some ix) =
      map_option (blob_from_words E) (sets_value (take (Suc (unat ix)) ?ss) c k)"
    by (rule run_block_value_sets [OF assms(2) writes]) (simp only: option.case cut)
  show ?thesis
  proof
    show "address_inclusive_block E d' c k (content_addr_block E b) = Ok (sets_value ?ss c k)"
      unfolding address_inclusive_block_def run all value_or_finalized_def
      by (auto simp: words_from_blob_from_words [OF assms(3)])
    show "address_inclusive_solution_set E d' c k (content_addr_block E b) ix =
      (if sets_value ?ss c k = None then Ok None
       else case sets_value (take (Suc (unat ix)) ?ss) c k of
         Some v \<Rightarrow> Ok (Some v)
       | None \<Rightarrow> finalized_inclusive_block E d' c k (number (header b)))"
      using assms(8) unfolding address_inclusive_solution_set_def to_sql_u64_def
      by (auto simp: run upto value_or_finalized_def num words_from_blob_from_words [OF assms(3)] split: option.split)
  qed
qed

text \<open>
  In a finalized block whose second set writes the key, the query at the first set returns
  what the second writes.
\<close>

lemma address_block_state_witness:
  "let E = sample_ext\<lparr>hash_block_parts := \<lambda>_. 1\<rparr>; b = sample_block 1 [[(3, 4)], [(1, 2)]];
       d = snd (finalize_block (content_addr_block E b) (snd (insert_block E b create_tables)))
   in address_inclusive_block E d sample_contract [1] (content_addr_block E b) = Ok (Some [2]) \<and>
      address_inclusive_solution_set E d sample_contract [1] (content_addr_block E b) 0 = Ok (Some [2])"
proof -
  let ?E = "sample_ext\<lparr>hash_block_parts := \<lambda>_. 1\<rparr>" and ?b = "sample_block 1 [[(3, 4)], [(1, 2)]]"
  let ?d = "snd (finalize_block (content_addr_block ?E ?b) (snd (insert_block ?E ?b create_tables)))"
  have E: "plan_ok ?E" "codec_ok ?E"
    using sample_plan_ok sample_codec_ok by (simp_all add: plan_ok_def codec_ok_def)
  have nonzero: "content_addr_block ?E b \<noteq> ContentAddress 0" for b
    by (simp add: content_addr_block_parts from_header_and_solution_set_addrs_slice_def)
  have b: "fresh_block ?E create_tables ?b"
    "\<forall>s \<in> set (solution_sets ?b). length (set_writes s sample_contract [1]) \<le> 1"
    "fst (finalize_block (content_addr_block ?E ?b) (snd (insert_block ?E ?b create_tables))) = Ok ()"
    by code_simp+
  have fin: "finalize_block (content_addr_block ?E ?b) (snd (insert_block ?E ?b create_tables)) = (Ok (), ?d)"
    using b(3) by (simp add: prod_eq_iff)
  have vals: "sets_value (solution_sets ?b) sample_contract [1] = Some [2]"
    "sets_value (take (Suc (unat (0 :: u64))) (solution_sets ?b)) sample_contract [1] = None"
    "finalized_inclusive_block ?E ?d sample_contract [1] (number (header ?b)) = Ok (Some [2])"
    by code_simp+
  have "address_inclusive_block ?E ?d sample_contract [1] (content_addr_block ?E ?b) = Ok (Some [2]) \<and>
      address_inclusive_solution_set ?E ?d sample_contract [1] (content_addr_block ?E ?b) 0 = Ok (Some [2])"
    using address_block_state [OF reach_start E nonzero b(1,2) disjI2 [OF fin], of 0] vals by simp
  then show ?thesis
    unfolding Let_def .
qed

end
