(* ===== verification/Spec2Isabelle.thy ===== *)
theory Spec2Isabelle
  imports WellTyped Registry DryRun Follower NodeCli Watched Wakeups AddressState
begin

text \<open>
  A model of the Essential node (\<open>src/crates\<close>), with the theorems that make it correct.

  \<^bold>\<open>The program.\<close>  A node keeps blocks in SQLite.  A \<^emph>\<open>relayer\<close> reads the blocks of another node
  as server-sent events, and inserts and finalizes each in one transaction.  The
  \<^emph>\<open>validation stream\<close> follows the finalized chain: it checks the next block against the state
  the chain has so far, and moves the validation progress or records the block as failed.
  State is not stored; it is the last write of a key in the mutations of the finalized blocks,
  so that a query at a block or at a solution set is a query of the mutations.  The \<^emph>\<open>API\<close>
  answers such queries, lists blocks and streams new ones.  The tasks share a pool of
  connections and a channel that announces new blocks.  The \<^emph>\<open>command line\<close> opens the pools, writes
  the big bang block, starts the streams and the server, and closes the pools at the end.

  \<^bold>\<open>Conventions.\<close>  A Rust \<open>Result\<close> is a sum with the error on the left (\<open>Ok\<close> and \<open>Err\<close> abbreviate
  its injections); a function that may panic returns an \<open>option\<close>, \<open>None\<close> being the panic, or has a
  panicking outcome.  \<open>i64\<close>, \<open>u64\<close> and \<open>u8\<close> are words of that width.  A database is the record \<open>db\<close>
  of its tables, each a list of rows in insertion order; a writing operation returns its
  result and the database.  Whatever the code cannot foresee is an argument: the answers of SQLite and
  the pool at an access (\<open>access\<close>, \<open>faults\<close>), the writes of other tasks between two accesses
  (functions on databases), what arrives on a channel or a socket (lists of inputs).  Third-party
  functions, namely the hashes, the codecs of words and predicates, and the order of rows
  that a statement leaves free, are the fields of the record \<open>ext\<close>; what the theorems rely on is
  the named hypotheses \<open>codec_ok\<close>, \<open>predicate_codec_ok\<close> and \<open>plan_ok\<close>, the last of which allows any
  order of the rows.  They hold for \<open>sample_ext\<close>, at which the witnesses are evaluated.  Four
  data types of other crates are states of the code itself, and taken by what these crates document: the
  queue of \<open>crossbeam\<close> and the semaphore of \<open>tokio\<close> (\<open>RusqlitePool\<close>), its \<open>watch\<close> channel (\<open>BlockNotify\<close>) and its
  \<open>JoinSet\<close> (\<open>NodeApi\<close>); so is \<open>FramedRead\<close> of \<open>tokio_util\<close>, which calls the decoder (\<open>RelayerStream\<close>).

  \<^bold>\<open>Data and database.\<close>
  \<^item> \<open>Prelude\<close>: results, integers, and shared facts on lists and multisets; the locale \<open>inv_machine\<close>
    of step relations that keep an invariant.
  \<^item> \<open>EssentialTypes\<close>: the data of \<open>essential-types\<close> that the node reads and writes, and \<open>ext\<close>.
  \<^item> \<open>NodeTypes\<close> (\<open>node-types/src/lib.rs\<close>, \<open>block.rs\<close>, \<open>block/addr.rs\<close>): blocks, their
    addresses, the big bang block, the mutations of the two registries and of the block state, and
    the data of actions (\<open>action.rs\<close>), which nothing else uses.
  \<^item> \<open>Schema\<close>, \<open>SqlWrite\<close>, \<open>SqlQuery\<close> (\<open>node-db-sql/sql\<close>): the tables with the invariant
    \<open>db_wf\<close> of their keys and references, the statements that write, and the queries.
  \<^item> \<open>NodeDb\<close> (\<open>node-db/src/lib.rs\<close>): each operation, under the name it has in the code;
    \<open>QueryRange\<close> (\<open>node-db/src/query_range\<close>): the finalized and the address queries.
  \<^item> \<open>Sample\<close>: the concrete functions and data of the witnesses.

  \<^bold>\<open>What the database guarantees.\<close>
  \<^item> \<open>DbInv\<close>: all operations keep \<open>db_wf\<close>; transactions are atomic; the state table is a map.
  \<^item> \<open>RoundTrip\<close>, \<open>Listing\<close>: what is inserted is read back, block by block and in listings, and
    what goes wrong with empty blocks and with solution sets that are stored already.
  \<^item> \<open>WellTyped\<close>: in a reachable database every row decodes to values of the Rust types, but for the
    missing address of a block without solution sets.
  \<^item> \<open>QueryRange\<close>, \<open>FinalizedState\<close>: the SQL of the finalized queries refines the replay of the
    history of finalized writes; how a new block changes that history.
  \<^item> \<open>AddressState\<close>: what the address queries give for a new block, from the rows of the recursive
    statement on.
  \<^item> \<open>Registry\<close>: what is registered in a finalized block is found by the validation.
  \<^item> \<open>Chain\<close>: the finalized chain as a set of numbered addresses, and what extends it.

  \<^bold>\<open>Pools and channels.\<close>
  \<^item> \<open>RusqlitePool\<close> (\<open>rusqlite-pool/src\<close>): the queue of connections and the semaphore, as steps of
    concurrent callers with rule induction over their interleavings.
  \<^item> \<open>DbPool\<close> (\<open>node-db/src/pool.rs\<close>): opening, closing, and the asynchronous short-hands.
  \<^item> \<open>BlockNotify\<close> (\<open>node-types/src/block_notify.rs\<close>): the channel of notifications.
  \<^item> \<open>Subscribe\<close> (\<open>subscribe_blocks\<close> of \<open>node-db\<close>): the stream of blocks by number.
  \<^item> \<open>Wakeups\<close>: the relayer that writes and notifies, and a subscription that looks and waits, as steps
    that interleave; no notification is lost between the look and the wait.

  \<^bold>\<open>Validation.\<close>
  \<^item> \<open>Validate\<close>, \<open>ValidateLaws\<close>, \<open>DryRun\<close> (\<open>node/src/validate.rs\<close>): reads of key ranges,
    retrieval of predicates and programs, the validation of a block set by set, and dry runs, which
    agree with a validation after the block.  Each transaction of a validation may see other
    blocks than the one before; \<open>validation_unaffected\<close> shows that the outcome stays the same.
  \<^item> \<open>NodeError\<close> (\<open>node/src/error.rs\<close>): which errors restart a stream and which end it.
  \<^item> \<open>Validation\<close>, \<open>ValidationLaws\<close> (\<open>node/src/validation.rs\<close>, \<open>handles/validation.rs\<close>): a
    round, the stream, and its handle; what a round may change, and that the stream catches up.

  \<^bold>\<open>Relayer.\<close>
  \<^item> \<open>RelayerStream\<close> (\<open>relayer/src/sync/streams.rs\<close>, \<open>error.rs\<close>): the client, the decoder of events
    over chunks of bytes, and the errors.
  \<^item> \<open>Relayer\<close> (\<open>relayer/src/sync.rs\<close>, \<open>lib.rs\<close>, \<open>handle.rs\<close>): the loop that writes blocks, the
    restarts, and the handle; what a run may add to the chain and how the task ends.

  \<^bold>\<open>The node.\<close>
  \<^item> \<open>Node\<close> (\<open>node/src/lib.rs\<close>, \<open>handles/node.rs\<close>): the big bang block, the start of the
    streams, and the handle of both; \<open>Started\<close>: a started node never lacks a progress, and what the
    streams do on a closed pool.
  \<^item> \<open>NodeApi\<close> (\<open>node-api/src\<close>): the endpoints, and the server with its limit on connections.
  \<^item> \<open>Follower\<close>: a node that reads another through that API: subscription, events, decoder,
    relayer and chain together.
  \<^item> \<open>NodeRun\<close>: the database of a running node as a state machine, whose steps are runs of the
    relayer and rounds of the validation, each with writes of the other between its own, and
    restarts; its invariant, and that the validation catches up from every reachable state.
    \<open>Watched\<close> watches it together with the blocks that rounds have found valid: none is missing up to
    the progress.
  \<^item> \<open>NodeCli\<close> (\<open>node-cli/src/lib.rs\<close>): the run of a process from its arguments to its end, its streams
    taking the steps of \<open>run_relayer\<close> and \<open>validation_stream\<close> in any order.

  \<^bold>\<open>Interfaces.\<close>  Three locales state what a client relies on, each interpreted at the code's model:
  \<open>inv_machine\<close> by the operations of the database, by the steps of the pool, by those of the
  running node, plain and audited, and by those of a relayer with a subscription, \<open>state_store\<close> by the
  state table, and \<open>versioned_store\<close> by the finalized queries; the dry runs are proved over the
  last one.

  \<^bold>\<open>Bounds.\<close>  The recursive table of \<open>query_state_block_address.sql\<close> is built for as many levels
  as the largest row id, and no further level has a row (\<open>chain_fuel_enough\<close>).  The endless loops
  of the code, those of the streams, the server and the subscription, recurse over the list of
  their inputs, so that a theorem about all lists is one about all of their finite runs; that a
  stream reaches its end is a theorem of its own where the code has an end.

  \<^bold>\<open>Not modelled.\<close>  Texts for users (\<open>Display\<close>, tracing events), the parser of arguments, what hyper,
  axum, tower and clap do with the routes and arguments given to them, the access to the same connection
  through \<open>Deref\<close>, \<open>AsRef\<close> and \<open>Borrow\<close>, waiting for a connection that is in use (an access that
  waits is one that comes later), and the scheduling of tasks within one blocking call.  The checker of
  predicates, YAML, JSON and HTTP are code of other crates, and arguments.  What is left of the
  implementation beside these are declarations of modules and imports, the constants that name the SQL
  files, and tests.
\<close>

end
